(* ===== verification/Prelude.thy ===== *)
theory Prelude
  imports Complex_Main "HOL-Library.Word" "HOL-Library.Char_ord" "HOL-Library.List_Lexorder"
    "HOL-Library.Multiset"
begin

text \<open>
  Shared vocabulary of the development: Go strings and byte slices, Go's integer division,
  the decimal and hexadecimal renderings of \<open>fmt\<close> that the program uses, checked slice
  access, and the generic list lemmas the components share.

  A Go string is a sequence of bytes, so it is a HOL \<open>string\<close> (a list of 8-bit characters);
  a \<open>[]byte\<close> is a list of 8-bit words. Durations and instants are integers counting
  nanoseconds. \<open>None\<close> as the result of a whole function stands for a run-time panic.
\<close>

unbundle bit_operations_syntax

subsection \<open>Types\<close>

type_synonym byte = "8 word"
type_synonym bytes = "byte list"
type_synonym duration = int
type_synonym instant = int

named_theorems panic_simps \<open>evaluation of checked slice and pointer access\<close>
named_theorems codec_simps \<open>round trips of the byte-level encodings\<close>

subsection \<open>Strings and bytes\<close>

definition bytes_of :: "string \<Rightarrow> bytes" where
  "bytes_of s = map (\<lambda>c. word_of_nat (of_char c)) s"

definition string_of :: "bytes \<Rightarrow> string" where
  "string_of bs = map (\<lambda>b. char_of (unat b)) bs"

lemma string_of_bytes_of [codec_simps]: "string_of (bytes_of s) = s"
  by (induction s) (simp_all add: string_of_def bytes_of_def unsigned_of_nat take_bit_nat_eq_self)

lemma bytes_of_string_of [codec_simps]: "bytes_of (string_of bs) = bs"
proof (induction bs)
  case (Cons b bs)
  have "(of_char (char_of (unat b) :: char) :: nat) = unat b mod 256"
    by (simp add: of_char_of)
  also have "\<dots> = unat b"
    using unsigned_less [of b, where 'a = nat] by simp
  finally show ?case using Cons by (simp add: string_of_def bytes_of_def)
qed (simp add: string_of_def bytes_of_def)

lemma length_bytes_of [simp]: "length (bytes_of s) = length s"
  by (simp add: bytes_of_def)

lemma bytes_of_eq_Nil [simp]: "bytes_of s = [] \<longleftrightarrow> s = []"
  by (simp add: bytes_of_def)

subsection \<open>Numbers in text\<close>

text \<open>\<open>%d\<close>: the decimal digits of a number, most significant first.\<close>

definition digit_char :: "nat \<Rightarrow> char" where
  "digit_char d = char_of (48 + d)"

fun show_nat :: "nat \<Rightarrow> string" where
  "show_nat n = (if n < 10 then [digit_char n] else show_nat (n div 10) @ [digit_char (n mod 10)])"

declare show_nat.simps [simp del]

lemma show_nat_code [code]:
  "show_nat n = (if n < 10 then [digit_char n] else show_nat (n div 10) @ [digit_char (n mod 10)])"
  by (rule show_nat.simps)

lemma digit_chars:
  "digit_char 0 = CHR ''0''" "digit_char 1 = CHR ''1''" "digit_char (Suc 0) = CHR ''1''"
  "digit_char 2 = CHR ''2''" "digit_char 3 = CHR ''3''" "digit_char 4 = CHR ''4''"
  "digit_char 5 = CHR ''5''" "digit_char 6 = CHR ''6''" "digit_char 7 = CHR ''7''"
  "digit_char 8 = CHR ''8''" "digit_char 9 = CHR ''9''"
  by (simp_all add: digit_char_def char_of_def bit_Suc bit_0)

definition show_int :: "int \<Rightarrow> string" where
  "show_int i = (if i < 0 then CHR ''-'' # show_nat (nat (- i)) else show_nat (nat i))"

lemma show_nat_nonempty [simp]: "show_nat n \<noteq> []"
  by (subst show_nat.simps) simp

text \<open>\<open>%x\<close> on one byte: two lower-case hexadecimal digits.\<close>

definition hex_digit :: "nat \<Rightarrow> char" where
  "hex_digit d = (if d < 10 then char_of (48 + d) else char_of (87 + d))"

definition hex_byte :: "byte \<Rightarrow> string" where
  "hex_byte b = [hex_digit (unat b div 16), hex_digit (unat b mod 16)]"

text \<open>\<open>%x\<close> on a byte slice.\<close>

definition hex_bytes :: "bytes \<Rightarrow> string" where
  "hex_bytes bs = concat (map hex_byte bs)"

lemma hex_bytes_simps [simp]:
  "hex_bytes [] = []" "hex_bytes (b # bs) = hex_byte b @ hex_bytes bs"
  by (simp_all add: hex_bytes_def)

lemma length_hex_bytes [simp]: "length (hex_bytes bs) = 2 * length bs"
  by (induction bs) (simp_all add: hex_byte_def)

subsection \<open>Go's integer division\<close>

text \<open>
  Go's \<open>/\<close> on integers truncates towards zero and panics on a zero divisor.
\<close>

definition go_div :: "int \<Rightarrow> int \<Rightarrow> int option" where
  "go_div a b = (if b = 0 then None else Some (sgn a * sgn b * (\<bar>a\<bar> div \<bar>b\<bar>)))"

lemma go_div_pos: "0 < b \<Longrightarrow> 0 \<le> a \<Longrightarrow> go_div a b = Some (a div b)"
  by (cases "a = 0") (simp_all add: go_div_def)

lemma go_div_nonzero [panic_simps]: "b \<noteq> 0 \<Longrightarrow> \<exists>q. go_div a b = Some q"
  by (simp add: go_div_def)

subsection \<open>Checked slice access\<close>

text \<open>\<open>xs[i]\<close> and \<open>xs[i:j]\<close> panic out of range.\<close>

definition go_index :: "'a list \<Rightarrow> nat \<Rightarrow> 'a option" where
  "go_index xs i = (if i < length xs then Some (xs ! i) else None)"

definition go_slice :: "'a list \<Rightarrow> nat \<Rightarrow> nat \<Rightarrow> 'a list option" where
  "go_slice xs i j = (if i \<le> j \<and> j \<le> length xs then Some (take (j - i) (drop i xs)) else None)"

lemma go_index_in [panic_simps]: "i < length xs \<Longrightarrow> go_index xs i = Some (xs ! i)"
  by (simp add: go_index_def)

lemma go_slice_in [panic_simps]:
  "i \<le> j \<Longrightarrow> j \<le> length xs \<Longrightarrow> go_slice xs i j = Some (take (j - i) (drop i xs))"
  by (simp add: go_slice_def)

lemma go_slice_out: "length xs < j \<Longrightarrow> go_slice xs i j = None"
  by (simp add: go_slice_def)

subsection \<open>Fixed-size arrays\<close>

text \<open>\<open>var out [32]byte; copy(out[:], src)\<close>: at most 32 bytes, zero-padded.\<close>

definition copy32 :: "bytes \<Rightarrow> bytes" where
  "copy32 bs = take 32 (bs @ replicate 32 0)"

lemma length_copy32 [simp]: "length (copy32 bs) = 32"
  by (simp add: copy32_def)

lemma copy32_id [simp]: "length bs = 32 \<Longrightarrow> copy32 bs = bs"
  by (simp add: copy32_def)

subsection \<open>Lists\<close>

lemma mset_filter_partition:
  "mset (filter P xs) + mset (filter (\<lambda>x. \<not> P x) xs) = mset xs"
  by (induction xs) auto

lemma butlast_all_imp_take:
  "\<forall>x \<in> set (butlast xs). P x \<Longrightarrow> i < length xs - 1 \<Longrightarrow> P (xs ! i)"
  by (metis length_butlast nth_butlast nth_mem)

end
