(* ===== verification/Json.thy ===== *)
theory Json
  imports Prelude
begin

text \<open>
  What the program uses of \<open>encoding/json\<close> when it reads: unmarshalling a value into a slice of
  structs (\<open>loadTargets\<close>) and into the per-prober parameter structs, there with
  \<open>DisallowUnknownFields\<close>.

  A JSON text that passed the syntax check is the tree \<open>json\<close>; a number keeps its literal, as
  the decoder hands it to \<open>strconv\<close>. An object is the list of its members in file order, so
  duplicate keys are kept and the later one wins, as in Go. A \<open>json.RawMessage\<close> is the tree of
  the text it holds, and \<open>None\<close> when it is empty.
\<close>

datatype json =
    JNull
  | JBool bool
  | JNum string
  | JStr string
  | JArr "json list"
  | JObj "(string \<times> json) list"

datatype json_err =
    JsonMismatch
  | JsonUnknownField string
  | JsonNumber string

subsection \<open>Integer literals\<close>

text \<open>\<open>strconv.ParseInt(item, 10, 64)\<close> on a JSON number literal.\<close>

definition digit_val :: "char \<Rightarrow> nat option" where
  "digit_val c = (let n = of_char c in if 48 \<le> n \<and> n < 58 then Some (n - 48) else None)"

fun parse_digits :: "nat \<Rightarrow> string \<Rightarrow> nat option" where
  "parse_digits acc [] = Some acc"
| "parse_digits acc (c # cs) =
     (case digit_val c of None \<Rightarrow> None | Some d \<Rightarrow> parse_digits (10 * acc + d) cs)"

definition parse_int64 :: "string \<Rightarrow> int option" where
  "parse_int64 s =
     (let neg = (s \<noteq> [] \<and> hd s = CHR ''-''); ds = (if neg then tl s else s)
      in if ds = [] then None
         else case parse_digits 0 ds of
                None \<Rightarrow> None
              | Some n \<Rightarrow>
                  let i = (if neg then - int n else int n)
                  in if - (2 ^ 63) \<le> i \<and> i < 2 ^ 63 then Some i else None)"

lemma of_char_digit: "d < 10 \<Longrightarrow> (of_char (digit_char d) :: nat) = 48 + d"
  by (simp add: digit_char_def of_char_of)

lemma digit_val_digit_char [codec_simps]: "d < 10 \<Longrightarrow> digit_val (digit_char d) = Some d"
  by (simp add: digit_val_def of_char_digit)

lemma parse_digits_append:
  "parse_digits acc (xs @ ys) =
     (case parse_digits acc xs of None \<Rightarrow> None | Some n \<Rightarrow> parse_digits n ys)"
  by (induction xs arbitrary: acc) (auto split: option.split)

lemma parse_show_nat [codec_simps]: "parse_digits 0 (show_nat n) = Some n"
proof (induction n rule: show_nat.induct)
  case (1 n)
  show ?case
  proof (cases "n < 10")
    case True
    then show ?thesis by (subst show_nat.simps) (simp add: codec_simps)
  next
    case False
    with "1.IH" show ?thesis
      by (subst show_nat.simps) (simp add: parse_digits_append digit_val_digit_char)
  qed
qed

lemma show_nat_hd_digit: "hd (show_nat n) \<noteq> CHR ''-''"
proof (induction n rule: show_nat.induct)
  case (1 n)
  have "(of_char (digit_char n) :: nat) \<noteq> of_char CHR ''-''" if "n < 10"
    using that by (simp add: of_char_digit)
  with 1 show ?case by (subst show_nat.simps) auto
qed

lemma parse_show_int:
  assumes "- (2 ^ 63) \<le> i" "i < 2 ^ 63"
  shows "parse_int64 (show_int i) = Some i"
  using assms show_nat_hd_digit
  by (simp add: parse_int64_def show_int_def parse_show_nat Let_def)

subsection \<open>Matching member names\<close>

text \<open>
  A member is matched to a struct field case-insensitively. Go folds each rune to the least rune
  of its case orbit; the orbits that meet ASCII letters are the two letter cases and, in
  addition, the long s (U+017F) and the Kelvin sign (U+212A), here in their UTF-8 bytes.
\<close>

definition fold_char :: "char \<Rightarrow> char" where
  "fold_char c =
     (let n = of_char c :: nat in if 97 \<le> n \<and> n \<le> 122 then char_of (n - 32) else c)"

fun fold_name :: "string \<Rightarrow> string" where
  "fold_name [] = []"
| "fold_name [c] = [fold_char c]"
| "fold_name [c, d] =
     (if c = CHR 0xC5 \<and> d = CHR 0xBF then ''S'' else [fold_char c, fold_char d])"
| "fold_name (c # d # e # s) =
     (if c = CHR 0xC5 \<and> d = CHR 0xBF then CHR ''S'' # fold_name (e # s)
      else if c = CHR 0xE2 \<and> d = CHR 0x84 \<and> e = CHR 0xAA then CHR ''K'' # fold_name s
      else fold_char c # fold_name (d # e # s))"

subsection \<open>Decoding objects into structs\<close>

text \<open>
  A struct type is described by its JSON field names, each with the effect of storing a value
  in the field. A mismatch is remembered, the first one is what \<open>Unmarshal\<close> returns, and
  decoding goes on with the next member.
\<close>

type_synonym 's fields = "(string \<times> (json \<Rightarrow> 's \<Rightarrow> json_err + 's)) list"

definition find_field :: "'s fields \<Rightarrow> string \<Rightarrow> (json \<Rightarrow> 's \<Rightarrow> json_err + 's) option" where
  "find_field fs k = map_option snd (find (\<lambda>f. fold_name (fst f) = fold_name k) fs)"

definition save_error :: "json_err option \<Rightarrow> json_err \<Rightarrow> json_err option" where
  "save_error saved e = (case saved of None \<Rightarrow> Some e | Some e' \<Rightarrow> Some e')"

fun decode_members ::
  "bool \<Rightarrow> 's fields \<Rightarrow> (string \<times> json) list \<Rightarrow> 's \<Rightarrow> json_err option \<Rightarrow> 's \<times> json_err option" where
  "decode_members strict fs [] s saved = (s, saved)"
| "decode_members strict fs ((k, v) # ms) s saved =
     (case find_field fs k of
        None \<Rightarrow>
          decode_members strict fs ms s
            (if strict then save_error saved (JsonUnknownField k) else saved)
      | Some store \<Rightarrow>
          (case store v s of
             Inl e \<Rightarrow> decode_members strict fs ms s (save_error saved e)
           | Inr s' \<Rightarrow> decode_members strict fs ms s' saved))"

definition decode_struct :: "bool \<Rightarrow> 's fields \<Rightarrow> 's \<Rightarrow> json \<Rightarrow> json_err + 's" where
  "decode_struct strict fs z j =
     (case j of
        JNull \<Rightarrow> Inr z
      | JObj ms \<Rightarrow>
          (case decode_members strict fs ms z None of
             (s, None) \<Rightarrow> Inr s
           | (s, Some e) \<Rightarrow> Inl e)
      | _ \<Rightarrow> Inl JsonMismatch)"

text \<open>Storing into a field of type \<open>string\<close>, \<open>int\<close>, \<open>bool\<close> and \<open>json.RawMessage\<close>.\<close>

definition store_string :: "(string \<Rightarrow> 's \<Rightarrow> 's) \<Rightarrow> json \<Rightarrow> 's \<Rightarrow> json_err + 's" where
  "store_string upd j s =
     (case j of JStr v \<Rightarrow> Inr (upd v s) | JNull \<Rightarrow> Inr s | _ \<Rightarrow> Inl JsonMismatch)"

definition store_int :: "(int \<Rightarrow> 's \<Rightarrow> 's) \<Rightarrow> json \<Rightarrow> 's \<Rightarrow> json_err + 's" where
  "store_int upd j s =
     (case j of
        JNum lit \<Rightarrow>
          (case parse_int64 lit of None \<Rightarrow> Inl (JsonNumber lit) | Some i \<Rightarrow> Inr (upd i s))
      | JNull \<Rightarrow> Inr s
      | _ \<Rightarrow> Inl JsonMismatch)"

definition store_bool :: "(bool \<Rightarrow> 's \<Rightarrow> 's) \<Rightarrow> json \<Rightarrow> 's \<Rightarrow> json_err + 's" where
  "store_bool upd j s =
     (case j of JBool b \<Rightarrow> Inr (upd b s) | JNull \<Rightarrow> Inr s | _ \<Rightarrow> Inl JsonMismatch)"

definition store_raw :: "(json option \<Rightarrow> 's \<Rightarrow> 's) \<Rightarrow> json \<Rightarrow> 's \<Rightarrow> json_err + 's" where
  "store_raw upd j s = Inr (upd (Some j) s)"

lemma decode_members_saved:
  "decode_members strict fs ms s (Some e) = (s', saved) \<Longrightarrow> saved = Some e"
  by (induction ms arbitrary: s s' saved)
    (auto simp: save_error_def split: option.splits sum.splits if_splits)

text \<open>Strict decoding accepts an object only when every member names a field.\<close>

lemma decode_members_strict:
  "decode_members True fs ms s None = (s', None) \<Longrightarrow> (k, v) \<in> set ms \<Longrightarrow> find_field fs k \<noteq> None"
proof (induction ms arbitrary: s)
  case (Cons m ms)
  obtain k' v' where m: "m = (k', v')" by (cases m)
  show ?case
  proof (cases "find_field fs k'")
    case None
    with Cons.prems(1) m have False
      using decode_members_saved by (fastforce simp: save_error_def)
    then show ?thesis ..
  next
    case (Some store)
    with Cons m show ?thesis
      by (auto simp: save_error_def split: sum.splits dest: decode_members_saved)
  qed
qed simp

lemma decode_struct_strict:
  "decode_struct True fs z (JObj ms) = Inr s \<Longrightarrow> (k, v) \<in> set ms \<Longrightarrow> find_field fs k \<noteq> None"
  by (auto simp: decode_struct_def dest: decode_members_strict split: prod.splits option.splits)

end
