(* ===== verification/GoError.thy ===== *)
theory GoError
  imports Json
begin

text \<open>
  The \<open>error\<close> values of the program. Errors of the standard library and of the kernel are the
  datatype \<open>lib_err\<close>; the errors the program itself builds with \<open>errors.New\<close> and
  \<open>fmt.Errorf\<close> are \<open>go_error\<close>, and \<open>error_text\<close> is their \<open>Error()\<close> method, with the texts
  of the source. The texts of library errors are an argument, since that code is not part of
  the program, and so is \<open>strconv.Quote\<close>, which \<open>%q\<close> calls.
\<close>

text \<open>\<open>JsonSyntax\<close> is the syntax error of a text, which names the offending character.\<close>

datatype lib_err =
    LibText string
  | JsonE json_err
  | JsonSyntax string
  | HexLength
  | HexInvalidByte char
  | Base64Corrupt string

record lib =
  lib_text :: "lib_err \<Rightarrow> string"
  lib_quote :: "string \<Rightarrow> string"

datatype go_error =
    AddrRequired
  | ParamsJson lib_err
  | BothPayloads
  | PayloadHexErr lib_err
  | AttemptsNotPositive int
  | AttemptsTooMany int
  | PublicKeyRequired
  | PublicKeyErr lib_err
  | PublicKeySize nat
  | NeedsRegisteredPeer
  | PrivateKeyErr lib_err
  | PrivateKeySize nat
  | KeyGenErr lib_err
  | EphemeralKeyErr lib_err
  | SenderIndexErr lib_err
  | EphemeralDHErr lib_err
  | StaticDHErr lib_err
  | AeadErr lib_err
  | Mac1Err lib_err
  | InitiationSize nat
  | UnknownProto string "string list"

definition max_attempts_text :: string where
  "max_attempts_text = ''10''"

text \<open>\<open>%v\<close> on a slice of strings: the elements, separated by blanks, in brackets.\<close>

fun join_blank :: "string list \<Rightarrow> string" where
  "join_blank [] = []"
| "join_blank [s] = s"
| "join_blank (s # t # ss) = s @ '' '' @ join_blank (t # ss)"

fun error_text :: "lib \<Rightarrow> go_error \<Rightarrow> string" where
  "error_text L AddrRequired = ''addr is required''"
| "error_text L (ParamsJson e) = ''params: '' @ lib_text L e"
| "error_text L BothPayloads = ''params: set either \"payload\" or \"payload_hex\", not both''"
| "error_text L (PayloadHexErr e) = ''params: payload_hex: '' @ lib_text L e"
| "error_text L (AttemptsNotPositive n) =
     ''params: attempts must be positive, got '' @ show_int n"
| "error_text L (AttemptsTooMany n) =
     ''params: attempts must be at most '' @ max_attempts_text @ '', got '' @ show_int n"
| "error_text L PublicKeyRequired = ''params: \"public_key\" is required''"
| "error_text L (PublicKeyErr e) = ''params: public_key: '' @ lib_text L e"
| "error_text L (PublicKeySize n) =
     ''params: public_key: got '' @ show_nat n @ '' bytes, want 32''"
| "error_text L NeedsRegisteredPeer =
     ''needs a registered monitoring peer: set NODECHECK_WG_PRIVATE_KEY to the private key '' @
     ''whose public key is registered as a peer on this node (see README \"wireguard\"), '' @
     ''or set \"allow_anonymous\": true in params to send an initiation that cannot confirm '' @
     ''the node is alive''"
| "error_text L (PrivateKeyErr e) = ''NODECHECK_WG_PRIVATE_KEY: '' @ lib_text L e"
| "error_text L (PrivateKeySize n) =
     ''NODECHECK_WG_PRIVATE_KEY: got '' @ show_nat n @ '' bytes, want 32''"
| "error_text L (KeyGenErr e) = lib_text L e"
| "error_text L (EphemeralKeyErr e) = ''generating ephemeral key: '' @ lib_text L e"
| "error_text L (SenderIndexErr e) = ''generating sender index: '' @ lib_text L e"
| "error_text L (EphemeralDHErr e) = ''ephemeral DH: '' @ lib_text L e"
| "error_text L (StaticDHErr e) = ''static DH: '' @ lib_text L e"
| "error_text L (AeadErr e) = ''aead: '' @ lib_text L e"
| "error_text L (Mac1Err e) = ''mac1: '' @ lib_text L e"
| "error_text L (InitiationSize n) = ''built a '' @ show_nat n @ ''-byte initiation, want 148''"
| "error_text L (UnknownProto kind known) =
     ''unknown proto '' @ lib_quote L kind @ '' (known: ['' @ join_blank known @ ''])''"

end
