(* ===== verification/GoFloat.thy ===== *)
theory GoFloat
  imports Prelude
begin

text \<open>
  The \<open>float64\<close> arithmetic the program performs: \<open>time.Duration.Seconds()\<close>, the factor 1000
  of \<open>latency_ms\<close>, and the \<open>%.4f\<close> rendering of the Prometheus samples.

  A finite \<open>float64\<close> is a rational number; every operation computes the exact result and rounds
  it to 53 significant bits, ties to even, as IEEE 754 prescribes. The values here lie between
  one nanosecond and \<open>2 ^ 63\<close> nanoseconds expressed in seconds or milliseconds, far inside the
  normal range, so overflow and subnormal numbers do not arise and are not modelled.
\<close>

type_synonym float64 = rat

subsection \<open>Rounding\<close>

definition round_even :: "rat \<Rightarrow> int" where
  "round_even x =
     (let f = \<lfloor>x\<rfloor>; r = x - of_int f
      in if r < 1/2 then f else if 1/2 < r then f + 1 else if even f then f else f + 1)"

lemma round_even_of_int [simp]: "round_even (of_int i) = i"
  by (simp add: round_even_def)

lemma round_even_error: "\<bar>of_int (round_even x) - x\<bar> \<le> 1/2"
proof -
  have "of_int \<lfloor>x\<rfloor> \<le> x" "x < of_int \<lfloor>x\<rfloor> + 1"
    by linarith+
  then show ?thesis by (auto simp: round_even_def Let_def)
qed

lemma round_even_unique:
  assumes "\<bar>x - of_int m\<bar> < 1/2"
  shows "round_even x = m"
proof -
  have "\<bar>(of_int (round_even x) :: rat) - of_int m\<bar> < 1"
    using round_even_error [of x] assms by linarith
  then have "\<bar>(of_int (round_even x - m) :: rat)\<bar> < of_int 1" by simp
  then have "\<bar>round_even x - m\<bar> < 1"
    by (simp only: of_int_less_iff flip: of_int_abs)
  then show ?thesis by linarith
qed

lemma round_even_nonneg: "0 \<le> x \<Longrightarrow> 0 \<le> round_even x"
  by (auto simp: round_even_def Let_def)

text \<open>The number of bits of a positive integer, and the binary exponent of a positive rational.\<close>

function nbits :: "int \<Rightarrow> int" where
  "nbits n = (if n \<le> 0 then 0 else 1 + nbits (n div 2))"
  by pat_completeness auto
termination
  by (relation "measure nat") auto

declare nbits.simps [simp del]

lemma nbits_nonneg: "0 \<le> nbits n"
proof (induction n rule: nbits.induct)
  case (1 n)
  then show ?case by (subst nbits.simps) simp
qed

lemma nbits_bounds: "0 < n \<Longrightarrow> n < 2 ^ nat (nbits n) \<and> 2 ^ nat (nbits n) \<le> 2 * n"
proof (induction n rule: nbits.induct)
  case (1 n)
  have unfold: "nat (nbits n) = Suc (nat (nbits (n div 2)))"
    using "1.prems" nbits_nonneg [of "n div 2"] by (subst nbits.simps) simp
  show ?case
  proof (cases "n div 2 = 0")
    case True
    with "1.prems" have "n = 1" by linarith
    then show ?thesis by (simp add: nbits.simps)
  next
    case False
    with "1.prems" have "0 < n div 2" by linarith
    with "1" have "n div 2 < 2 ^ nat (nbits (n div 2)) \<and> 2 ^ nat (nbits (n div 2)) \<le> 2 * (n div 2)"
      by simp
    then show ?thesis unfolding unfold by (simp; linarith)
  qed
qed

text \<open>The two bounds as facts about rationals.\<close>

lemma nbits_rat:
  assumes "0 < n"
  shows "(of_int n :: rat) < 2 ^ nat (nbits n)" and "(2 :: rat) ^ nat (nbits n) \<le> 2 * of_int n"
proof -
  have "(of_int n :: rat) < of_int (2 ^ nat (nbits n))"
    using nbits_bounds [OF assms] by (simp only: of_int_less_iff)
  then show "(of_int n :: rat) < 2 ^ nat (nbits n)" by simp
  have "(of_int (2 ^ nat (nbits n)) :: rat) \<le> of_int (2 * n)"
    using nbits_bounds [OF assms] by (simp only: of_int_le_iff)
  then show "(2 :: rat) ^ nat (nbits n) \<le> 2 * of_int n" by simp
qed

definition ilog2 :: "rat \<Rightarrow> int" where
  "ilog2 x =
     (let pq = quotient_of x;
          e = nbits (fst pq) - nbits (snd pq)
      in if 2 powi e \<le> x then e else e - 1)"

lemma ilog2_bounds:
  assumes "0 < x"
  shows "2 powi (ilog2 x) \<le> x" and "x < 2 powi (ilog2 x + 1)"
proof -
  obtain p q where pq: "quotient_of x = (p, q)" by (cases "quotient_of x")
  then have x: "x = of_int p / of_int q" and q: "0 < q"
    by (simp_all add: quotient_of_div quotient_of_denom_pos)
  with assms have p: "0 < p" by (simp add: zero_less_divide_iff)
  define a where "a = nat (nbits p)"
  define b where "b = nat (nbits q)"
  note pr = nbits_rat [OF p, folded a_def]
  note qr = nbits_rat [OF q, folded b_def]
  have q': "(0 :: rat) < of_int q" using q by simp
  have ab: "nbits p = int a" "nbits q = int b"
    by (simp_all add: a_def b_def nbits_nonneg)
  let ?e = "int a - int b"
  have pw: "(2 :: rat) powi ?e = 2 ^ a / 2 ^ b"
    by (simp add: power_int_diff)
  have "(of_int p :: rat) * 2 ^ b \<le> of_int p * (2 * of_int q)"
    using p qr(2) by (intro mult_left_mono) auto
  also have "\<dots> < 2 ^ a * (2 * of_int q)"
    using pr(1) q' by (intro mult_strict_right_mono) auto
  finally have "(of_int p :: rat) * 2 ^ b < 2 ^ a * (2 * of_int q)" .
  then have "x < 2 ^ a / 2 ^ b * 2"
    using q' by (simp add: x field_simps)
  also have "\<dots> = 2 powi (?e + 1)"
    using power_int_add [of "2 :: rat" ?e 1] pw by simp
  finally have up: "x < 2 powi (?e + 1)" .
  have "(2 :: rat) ^ a * of_int q \<le> 2 * of_int p * 2 ^ b"
    using pr(2) qr(1) q' p by (intro mult_mono) auto
  then have "2 ^ a / 2 ^ b / 2 \<le> x"
    using q' by (simp add: x field_simps)
  then have low: "2 powi (?e - 1) \<le> x"
    using power_int_diff [of "2 :: rat" ?e 1] pw by simp
  have "ilog2 x = (if 2 powi ?e \<le> x then ?e else ?e - 1)"
    by (simp add: ilog2_def pq ab Let_def)
  then show "2 powi (ilog2 x) \<le> x" "x < 2 powi (ilog2 x + 1)"
    using up low by (simp_all add: not_le)
qed

definition fl :: "rat \<Rightarrow> float64" where
  "fl x =
     (if x = 0 then 0
      else let e = ilog2 \<bar>x\<bar> - 52 in of_int (round_even (x / 2 powi e)) * 2 powi e)"

definition f64_add :: "float64 \<Rightarrow> float64 \<Rightarrow> float64" where
  "f64_add a b = fl (a + b)"

definition f64_mul :: "float64 \<Rightarrow> float64 \<Rightarrow> float64" where
  "f64_mul a b = fl (a * b)"

definition f64_div :: "float64 \<Rightarrow> float64 \<Rightarrow> float64" where
  "f64_div a b = fl (a / b)"

definition f64_of_int :: "int \<Rightarrow> float64" where
  "f64_of_int i = fl (of_int i)"

lemma fl_0 [simp]: "fl 0 = 0"
  by (simp add: fl_def)

lemma fl_nonneg: "0 \<le> x \<Longrightarrow> 0 \<le> fl x"
  by (simp add: fl_def Let_def round_even_nonneg)

text \<open>The relative error of one rounding is at most half a unit in the last place.\<close>

lemma fl_error: "\<bar>fl x - x\<bar> \<le> \<bar>x\<bar> / 2 ^ 53"
proof (cases "x = 0")
  case False
  define e where "e = ilog2 \<bar>x\<bar> - 52"
  have pos: "(0 :: rat) < 2 powi e" by simp
  have "fl x - x = (of_int (round_even (x / 2 powi e)) - x / 2 powi e) * 2 powi e"
    using False pos by (simp add: fl_def e_def Let_def left_diff_distrib)
  then have "\<bar>fl x - x\<bar> = \<bar>of_int (round_even (x / 2 powi e)) - x / 2 powi e\<bar> * 2 powi e"
    using pos by (simp add: abs_mult)
  also have "\<dots> \<le> 1/2 * 2 powi e"
    using round_even_error pos by (intro mult_right_mono) auto
  also have "\<dots> = 2 powi (ilog2 \<bar>x\<bar>) / 2 ^ 53"
    by (simp add: e_def power_int_diff)
  also have "\<dots> \<le> \<bar>x\<bar> / 2 ^ 53"
    using ilog2_bounds(1) [of "\<bar>x\<bar>"] False by (intro divide_right_mono) auto
  finally show ?thesis .
qed simp

text \<open>Integers below \<open>2 ^ 53\<close> are represented exactly.\<close>

lemma fl_of_int_exact:
  assumes "\<bar>i\<bar> < 2 ^ 53"
  shows "fl (of_int i) = of_int i"
proof (cases "i = 0")
  case False
  define k where "k = ilog2 \<bar>of_int i\<bar>"
  have "(2 :: rat) powi k \<le> \<bar>of_int i\<bar>"
    using ilog2_bounds(1) [of "\<bar>of_int i\<bar>"] False by (simp add: k_def)
  also have "(\<bar>of_int i\<bar> :: rat) < 2 ^ 53"
    using assms by (metis of_int_abs of_int_less_iff of_int_numeral of_int_power)
  finally have "(2 :: rat) powi k < 2 powi 53" by simp
  then have "k < 53"
    using power_int_increasing [of 53 k "2 :: rat"] by (cases "k < 53") auto
  then have up: "(2 :: rat) powi (52 - k) = of_int (2 ^ nat (52 - k))"
    by (simp add: power_int_def)
  moreover have "of_int i / 2 powi (k - 52) = of_int i * (2 :: rat) powi (52 - k)"
    by (simp add: power_int_diff)
  ultimately have "of_int i / 2 powi (k - 52) = (of_int (i * 2 ^ nat (52 - k)) :: rat)"
    by simp
  then have "round_even (of_int i / 2 powi (k - 52)) = i * 2 ^ nat (52 - k)"
    by (metis round_even_of_int)
  moreover have "(2 :: rat) ^ nat (52 - k) * 2 powi (k - 52) = 1"
    using up power_int_add [of "2 :: rat" "52 - k" "k - 52"] by simp
  ultimately show ?thesis
    using False by (simp add: fl_def k_def Let_def mult.assoc)
qed simp

subsection \<open>Durations in seconds and milliseconds\<close>

text \<open>
  \<open>Duration.Seconds()\<close> splits the nanoseconds into whole seconds and a remainder (Go's
  truncating division) and adds the two parts in \<open>float64\<close>.
\<close>

definition seconds :: "duration \<Rightarrow> float64" where
  "seconds d =
     (let sec = sgn d * (\<bar>d\<bar> div 1000000000); nsec = d - sec * 1000000000
      in f64_add (f64_of_int sec) (f64_div (f64_of_int nsec) 1000000000))"

lemma seconds_nonneg: "0 \<le> d \<Longrightarrow> 0 \<le> seconds d"
  by (cases "d = 0")
    (simp_all add: seconds_def Let_def f64_add_def f64_div_def f64_of_int_def fl_nonneg
      minus_mod_eq_mult_div [symmetric])

lemma seconds_0 [simp]: "seconds 0 = 0"
  by (simp add: seconds_def f64_add_def f64_of_int_def f64_div_def)

text \<open>
  For every non-negative duration of the 64-bit range, the result is within two units in the
  last place of the true quotient.
\<close>

lemma seconds_error:
  assumes "0 \<le> d" "d < 2 ^ 63"
  shows "\<bar>seconds d - of_int d / 1000000000\<bar> \<le> of_int d / 1000000000 / 2 ^ 51"
proof -
  define s where "s = d div 1000000000"
  define n where "n = d mod 1000000000"
  have d: "d = s * 1000000000 + n" by (simp add: s_def n_def)
  have s: "0 \<le> s" "s < 2 ^ 53" and n: "0 \<le> n" "n < 1000000000"
    using assms by (simp_all add: s_def n_def)
  define q :: rat where "q = of_int n / 1000000000"
  define r where "r = fl q"
  have q0: "0 \<le> q" using n by (simp add: q_def)
  have T: "of_int d / 1000000000 = of_int s + q"
    by (simp add: d q_def add_divide_distrib)
  have sd: "sgn d * (\<bar>d\<bar> div 1000000000) = s"
    using assms(1) by (cases "d = 0") (simp_all add: s_def)
  have nd: "d - s * 1000000000 = n" by (simp add: d)
  have "fl (of_int s) = of_int s" "fl (of_int n) = of_int n"
    using s n by (simp_all add: fl_of_int_exact)
  then have sec: "seconds d = fl (of_int s + r)"
    unfolding seconds_def Let_def sd nd f64_add_def f64_div_def f64_of_int_def r_def q_def by simp
  have r: "\<bar>r - q\<bar> \<le> q / 2 ^ 53"
    using fl_error [of q] q0 by (simp add: r_def)
  also have "q / 2 ^ 53 \<le> q" using q0 by simp
  finally have "\<bar>r - q\<bar> \<le> q" .
  then have rb: "0 \<le> r" "r \<le> 2 * q"
    using fl_nonneg [OF q0] by (simp_all add: r_def)
  have "\<bar>fl (of_int s + r) - (of_int s + r)\<bar> \<le> (of_int s + r) / 2 ^ 53"
    using fl_error [of "of_int s + r"] rb s by simp
  also have "\<dots> \<le> 2 * (of_int s + q) / 2 ^ 53"
    using rb s by (intro divide_right_mono) auto
  finally have "\<bar>fl (of_int s + r) - (of_int s + q)\<bar> \<le> 2 * (of_int s + q) / 2 ^ 53 + q / 2 ^ 53"
    using r by linarith
  also have "\<dots> \<le> (of_int s + q) / 2 ^ 51"
    using q0 s by (simp add: field_simps)
  finally show ?thesis by (simp add: sec T)
qed

subsection \<open>The \<open>%.4f\<close> verb\<close>

text \<open>
  \<open>strconv\<close> rounds the exact value of the number to four decimals, ties to even, and prints the
  integer part, the point and exactly four digits.
\<close>

definition pad4 :: "nat \<Rightarrow> string" where
  "pad4 n = map digit_char [n div 1000 mod 10, n div 100 mod 10, n div 10 mod 10, n mod 10]"

definition fmt_f4 :: "float64 \<Rightarrow> string" where
  "fmt_f4 x =
     (let n = nat (round_even (\<bar>x\<bar> * 10000))
      in (if x < 0 then ''-'' else []) @ show_nat (n div 10000) @ ''.'' @ pad4 (n mod 10000))"

text \<open>
  The two roundings of a sample never show: unless a duration lies exactly halfway between two
  multiples of 0.1 ms, the four decimals printed for it are those of the exact quotient.
\<close>

definition decimal4 :: "int \<Rightarrow> string" where
  "decimal4 n = show_nat (nat n div 10000) @ ''.'' @ pad4 (nat n mod 10000)"

lemma fmt_seconds:
  assumes "0 \<le> d" "d < 2 ^ 51" "d mod 100000 \<noteq> 50000"
  shows "fmt_f4 (seconds d) = decimal4 ((d + 50000) div 100000)"
proof -
  define m where "m = (d + 50000) div 100000"
  define r where "r = (d + 50000) mod 100000"
  have dm: "d + 50000 = 100000 * m + r" by (simp add: m_def r_def)
  have "r \<noteq> 0"
  proof
    assume "r = 0"
    define c where "c = d div 100000"
    have "d = 100000 * c + d mod 100000" "0 \<le> d mod 100000" "d mod 100000 < 100000"
      by (simp_all add: c_def)
    moreover from this dm \<open>r = 0\<close> have "c < m" "m < c + 2" by linarith+
    then have "m = c + 1" by linarith
    ultimately show False using dm \<open>r = 0\<close> assms(3) by simp
  qed
  moreover have "0 \<le> r" "r < 100000" by (simp_all add: r_def)
  ultimately have "\<bar>d - 100000 * m\<bar> \<le> 49999" using dm by linarith
  then have "(of_int \<bar>d - 100000 * m\<bar> :: rat) \<le> of_int 49999"
    by (simp only: of_int_le_iff)
  then have near: "\<bar>(of_int d :: rat) / 100000 - of_int m\<bar> \<le> 49999 / 100000"
    by (simp add: abs_le_iff field_simps)
  have d51: "(of_int d :: rat) < 2 ^ 51" "(0 :: rat) \<le> of_int d"
    using assms(1,2) by (metis of_int_less_iff of_int_numeral of_int_power, simp)
  have pos: "0 \<le> seconds d" using assms(1) by (rule seconds_nonneg)
  have "\<bar>seconds d * 10000 - of_int d / 100000\<bar> = \<bar>(seconds d - of_int d / 1000000000) * 10000\<bar>"
    by (simp add: left_diff_distrib)
  also have "\<dots> = \<bar>seconds d - of_int d / 1000000000\<bar> * 10000"
    by (simp only: abs_mult abs_numeral)
  also have "\<dots> \<le> of_int d / 1000000000 / 2 ^ 51 * 10000"
    using seconds_error [of d] assms by (intro mult_right_mono) auto
  also have "\<dots> = of_int d / 100000 / 2 ^ 51" by simp
  also have "\<dots> < 1 / 100000"
    using d51 by (simp add: field_simps)
  finally have "\<bar>seconds d * 10000 - of_int m\<bar> < 1/2"
    using near by linarith
  then have "round_even (\<bar>seconds d\<bar> * 10000) = m"
    using pos by (intro round_even_unique) simp
  then show ?thesis
    using pos by (simp add: fmt_f4_def decimal4_def m_def Let_def)
qed

end
