(* ===== verification/Prober.thy ===== *)
theory Prober
  imports GoError GoFloat
begin

text \<open>
  The data every part of \<open>nodecheck\<close> shares (\<open>Target\<close>, \<open>Result\<close> of main.go; \<open>Phase\<close>,
  \<open>TLSInfo\<close>, \<open>Outcome\<close> of prober.go), the projection \<open>toResult\<close> of a probe's outcome onto
  the output struct, and the contract of the \<open>Prober\<close> interface as the locale \<open>prober\<close>.

  A Go pointer to a value is an \<open>option\<close>, \<open>None\<close> being \<open>nil\<close>. Storing through a \<open>nil\<close>
  pointer panics, which makes the whole function return \<open>None\<close>.
\<close>

subsection \<open>Targets, phases, outcomes, results\<close>

record target =
  t_Name :: string
  t_Addr :: string
  t_SNI :: string
  t_Region :: string
  t_Provider :: string
  t_Proto :: string
  t_Params :: "json option"

record phase =
  ph_Name :: string
  ph_OK :: bool
  ph_Duration :: duration
  ph_Err :: string

record tls_info =
  ServerName :: string
  tls_Version :: string
  tls_ALPN :: string
  tls_CertCN :: string
  tls_CertMatch :: bool

record outcome =
  o_Phases :: "phase list"
  o_TLS :: "tls_info option"
  o_NoLivenessClaim :: bool

record phaseJSON =
  pj_Name :: string
  pj_OK :: bool
  pj_Seconds :: float64
  pj_Error :: string

record result =
  r_Target :: target
  r_OK :: bool
  r_TCPOK :: "bool option"
  r_TLSOK :: "bool option"
  r_Timestamp :: instant
  r_TCPTime :: "float64 option"
  r_TLSTime :: "float64 option"
  r_TLSVer :: string
  r_ALPN :: string
  r_CertCN :: string
  r_CertMatch :: "bool option"
  r_Error :: string
  r_Phases :: "phaseJSON list"
  r_noLivenessClaim :: bool

definition phaseTCP :: string where "phaseTCP = ''tcp''"
definition phaseTLS :: string where "phaseTLS = ''tls''"
definition defaultProto :: string where "defaultProto = ''tls''"

lemmas phase_names = phaseTCP_def phaseTLS_def

definition empty_outcome :: outcome where
  "empty_outcome = \<lparr>o_Phases = [], o_TLS = None, o_NoLivenessClaim = False\<rparr>"

subsection \<open>The first failing phase\<close>

text \<open>\<open>failed\<close>: a loop over the phases that returns at the first one that is not OK.\<close>

fun first_failed :: "phase list \<Rightarrow> phase option" where
  "first_failed [] = None"
| "first_failed (p # ps) = (if \<not> ph_OK p then Some p else first_failed ps)"

definition failed :: "outcome \<Rightarrow> phase option" where
  "failed o' = first_failed (o_Phases o')"

lemma first_failed_None: "first_failed ps = None \<longleftrightarrow> (\<forall>p \<in> set ps. ph_OK p)"
  by (induction ps) auto

lemma first_failed_Some:
  "first_failed ps = Some p \<Longrightarrow>
     \<exists>as bs. ps = as @ p # bs \<and> \<not> ph_OK p \<and> (\<forall>q \<in> set as. ph_OK q)"
proof (induction ps)
  case (Cons a ps)
  show ?case
  proof (cases "ph_OK a")
    case True
    with Cons obtain as bs where "ps = as @ p # bs" "\<not> ph_OK p" "\<forall>q \<in> set as. ph_OK q"
      by auto
    with True show ?thesis by (intro exI [of _ "a # as"] exI [of _ bs]) simp
  next
    case False
    with Cons.prems show ?thesis by (intro exI [of _ "[]"] exI [of _ ps]) simp
  qed
qed simp

lemma first_failed_append:
  "first_failed (ps @ qs) = (case first_failed ps of None \<Rightarrow> first_failed qs | Some p \<Rightarrow> Some p)"
  by (induction ps) auto

subsection \<open>Projection onto the output struct\<close>

text \<open>The zero \<open>time.Time\<close>: the first instant of the year 1.\<close>

definition zero_time :: instant where
  "zero_time = - 62135596800 * 1000000000"

definition newResult :: "target \<Rightarrow> result" where
  "newResult t =
     \<lparr>r_Target = t\<lparr>t_Params := None\<rparr>, r_OK = False, r_TCPOK = None, r_TLSOK = None,
      r_Timestamp = zero_time, r_TCPTime = None, r_TLSTime = None, r_TLSVer = [], r_ALPN = [],
      r_CertCN = [], r_CertMatch = None, r_Error = [], r_Phases = [],
      r_noLivenessClaim = False\<rparr>"

fun uses_legacy :: "phase list \<Rightarrow> bool" where
  "uses_legacy [] = False"
| "uses_legacy (ph # phs) =
     (if ph_Name ph = phaseTCP \<or> ph_Name ph = phaseTLS then True else uses_legacy phs)"

definition usesLegacyPhases :: "outcome \<Rightarrow> bool" where
  "usesLegacyPhases o' = uses_legacy (o_Phases o')"

lemma uses_legacy_iff:
  "uses_legacy phs \<longleftrightarrow> (\<exists>ph \<in> set phs. ph_Name ph = phaseTCP \<or> ph_Name ph = phaseTLS)"
  by (induction phs) auto

definition to_phaseJSON :: "phase \<Rightarrow> phaseJSON" where
  "to_phaseJSON ph =
     \<lparr>pj_Name = ph_Name ph, pj_OK = ph_OK ph, pj_Seconds = seconds (ph_Duration ph),
      pj_Error = ph_Err ph\<rparr>"

text \<open>\<open>*p = v\<close>: stores through a pointer, \<open>None\<close> (a panic) when it is \<open>nil\<close>.\<close>

definition store_ptr :: "'a option \<Rightarrow> 'a \<Rightarrow> 'a option option" where
  "store_ptr p v = (case p of None \<Rightarrow> None | Some _ \<Rightarrow> Some (Some v))"

definition legacy_phase :: "phase \<Rightarrow> result \<Rightarrow> result option" where
  "legacy_phase ph res =
     (if ph_Name ph = phaseTCP then
        (case store_ptr (r_TCPOK res) (ph_OK ph) of
           None \<Rightarrow> None
         | Some ok \<Rightarrow>
             (case store_ptr (r_TCPTime res) (seconds (ph_Duration ph)) of
                None \<Rightarrow> None
              | Some tm \<Rightarrow> Some (res\<lparr>r_TCPOK := ok, r_TCPTime := tm\<rparr>)))
      else if ph_Name ph = phaseTLS then
        (case store_ptr (r_TLSOK res) (ph_OK ph) of
           None \<Rightarrow> None
         | Some ok \<Rightarrow>
             (case store_ptr (r_TLSTime res) (seconds (ph_Duration ph)) of
                None \<Rightarrow> None
              | Some tm \<Rightarrow> Some (res\<lparr>r_TLSOK := ok, r_TLSTime := tm\<rparr>)))
      else Some res)"

fun legacy_phases :: "phase list \<Rightarrow> result \<Rightarrow> result option" where
  "legacy_phases [] res = Some res"
| "legacy_phases (ph # phs) res =
     (case legacy_phase ph res of None \<Rightarrow> None | Some res' \<Rightarrow> legacy_phases phs res')"

definition apply_tls_info :: "tls_info option \<Rightarrow> result \<Rightarrow> result" where
  "apply_tls_info ti res =
     (case ti of
        None \<Rightarrow> res
      | Some i \<Rightarrow>
          let res1 = (if ServerName i \<noteq> []
                      then res\<lparr>r_Target := (r_Target res)\<lparr>t_SNI := ServerName i\<rparr>\<rparr> else res);
              res2 = res1\<lparr>r_TLSVer := tls_Version i, r_ALPN := tls_ALPN i, r_CertCN := tls_CertCN i\<rparr>
          in (case r_CertMatch res2 of
                None \<Rightarrow> res2
              | Some _ \<Rightarrow> res2\<lparr>r_CertMatch := Some (tls_CertMatch i)\<rparr>))"

definition set_verdict :: "outcome \<Rightarrow> result \<Rightarrow> result" where
  "set_verdict o' res =
     (case failed o' of
        Some bad \<Rightarrow> res\<lparr>r_Error := ph_Name bad @ '': '' @ ph_Err bad\<rparr>
      | None \<Rightarrow> res\<lparr>r_OK := (length (o_Phases o') > 0)\<rparr>)"

definition toResult :: "target \<Rightarrow> outcome \<Rightarrow> result option" where
  "toResult t o' =
     (let res = (newResult t)\<lparr>r_noLivenessClaim := o_NoLivenessClaim o'\<rparr>;
          res1 = (if usesLegacyPhases o'
                  then res\<lparr>r_TCPOK := Some False, r_TLSOK := Some False,
                           r_CertMatch := Some False, r_TCPTime := Some 0, r_TLSTime := Some 0\<rparr>
                  else res\<lparr>r_Phases := map to_phaseJSON (o_Phases o')\<rparr>)
      in (case legacy_phases (o_Phases o') res1 of
            None \<Rightarrow> None
          | Some res2 \<Rightarrow> Some (set_verdict o' (apply_tls_info (o_TLS o') res2))))"

subsection \<open>What the projection computes\<close>

text \<open>The last phase of a name, whose verdict and duration the legacy fields end up with.\<close>

fun last_phase :: "string \<Rightarrow> phase list \<Rightarrow> phase option" where
  "last_phase n [] = None"
| "last_phase n (p # ps) =
     (case last_phase n ps of
        Some q \<Rightarrow> Some q
      | None \<Rightarrow> if ph_Name p = n then Some p else None)"

definition phase_value :: "'a \<Rightarrow> (phase \<Rightarrow> 'a) \<Rightarrow> phase option \<Rightarrow> 'a" where
  "phase_value d f p = (case p of None \<Rightarrow> d | Some q \<Rightarrow> f q)"

lemma phase_value_simps [simp]:
  "phase_value d f None = d" "phase_value d f (Some q) = f q"
  by (simp_all add: phase_value_def)

lemma legacy_phases_none:
  "\<not> uses_legacy phs \<Longrightarrow> legacy_phases phs res = Some res"
  by (induction phs) (auto simp: legacy_phase_def split: if_splits)

lemma legacy_phases_ready:
  assumes "r_TCPOK res = Some tcp" "r_TLSOK res = Some tls"
    "r_TCPTime res = Some tt" "r_TLSTime res = Some st"
  shows "legacy_phases phs res =
    Some (res\<lparr>r_TCPOK := Some (phase_value tcp ph_OK (last_phase phaseTCP phs)),
              r_TLSOK := Some (phase_value tls ph_OK (last_phase phaseTLS phs)),
              r_TCPTime := Some (phase_value tt (seconds \<circ> ph_Duration) (last_phase phaseTCP phs)),
              r_TLSTime := Some (phase_value st (seconds \<circ> ph_Duration) (last_phase phaseTLS phs))\<rparr>)"
  using assms
proof (induction phs arbitrary: res tcp tls tt st)
  case Nil
  then show ?case by simp
next
  case (Cons ph phs)
  consider "ph_Name ph = phaseTCP" | "ph_Name ph = phaseTLS" "ph_Name ph \<noteq> phaseTCP"
    | "ph_Name ph \<noteq> phaseTCP" "ph_Name ph \<noteq> phaseTLS" by blast
  then show ?case
  proof cases
    case 1
    then have "phaseTLS \<noteq> ph_Name ph" by (simp add: phase_names)
    with 1 Cons.prems show ?thesis
      by (simp add: legacy_phase_def store_ptr_def Cons.IH split: option.split)
  next
    case 2
    with Cons.prems show ?thesis
      by (simp add: legacy_phase_def store_ptr_def Cons.IH split: option.split)
  next
    case 3
    with Cons.prems show ?thesis
      by (simp add: legacy_phase_def Cons.IH split: option.split)
  qed
qed

text \<open>The projected result, in closed form.\<close>

definition legacy_shape :: "outcome \<Rightarrow> result \<Rightarrow> result" where
  "legacy_shape o' res =
     (let tcp = last_phase phaseTCP (o_Phases o'); tls = last_phase phaseTLS (o_Phases o')
      in res\<lparr>r_CertMatch := Some False,
             r_TCPOK := Some (phase_value False ph_OK tcp),
             r_TLSOK := Some (phase_value False ph_OK tls),
             r_TCPTime := Some (phase_value 0 (seconds \<circ> ph_Duration) tcp),
             r_TLSTime := Some (phase_value 0 (seconds \<circ> ph_Duration) tls)\<rparr>)"

definition shaped :: "target \<Rightarrow> outcome \<Rightarrow> result" where
  "shaped t o' =
     (let res = (newResult t)\<lparr>r_noLivenessClaim := o_NoLivenessClaim o'\<rparr>
      in if usesLegacyPhases o' then legacy_shape o' res
         else res\<lparr>r_Phases := map to_phaseJSON (o_Phases o')\<rparr>)"

lemma toResult_eq:
  "toResult t o' = Some (set_verdict o' (apply_tls_info (o_TLS o') (shaped t o')))"
proof (cases "usesLegacyPhases o'")
  case True
  then show ?thesis
    by (simp add: toResult_def shaped_def legacy_shape_def Let_def
        legacy_phases_ready [where tcp = False and tls = False and tt = 0 and st = 0])
next
  case False
  then show ?thesis
    by (simp add: toResult_def shaped_def Let_def legacy_phases_none usesLegacyPhases_def)
qed

text \<open>Each step of the projection, field by field.\<close>

named_theorems result_simps \<open>fields of a projected result\<close>

lemma set_verdict_fields [result_simps]:
  "r_Target (set_verdict o' r) = r_Target r"
  "r_TCPOK (set_verdict o' r) = r_TCPOK r"
  "r_TLSOK (set_verdict o' r) = r_TLSOK r"
  "r_TCPTime (set_verdict o' r) = r_TCPTime r"
  "r_TLSTime (set_verdict o' r) = r_TLSTime r"
  "r_TLSVer (set_verdict o' r) = r_TLSVer r"
  "r_ALPN (set_verdict o' r) = r_ALPN r"
  "r_CertCN (set_verdict o' r) = r_CertCN r"
  "r_CertMatch (set_verdict o' r) = r_CertMatch r"
  "r_Phases (set_verdict o' r) = r_Phases r"
  "r_noLivenessClaim (set_verdict o' r) = r_noLivenessClaim r"
  "r_OK (set_verdict o' r) = (if failed o' = None then o_Phases o' \<noteq> [] else r_OK r)"
  "r_Error (set_verdict o' r) =
     (case failed o' of None \<Rightarrow> r_Error r | Some bad \<Rightarrow> ph_Name bad @ '': '' @ ph_Err bad)"
  by (simp_all add: set_verdict_def split: option.split)

lemma apply_tls_info_fields [result_simps]:
  "r_OK (apply_tls_info ti r) = r_OK r"
  "r_Error (apply_tls_info ti r) = r_Error r"
  "r_TCPOK (apply_tls_info ti r) = r_TCPOK r"
  "r_TLSOK (apply_tls_info ti r) = r_TLSOK r"
  "r_TCPTime (apply_tls_info ti r) = r_TCPTime r"
  "r_TLSTime (apply_tls_info ti r) = r_TLSTime r"
  "r_Phases (apply_tls_info ti r) = r_Phases r"
  "r_noLivenessClaim (apply_tls_info ti r) = r_noLivenessClaim r"
  "r_CertMatch (apply_tls_info ti r) =
     (case (ti, r_CertMatch r) of (Some i, Some _) \<Rightarrow> Some (tls_CertMatch i) | _ \<Rightarrow> r_CertMatch r)"
  "r_Target (apply_tls_info ti r) =
     (case ti of
        None \<Rightarrow> r_Target r
      | Some i \<Rightarrow>
          if ServerName i = [] then r_Target r
          else (r_Target r)\<lparr>t_SNI := ServerName i\<rparr>)"
  by (auto simp: apply_tls_info_def Let_def split: option.split)

lemma shaped_fields [result_simps]:
  "r_OK (shaped t o') = False"
  "r_Error (shaped t o') = []"
  "r_Target (shaped t o') = t\<lparr>t_Params := None\<rparr>"
  "r_noLivenessClaim (shaped t o') = o_NoLivenessClaim o'"
  "r_TLSVer (shaped t o') = []"
  "r_ALPN (shaped t o') = []"
  "r_CertCN (shaped t o') = []"
  "r_Timestamp (shaped t o') = zero_time"
  by (simp_all add: shaped_def legacy_shape_def newResult_def Let_def)

lemma shaped_legacy [result_simps]:
  "usesLegacyPhases o' \<Longrightarrow> r_Phases (shaped t o') = []"
  "usesLegacyPhases o' \<Longrightarrow> r_CertMatch (shaped t o') = Some False"
  "usesLegacyPhases o' \<Longrightarrow> r_TCPOK (shaped t o') =
     Some (phase_value False ph_OK (last_phase phaseTCP (o_Phases o')))"
  "usesLegacyPhases o' \<Longrightarrow> r_TLSOK (shaped t o') =
     Some (phase_value False ph_OK (last_phase phaseTLS (o_Phases o')))"
  "usesLegacyPhases o' \<Longrightarrow> r_TCPTime (shaped t o') =
     Some (phase_value 0 (seconds \<circ> ph_Duration) (last_phase phaseTCP (o_Phases o')))"
  "usesLegacyPhases o' \<Longrightarrow> r_TLSTime (shaped t o') =
     Some (phase_value 0 (seconds \<circ> ph_Duration) (last_phase phaseTLS (o_Phases o')))"
  by (simp_all add: shaped_def legacy_shape_def newResult_def Let_def)

lemma shaped_generic [result_simps]:
  "\<not> usesLegacyPhases o' \<Longrightarrow> r_Phases (shaped t o') = map to_phaseJSON (o_Phases o')"
  "\<not> usesLegacyPhases o' \<Longrightarrow> r_CertMatch (shaped t o') = None"
  "\<not> usesLegacyPhases o' \<Longrightarrow> r_TCPOK (shaped t o') = None"
  "\<not> usesLegacyPhases o' \<Longrightarrow> r_TLSOK (shaped t o') = None"
  "\<not> usesLegacyPhases o' \<Longrightarrow> r_TCPTime (shaped t o') = None"
  "\<not> usesLegacyPhases o' \<Longrightarrow> r_TLSTime (shaped t o') = None"
  by (simp_all add: shaped_def newResult_def Let_def)

end
