(* ===== verification/World.thy ===== *)
theory World
  imports Prober
begin

text \<open>
  Everything a probe asks of its surroundings: the clock, the sockets, the context, the
  environment variables, the random source and the cryptographic library.

  A run of the program is a sequence of calls to these. The \<open>trace\<close> is that sequence, newest
  call first, and it is the state the probing code threads. What a call answers is decided by
  the \<open>world\<close>, which may let the answer depend on the whole history; no other assumption is
  made, so a theorem about all worlds covers every behaviour of kernel and network. A world
  is a record of functions, and a concrete one makes every definition evaluate.
\<close>

subsection \<open>Calls and answers\<close>

datatype call =
    Now
  | Dial string string duration
  | SetWriteDeadline instant
  | Write bytes
  | SetReadDeadline instant
  | Read
  | CtxErr
  | CloseConn
  | TlsDial string string duration
  | Rand nat

type_synonym trace = "call list"

datatype read_answer = Datagram bytes | ReadFailed string bool

record cert =
  cert_CommonName :: string
  cert_VerifyHostname :: "string \<Rightarrow> string option"

record conn_state =
  cs_Version :: "16 word"
  cs_NegotiatedProtocol :: string
  cs_PeerCertificates :: "cert list"

datatype tls_answer = TlsFailed string | NotTlsConn | TlsConn conn_state

text \<open>
  The primitives of \<open>golang.org/x/crypto\<close> and \<open>crypto/ecdh\<close>: unkeyed BLAKE2s-256, BLAKE2s-128
  under a key, sealing and opening with ChaCha20-Poly1305 (key, nonce, text, additional data),
  and X25519, where \<open>cr_pub\<close> is the public key of a private key and \<open>cr_ecdh\<close> the shared
  secret, an error for a low-order point.
\<close>

record crypto =
  cr_blake2s :: "bytes \<Rightarrow> bytes"
  cr_blake2s128 :: "bytes \<Rightarrow> bytes \<Rightarrow> bytes"
  cr_seal :: "bytes \<Rightarrow> bytes \<Rightarrow> bytes \<Rightarrow> bytes \<Rightarrow> bytes"
  cr_open :: "bytes \<Rightarrow> bytes \<Rightarrow> bytes \<Rightarrow> bytes \<Rightarrow> bytes option"
  cr_pub :: "bytes \<Rightarrow> bytes"
  cr_ecdh :: "bytes \<Rightarrow> bytes \<Rightarrow> lib_err + bytes"

record world =
  w_now :: "trace \<Rightarrow> instant"
  w_dial :: "trace \<Rightarrow> string option"
  w_set_wd :: "trace \<Rightarrow> string option"
  w_write :: "trace \<Rightarrow> string option"
  w_set_rd :: "trace \<Rightarrow> string option"
  w_read :: "trace \<Rightarrow> read_answer"
  w_ctx_err :: "trace \<Rightarrow> bool"
  w_ctx_deadline :: "instant option"
  w_tls_dial :: "trace \<Rightarrow> tls_answer"
  w_rand :: "trace \<Rightarrow> lib_err + bytes"
  w_getenv :: "string \<Rightarrow> string"
  w_lib :: lib
  w_crypto :: crypto

text \<open>One definition per call: it is recorded, then answered.\<close>

definition sys_now :: "world \<Rightarrow> trace \<Rightarrow> instant \<times> trace" where
  "sys_now W h = (w_now W (Now # h), Now # h)"

definition sys_dial ::
  "world \<Rightarrow> string \<Rightarrow> string \<Rightarrow> duration \<Rightarrow> trace \<Rightarrow> string option \<times> trace" where
  "sys_dial W net addr d h = (let h' = Dial net addr d # h in (w_dial W h', h'))"

definition sys_set_wd :: "world \<Rightarrow> instant \<Rightarrow> trace \<Rightarrow> string option \<times> trace" where
  "sys_set_wd W i h = (let h' = SetWriteDeadline i # h in (w_set_wd W h', h'))"

definition sys_write :: "world \<Rightarrow> bytes \<Rightarrow> trace \<Rightarrow> string option \<times> trace" where
  "sys_write W p h = (let h' = Write p # h in (w_write W h', h'))"

definition sys_set_rd :: "world \<Rightarrow> instant \<Rightarrow> trace \<Rightarrow> string option \<times> trace" where
  "sys_set_rd W i h = (let h' = SetReadDeadline i # h in (w_set_rd W h', h'))"

text \<open>A datagram longer than the buffer is cut to the buffer's length.\<close>

definition sys_read :: "world \<Rightarrow> nat \<Rightarrow> trace \<Rightarrow> read_answer \<times> trace" where
  "sys_read W n h =
     (case w_read W (Read # h) of
        Datagram d \<Rightarrow> (Datagram (take n d), Read # h)
      | ReadFailed e tmo \<Rightarrow> (ReadFailed e tmo, Read # h))"

definition sys_ctx_err :: "world \<Rightarrow> trace \<Rightarrow> bool \<times> trace" where
  "sys_ctx_err W h = (w_ctx_err W (CtxErr # h), CtxErr # h)"

definition sys_close :: "trace \<Rightarrow> trace" where
  "sys_close h = CloseConn # h"

definition sys_tls_dial ::
  "world \<Rightarrow> string \<Rightarrow> string \<Rightarrow> duration \<Rightarrow> trace \<Rightarrow> tls_answer \<times> trace" where
  "sys_tls_dial W addr sni d h = (let h' = TlsDial addr sni d # h in (w_tls_dial W h', h'))"

text \<open>The random source fills a buffer of \<open>n\<close> bytes.\<close>

definition sys_rand :: "world \<Rightarrow> nat \<Rightarrow> trace \<Rightarrow> (lib_err + bytes) \<times> trace" where
  "sys_rand W n h =
     (case w_rand W (Rand n # h) of
        Inl e \<Rightarrow> (Inl e, Rand n # h)
      | Inr bs \<Rightarrow> (Inr (take n (bs @ replicate n 0)), Rand n # h))"

lemma sys_rand_length: "sys_rand W n h = (Inr bs, h1) \<Longrightarrow> length bs = n"
  by (auto simp: sys_rand_def split: sum.splits)

lemma sys_rand_trace: "sys_rand W n h = (r, h1) \<Longrightarrow> h1 = Rand n # h"
  by (auto simp: sys_rand_def split: sum.splits)

lemmas sys_defs = sys_now_def sys_dial_def sys_set_wd_def sys_write_def sys_set_rd_def
  sys_ctx_err_def sys_close_def sys_tls_dial_def Let_def

definition err_text :: "world \<Rightarrow> go_error \<Rightarrow> string" where
  "err_text W e = error_text (w_lib W) e"

subsection \<open>Reading a trace\<close>

fun writes :: "trace \<Rightarrow> bytes list" where
  "writes [] = []"
| "writes (Write p # h) = p # writes h"
| "writes (_ # h) = writes h"

fun read_deadlines :: "trace \<Rightarrow> instant list" where
  "read_deadlines [] = []"
| "read_deadlines (SetReadDeadline i # h) = i # read_deadlines h"
| "read_deadlines (_ # h) = read_deadlines h"

fun reads :: "trace \<Rightarrow> nat" where
  "reads [] = 0"
| "reads (Read # h) = Suc (reads h)"
| "reads (_ # h) = reads h"

subsection \<open>The contract of the \<open>Prober\<close> interface\<close>

text \<open>
  Every prober stops at its first failing phase: a probe reports at least one phase, and only
  the last one can have failed. Validating a target rules out the empty address, and a target
  that passed validation can be probed without a panic. Calls already made stay made.
\<close>

definition stops_at_failure :: "outcome \<Rightarrow> bool" where
  "stops_at_failure o' \<longleftrightarrow>
     o_Phases o' \<noteq> [] \<and> length (o_Phases o') \<le> 2 \<and> (\<forall>ph \<in> set (butlast (o_Phases o')). ph_OK ph)"

locale prober =
  fixes validate :: "world \<Rightarrow> target \<Rightarrow> trace \<Rightarrow> go_error option \<times> trace"
    and run_probe :: "world \<Rightarrow> target \<Rightarrow> duration \<Rightarrow> trace \<Rightarrow> (outcome \<times> trace) option"
  assumes validate_addr: "validate W t h = (None, h1) \<Longrightarrow> t_Addr t \<noteq> []"
    and validate_extends: "validate W t h = (e, h1) \<Longrightarrow> \<exists>c. h1 = c @ h"
    and run_validated:
      "validate W t h = (None, h1) \<Longrightarrow> \<exists>o' h'. run_probe W t d h2 = Some (o', h')"
    and run_stops: "run_probe W t d h = Some (o', h') \<Longrightarrow> stops_at_failure o'"
    and run_extends: "run_probe W t d h = Some (o', h') \<Longrightarrow> \<exists>c. h' = c @ h"
begin

lemma run_nonempty: "run_probe W t d h = Some (o', h') \<Longrightarrow> o_Phases o' \<noteq> []"
  by (drule run_stops) (simp add: stops_at_failure_def)

text \<open>The last phase decides the verdict, and a failure is named after it.\<close>

lemma failed_last:
  assumes "run_probe W t d h = Some (o', h')"
  shows "failed o' = (if ph_OK (last (o_Phases o')) then None else Some (last (o_Phases o')))"
proof -
  have ne: "o_Phases o' \<noteq> []" and pre: "\<forall>ph \<in> set (butlast (o_Phases o')). ph_OK ph"
    using run_stops [OF assms] by (simp_all add: stops_at_failure_def)
  have "failed o' = first_failed (butlast (o_Phases o') @ [last (o_Phases o')])"
    using ne by (simp add: failed_def)
  also have "\<dots> = first_failed [last (o_Phases o')]"
    using pre by (simp add: first_failed_append first_failed_None [THEN iffD2])
  finally show ?thesis by simp
qed

lemma result_verdict:
  assumes "run_probe W t d h = Some (o', h')" and "toResult t o' = Some r"
  shows "r_OK r = ph_OK (last (o_Phases o'))"
    and "r_Error r = (if r_OK r then []
           else ph_Name (last (o_Phases o')) @ '': '' @ ph_Err (last (o_Phases o')))"
  using failed_last [OF assms(1)] run_nonempty [OF assms(1)] assms(2)
  by (auto simp: toResult_eq result_simps split: if_splits)

end

end
