(* ===== verification/ProberTls.thy ===== *)
theory ProberTls
  imports World
begin

text \<open>
  The TLS prober (prober_tls.go): TCP connect, then a TLS handshake with the expected SNI;
  with it \<open>tlsVersionName\<close> of main.go and \<open>net.SplitHostPort\<close>, from which the SNI is derived
  when none is configured.
\<close>

subsection \<open>Splitting an address\<close>

fun index_of :: "char \<Rightarrow> string \<Rightarrow> nat option" where
  "index_of c [] = None"
| "index_of c (x # xs) = (if x = c then Some 0 else map_option Suc (index_of c xs))"

fun last_index_of :: "char \<Rightarrow> string \<Rightarrow> nat option" where
  "last_index_of c [] = None"
| "last_index_of c (x # xs) =
     (case last_index_of c xs of
        Some i \<Rightarrow> Some (Suc i)
      | None \<Rightarrow> if x = c then Some 0 else None)"

text \<open>
  \<open>net.SplitHostPort\<close>: the port starts after the last colon; a host in brackets may contain
  colons, any other host may not. \<open>None\<close> stands for its error.
\<close>

definition split_host_port :: "string \<Rightarrow> (string \<times> string) option" where
  "split_host_port s =
     (case last_index_of CHR '':'' s of
        None \<Rightarrow> None
      | Some i \<Rightarrow>
          if hd s = CHR ''['' then
            (case index_of CHR '']'' s of
               None \<Rightarrow> None
             | Some e \<Rightarrow>
                 if e + 1 \<noteq> i then None
                 else if CHR ''['' \<in> set (drop 1 s) then None
                 else if CHR '']'' \<in> set (drop (e + 1) s) then None
                 else Some (take (e - 1) (drop 1 s), drop (i + 1) s))
          else if CHR '':'' \<in> set (take i s) then None
          else if CHR ''['' \<in> set s then None
          else if CHR '']'' \<in> set s then None
          else Some (take i s, drop (i + 1) s))"

lemma last_index_of_append:
  "last_index_of c (xs @ ys) =
     (case last_index_of c ys of
        Some i \<Rightarrow> Some (length xs + i)
      | None \<Rightarrow> last_index_of c xs)"
  by (induction xs) (auto split: option.split)

lemma last_index_of_None: "last_index_of c xs = None \<longleftrightarrow> c \<notin> set xs"
  by (induction xs) (auto split: option.splits)

lemma split_host_port_plain:
  assumes "set host \<inter> set '':[]'' = {}" and "set port \<inter> set '':[]'' = {}"
  shows "split_host_port (host @ '':'' @ port) = Some (host, port)"
proof -
  have "last_index_of CHR '':'' port = None"
    using assms(2) by (simp add: last_index_of_None)
  then have "last_index_of CHR '':'' (host @ '':'' @ port) = Some (length host)"
    by (simp add: last_index_of_append)
  moreover have "hd (host @ '':'' @ port) \<noteq> CHR ''[''"
    using assms(1) by (cases host) auto
  ultimately show ?thesis
    using assms by (auto simp: split_host_port_def)
qed

subsection \<open>Names of TLS versions\<close>

definition hex16 :: "16 word \<Rightarrow> string" where
  "hex16 v = (let n = unat v in
     map hex_digit [n div 4096 mod 16, n div 256 mod 16, n div 16 mod 16, n mod 16])"

definition tlsVersionName :: "16 word \<Rightarrow> string" where
  "tlsVersionName v =
     (if v = 0x0304 then ''1.3'' else if v = 0x0303 then ''1.2'' else ''0x'' @ hex16 v)"

subsection \<open>The prober\<close>

definition tls_kind :: string where "tls_kind = ''tls''"

definition tls_validate :: "world \<Rightarrow> target \<Rightarrow> trace \<Rightarrow> go_error option \<times> trace" where
  "tls_validate W t h = (if t_Addr t = [] then Some AddrRequired else None, h)"

definition effective_sni :: "target \<Rightarrow> string" where
  "effective_sni t =
     (if t_SNI t = [] then
        (case split_host_port (t_Addr t) of Some (host, port) \<Rightarrow> host | None \<Rightarrow> t_SNI t)
      else t_SNI t)"

definition conn_info :: "string \<Rightarrow> conn_state \<Rightarrow> tls_info \<Rightarrow> tls_info" where
  "conn_info sni st info =
     (let info1 = info\<lparr>tls_Version := tlsVersionName (cs_Version st),
                       tls_ALPN := cs_NegotiatedProtocol st\<rparr>
      in (case cs_PeerCertificates st of
            [] \<Rightarrow> info1
          | leaf # _ \<Rightarrow>
              info1\<lparr>tls_CertCN := cert_CommonName leaf,
                    tls_CertMatch := (cert_VerifyHostname leaf sni = None)\<rparr>))"

definition tls_handshake ::
  "world \<Rightarrow> target \<Rightarrow> duration \<Rightarrow> tls_info \<Rightarrow> phase \<Rightarrow> trace \<Rightarrow> outcome \<times> trace" where
  "tls_handshake W t timeout info tcpPhase h =
     (let sni = ServerName info;
          (start, h1) = sys_now W h;
          (answer, h2) = sys_tls_dial W (t_Addr t) sni timeout h1;
          (now, h3) = sys_now W h2;
          tlsPhase = \<lparr>ph_Name = phaseTLS, ph_OK = False, ph_Duration = now - start, ph_Err = []\<rparr>;
          out = (\<lambda>i ph. \<lparr>o_Phases = [tcpPhase, ph], o_TLS = Some i, o_NoLivenessClaim = False\<rparr>)
      in (case answer of
            TlsFailed e \<Rightarrow> (out info (tlsPhase\<lparr>ph_Err := e\<rparr>), h3)
          | NotTlsConn \<Rightarrow>
              (out info (tlsPhase\<lparr>ph_Err := ''unexpected connection type''\<rparr>), sys_close h3)
          | TlsConn st \<Rightarrow>
              (out (conn_info sni st info) (tlsPhase\<lparr>ph_OK := True\<rparr>), sys_close h3)))"

definition tls_probe ::
  "world \<Rightarrow> target \<Rightarrow> duration \<Rightarrow> trace \<Rightarrow> (outcome \<times> trace) option" where
  "tls_probe W t timeout h =
     (let info = \<lparr>ServerName = effective_sni t, tls_Version = [], tls_ALPN = [],
                  tls_CertCN = [], tls_CertMatch = False\<rparr>;
          (start, h1) = sys_now W h;
          (err, h2) = sys_dial W ''tcp'' (t_Addr t) timeout h1;
          (now, h3) = sys_now W h2;
          tcpPhase = \<lparr>ph_Name = phaseTCP, ph_OK = False, ph_Duration = now - start, ph_Err = []\<rparr>
      in (case err of
            Some e \<Rightarrow>
              Some (\<lparr>o_Phases = [tcpPhase\<lparr>ph_Err := e\<rparr>], o_TLS = Some info,
                     o_NoLivenessClaim = False\<rparr>, h3)
          | None \<Rightarrow>
              Some (tls_handshake W t timeout info (tcpPhase\<lparr>ph_OK := True\<rparr>) (sys_close h3))))"

lemmas tls_defs = tls_probe_def tls_handshake_def sys_defs

text \<open>
  The three ends a TLS probe can have. Each keeps the SNI that was resolved before the first
  phase.
\<close>

lemma tls_probe_cases:
  assumes "tls_probe W t timeout h = Some (o', h')"
  obtains (tcp_failed) ph i where "o_Phases o' = [ph]" "\<not> ph_OK ph" "ph_Name ph = phaseTCP"
      "o_TLS o' = Some i" "ServerName i = effective_sni t" "\<not> tls_CertMatch i"
    | (tls_failed) p ph i where "o_Phases o' = [p, ph]" "ph_OK p" "\<not> ph_OK ph"
      "ph_Name p = phaseTCP" "ph_Name ph = phaseTLS"
      "o_TLS o' = Some i" "ServerName i = effective_sni t" "\<not> tls_CertMatch i"
    | (passed) p ph i where "o_Phases o' = [p, ph]" "ph_OK p" "ph_OK ph"
      "ph_Name p = phaseTCP" "ph_Name ph = phaseTLS" "ph_Err ph = []"
      "o_TLS o' = Some i" "ServerName i = effective_sni t"
  using assms
  by (auto simp: tls_defs conn_info_def split: option.splits tls_answer.splits list.splits)

lemma tls_probe_liveness: "tls_probe W t timeout h = Some (o', h') \<Longrightarrow> \<not> o_NoLivenessClaim o'"
  by (auto simp: tls_defs split: option.splits tls_answer.splits)

lemma tls_probe_total: "\<exists>o' h'. tls_probe W t timeout h = Some (o', h')"
  by (simp add: tls_defs split: option.split tls_answer.split)

lemma tls_probe_trace:
  "tls_probe W t timeout h = Some (o', h') \<Longrightarrow> \<exists>c. h' = c @ h"
  by (auto simp: tls_defs split: option.splits tls_answer.splits)

text \<open>Every probe begins with a dial to the target's address.\<close>

lemma tls_probe_dials:
  "tls_probe W t timeout h = Some (o', h') \<Longrightarrow> \<exists>c. h' = c @ h \<and> Dial ''tcp'' (t_Addr t) timeout \<in> set c"
  by (auto simp: tls_defs split: option.splits tls_answer.splits)

interpretation tls: prober tls_validate tls_probe
proof
  fix W t h h1 assume "tls_validate W t h = (None, h1)"
  then show "t_Addr t \<noteq> []" by (simp add: tls_validate_def split: if_splits)
next
  fix W t h e h1 assume "tls_validate W t h = (e, h1)"
  then show "\<exists>c. h1 = c @ h" by (simp add: tls_validate_def)
next
  fix W t d h show "\<exists>o' h'. tls_probe W t d h = Some (o', h')" by (rule tls_probe_total)
next
  fix W t d h o' h' assume "tls_probe W t d h = Some (o', h')"
  then show "stops_at_failure o'"
    by (cases rule: tls_probe_cases) (auto simp: stops_at_failure_def)
next
  fix W t d h o' h' assume "tls_probe W t d h = Some (o', h')"
  then show "\<exists>c. h' = c @ h" by (rule tls_probe_trace)
qed

text \<open>An address of a plain host and a port is split at its colon, so a target without an SNI is
  probed with its host as the server name.\<close>

lemma effective_sni_host:
  assumes "set host \<inter> set '':[]'' = {}" "set port \<inter> set '':[]'' = {}"
  shows "effective_sni (t\<lparr>t_SNI := [], t_Addr := host @ '':'' @ port\<rparr>) = host"
  using split_host_port_plain [OF assms] by (simp add: effective_sni_def)

end
