(* ===== verification/Codec.thy ===== *)
theory Codec
  imports GoError
begin

text \<open>
  The byte-level codecs the probers use: \<open>hex.DecodeString\<close>, \<open>base64.StdEncoding\<close> and the
  fixed-width integers of \<open>encoding/binary\<close>, with their round trips.
\<close>

subsection \<open>Hexadecimal\<close>

definition hex_val :: "char \<Rightarrow> nat option" where
  "hex_val c =
     (let n = of_char c in
      if 48 \<le> n \<and> n < 58 then Some (n - 48)
      else if 97 \<le> n \<and> n < 103 then Some (n - 87)
      else if 65 \<le> n \<and> n < 71 then Some (n - 55)
      else None)"

text \<open>
  Pairs are decoded from the left. An odd length is reported last, and only when the final
  character is a digit.
\<close>

fun hex_decode :: "string \<Rightarrow> lib_err + bytes" where
  "hex_decode [] = Inr []"
| "hex_decode [c] = (if hex_val c = None then Inl (HexInvalidByte c) else Inl HexLength)"
| "hex_decode (p # q # s) =
     (case hex_val p of
        None \<Rightarrow> Inl (HexInvalidByte p)
      | Some a \<Rightarrow>
          (case hex_val q of
             None \<Rightarrow> Inl (HexInvalidByte q)
           | Some b \<Rightarrow>
               (case hex_decode s of
                  Inl e \<Rightarrow> Inl e
                | Inr bs \<Rightarrow> Inr (word_of_nat (16 * a + b) # bs))))"

lemma hex_val_hex_digit [codec_simps]: "d < 16 \<Longrightarrow> hex_val (hex_digit d) = Some d"
  by (simp add: hex_val_def hex_digit_def of_char_of Let_def)

lemma hex_decode_hex_bytes [codec_simps]: "hex_decode (hex_bytes bs) = Inr bs"
proof (induction bs)
  case (Cons b bs)
  have "unat b div 16 < 16"
    using unsigned_less [of b, where 'a = nat] by simp
  then show ?case using Cons by (simp add: hex_byte_def codec_simps)
qed simp

lemma hex_decode_length: "hex_decode s = Inr bs \<Longrightarrow> length s = 2 * length bs"
  by (induction s arbitrary: bs rule: hex_decode.induct)
    (auto split: if_splits option.splits sum.splits)

subsection \<open>Base64\<close>

definition b64_val :: "char \<Rightarrow> nat option" where
  "b64_val c =
     (let n = of_char c in
      if 65 \<le> n \<and> n < 91 then Some (n - 65)
      else if 97 \<le> n \<and> n < 123 then Some (n - 71)
      else if 48 \<le> n \<and> n < 58 then Some (n + 4)
      else if n = 43 then Some 62
      else if n = 47 then Some 63
      else None)"

definition b64_char :: "nat \<Rightarrow> char" where
  "b64_char n =
     (if n < 26 then char_of (n + 65)
      else if n < 52 then char_of (n + 71)
      else if n < 62 then char_of (n - 4)
      else if n = 62 then CHR ''+'' else CHR ''/'')"

text \<open>
  \<open>StdEncoding\<close> wants padding and ignores the bits it covers; carriage returns and newlines
  are skipped wherever they stand. A rejected input is reported with the input itself, from
  which the library's error text (an offset) follows.
\<close>

fun b64_groups :: "string \<Rightarrow> bytes option" where
  "b64_groups [] = Some []"
| "b64_groups (a # b # c # d # rest) =
     (case (b64_val a, b64_val b) of
        (Some x, Some y) \<Rightarrow>
          if d = CHR ''='' then
            if rest \<noteq> [] then None
            else if c = CHR ''='' then Some [word_of_nat (4 * x + y div 16)]
            else (case b64_val c of
                    None \<Rightarrow> None
                  | Some z \<Rightarrow> Some [word_of_nat (4 * x + y div 16),
                                   word_of_nat (16 * (y mod 16) + z div 4)])
          else
            (case (b64_val c, b64_val d, b64_groups rest) of
               (Some z, Some w, Some bs) \<Rightarrow>
                 Some (word_of_nat (4 * x + y div 16) #
                       word_of_nat (16 * (y mod 16) + z div 4) #
                       word_of_nat (64 * (z mod 4) + w) # bs)
             | _ \<Rightarrow> None)
      | _ \<Rightarrow> None)"
| "b64_groups _ = None"

definition b64_decode :: "string \<Rightarrow> lib_err + bytes" where
  "b64_decode s =
     (case b64_groups (filter (\<lambda>c. c \<noteq> CHR 0x0D \<and> c \<noteq> CHR 0x0A) s) of
        None \<Rightarrow> Inl (Base64Corrupt s)
      | Some bs \<Rightarrow> Inr bs)"

fun b64_encode :: "bytes \<Rightarrow> string" where
  "b64_encode [] = []"
| "b64_encode [p] =
     (let x = unat p in [b64_char (x div 4), b64_char (16 * (x mod 4)), CHR ''='', CHR ''=''])"
| "b64_encode [p, q] =
     (let x = unat p; y = unat q in
      [b64_char (x div 4), b64_char (16 * (x mod 4) + y div 16), b64_char (4 * (y mod 16)),
       CHR ''=''])"
| "b64_encode (p # q # r # s) =
     (let x = unat p; y = unat q; z = unat r in
      b64_char (x div 4) # b64_char (16 * (x mod 4) + y div 16) #
      b64_char (4 * (y mod 16) + z div 64) # b64_char (z mod 64) # b64_encode s)"

lemma of_char_b64:
  "n < 64 \<Longrightarrow> (of_char (b64_char n) :: nat) =
     (if n < 26 then n + 65 else if n < 52 then n + 71 else if n < 62 then n - 4
      else if n = 62 then 43 else 47)"
  by (simp add: b64_char_def of_char_of)

lemma b64_val_char [codec_simps]: "n < 64 \<Longrightarrow> b64_val (b64_char n) = Some n"
  by (auto simp: b64_val_def of_char_b64 Let_def)

lemma b64_char_plain:
  assumes "n < 64"
  shows "b64_char n \<noteq> CHR ''=''" "b64_char n \<noteq> CHR 0x0D" "b64_char n \<noteq> CHR 0x0A"
proof -
  have "(of_char (b64_char n) :: nat) \<notin> {61, 13, 10}"
    using assms by (auto simp: of_char_b64)
  then show "b64_char n \<noteq> CHR ''=''" "b64_char n \<noteq> CHR 0x0D" "b64_char n \<noteq> CHR 0x0A"
    by auto
qed

lemma byte_bits [simp]:
  fixes p q :: byte
  shows "unat p div 4 < 64" "16 * (unat p mod 4) + unat q div 16 < 64"
    "4 * (unat p mod 16) + unat q div 64 < 64" "16 * (unat p mod 4) < 64"
    "4 * (unat p mod 16) < 64" "unat q div 16 < 16" "unat q div 64 < 4"
proof -
  have p: "unat p < 256" and q: "unat q < 256"
    using unsigned_less [of p, where 'a = nat] unsigned_less [of q, where 'a = nat] by simp_all
  show "unat p div 4 < 64" using p by simp
  have "unat p mod 4 < 4" "unat p mod 16 < 16" by simp_all
  moreover have "unat q div 16 < 16" "unat q div 64 < 4" using q by simp_all
  ultimately show "16 * (unat p mod 4) + unat q div 16 < 64" "4 * (unat p mod 16) + unat q div 64 < 64"
    "16 * (unat p mod 4) < 64" "4 * (unat p mod 16) < 64" "unat q div 16 < 16" "unat q div 64 < 4"
    by linarith+
qed

lemma b64_encode_plain:
  "c \<in> set (b64_encode bs) \<Longrightarrow> c \<noteq> CHR 0x0D \<and> c \<noteq> CHR 0x0A"
  by (induction bs rule: b64_encode.induct) (auto simp: Let_def b64_char_plain)

lemma b64_decode_encode [codec_simps]: "b64_decode (b64_encode bs) = Inr bs"
proof -
  have plain: "filter (\<lambda>c. c \<noteq> CHR 0x0D \<and> c \<noteq> CHR 0x0A) (b64_encode bs) = b64_encode bs"
    using b64_encode_plain by (auto simp: filter_id_conv)
  have "b64_groups (b64_encode bs) = Some bs"
  proof (induction bs rule: b64_encode.induct)
    case (2 p)
    then show ?case by (simp add: Let_def codec_simps)
  next
    case (3 p q)
    then show ?case
      by (simp add: Let_def codec_simps b64_char_plain)
  next
    case (4 p q r s)
    then show ?case
      by (simp add: Let_def codec_simps b64_char_plain)
  qed simp
  with plain show ?thesis by (simp add: b64_decode_def)
qed

subsection \<open>Fixed-width integers\<close>

text \<open>\<open>be_bytes k n\<close>: the \<open>k\<close> low-order bytes of \<open>n\<close>, most significant first.\<close>

fun be_bytes :: "nat \<Rightarrow> nat \<Rightarrow> bytes" where
  "be_bytes 0 n = []"
| "be_bytes (Suc k) n = be_bytes k (n div 256) @ [word_of_nat n]"

definition be_val :: "bytes \<Rightarrow> nat" where
  "be_val bs = foldl (\<lambda>acc b. 256 * acc + unat b) 0 bs"

definition put_u64_be :: "64 word \<Rightarrow> bytes" where
  "put_u64_be w = be_bytes 8 (unat w)"

definition put_u32_be :: "32 word \<Rightarrow> bytes" where
  "put_u32_be w = be_bytes 4 (unat w)"

definition put_u32_le :: "32 word \<Rightarrow> bytes" where
  "put_u32_le w = rev (be_bytes 4 (unat w))"

definition get_u32_le :: "bytes \<Rightarrow> 32 word" where
  "get_u32_le bs = word_of_nat (be_val (rev bs))"

lemma length_be_bytes [simp]: "length (be_bytes k n) = k"
  by (induction k arbitrary: n) simp_all

lemma length_put [simp]:
  "length (put_u64_be w) = 8" "length (put_u32_be v) = 4" "length (put_u32_le v) = 4"
  by (simp_all add: put_u64_be_def put_u32_be_def put_u32_le_def)

lemma be_val_be_bytes [codec_simps]: "be_val (be_bytes k n) = n mod 256 ^ k"
proof (induction k arbitrary: n)
  case 0
  then show ?case by (simp add: be_val_def)
next
  case (Suc k)
  have "be_val (be_bytes (Suc k) n) = 256 * (n div 256 mod 256 ^ k) + n mod 256"
    using Suc [of "n div 256"] by (simp add: be_val_def unsigned_of_nat take_bit_eq_mod)
  also have "\<dots> = n mod 256 ^ Suc k"
    by (simp add: mod_mult2_eq)
  finally show ?case .
qed

lemma get_put_u32_le [codec_simps]: "get_u32_le (put_u32_le w) = w"
  using unsigned_less [of w, where 'a = nat]
  by (simp add: get_u32_le_def put_u32_le_def be_val_be_bytes)

text \<open>Big-endian encodings of the same width compare as the numbers do.\<close>

lemma list_less_append:
  fixes xs :: "'a :: linorder list"
  shows "length xs = length ys \<Longrightarrow> xs < ys \<Longrightarrow> xs @ us < ys @ vs"
  by (induction xs ys rule: list_induct2) auto

lemma list_less_append_same:
  fixes xs :: "'a :: linorder list"
  shows "us < vs \<Longrightarrow> xs @ us < xs @ vs"
  by (induction xs) auto

lemma be_bytes_mono: "m < n \<Longrightarrow> n < 256 ^ k \<Longrightarrow> be_bytes k m < be_bytes k n"
proof (induction k arbitrary: m n)
  case (Suc k)
  have nk: "n div 256 < 256 ^ k" using Suc.prems(2) by (simp add: less_mult_imp_div_less mult.commute)
  show ?case
  proof (cases "m div 256 < n div 256")
    case True
    then show ?thesis using Suc.IH [OF True nk] by (simp add: list_less_append)
  next
    case False
    with Suc.prems(1) have eq: "m div 256 = n div 256"
      by (metis div_le_mono le_neq_implies_less less_imp_le)
    with Suc.prems(1) have "m mod 256 < n mod 256"
      by (metis div_mult_mod_eq nat_add_left_cancel_less)
    then have "(word_of_nat m :: byte) < word_of_nat n"
      by (simp add: word_less_nat_alt unsigned_of_nat take_bit_eq_mod)
    then show ?thesis by (simp add: eq list_less_append_same)
  qed
qed simp

end
