(* ===== verification/WgNoise.thy ===== *)
theory WgNoise
  imports World Codec
begin

text \<open>
  The cryptographic half of prober_wireguard.go: the Noise primitives over BLAKE2s and
  ChaCha20-Poly1305, the TAI64N timestamp, and \<open>buildWGInitiation\<close>, the assembly of a WireGuard
  handshake initiation. HMAC and the key derivation are defined over the hash; the hash, the
  keyed hash, the AEAD and X25519 are the parameters of the record \<open>crypto\<close>.

  The responder's half, which prober_wireguard_test.go derives independently from the protocol's
  description (\<open>consumeInitiation\<close>), is modelled too; the main result is that it opens every
  initiation the prober builds.
\<close>

subsection \<open>Constants\<close>

definition wgConstruction :: bytes where
  "wgConstruction = bytes_of ''Noise_IKpsk2_25519_ChaChaPoly_BLAKE2s''"

definition wgIdentifier :: bytes where
  "wgIdentifier = bytes_of ''WireGuard v1 zx2c4 Jason@zx2c4.com''"

definition wgLabelMAC1 :: bytes where
  "wgLabelMAC1 = bytes_of ''mac1----''"

definition wgMsgInitiation :: byte where "wgMsgInitiation = 1"
definition wgInitiationSize :: nat where "wgInitiationSize = 148"
definition wgKeySize :: nat where "wgKeySize = 32"
definition wgMACSize :: nat where "wgMACSize = 16"

subsection \<open>Primitives\<close>

text \<open>Writing the parts one after the other hashes their concatenation.\<close>

definition wgHash :: "crypto \<Rightarrow> bytes list \<Rightarrow> bytes" where
  "wgHash C parts = copy32 (cr_blake2s C (concat parts))"

text \<open>\<open>crypto/hmac\<close> over BLAKE2s, whose block is 64 bytes: a longer key is hashed first.\<close>

definition hmac_blake2s :: "crypto \<Rightarrow> bytes \<Rightarrow> bytes \<Rightarrow> bytes" where
  "hmac_blake2s C key data =
     (let k = (if length key > 64 then cr_blake2s C key else key);
          block = k @ replicate (64 - length k) 0
      in cr_blake2s C (map (\<lambda>b. b XOR 0x5c) block @
           cr_blake2s C (map (\<lambda>b. b XOR 0x36) block @ data)))"

definition wgHMAC :: "crypto \<Rightarrow> bytes \<Rightarrow> bytes \<Rightarrow> bytes" where
  "wgHMAC C key data = copy32 (hmac_blake2s C key data)"

definition wgKDF1 :: "crypto \<Rightarrow> bytes \<Rightarrow> bytes \<Rightarrow> bytes" where
  "wgKDF1 C ck input = (let temp = wgHMAC C ck input in wgHMAC C temp [0x01])"

definition wgKDF2 :: "crypto \<Rightarrow> bytes \<Rightarrow> bytes \<Rightarrow> bytes \<times> bytes" where
  "wgKDF2 C ck input =
     (let temp = wgHMAC C ck input;
          k1 = wgHMAC C temp [0x01];
          k2 = wgHMAC C temp (k1 @ [0x02])
      in (k1, k2))"

text \<open>\<open>chacha20poly1305.New\<close> insists on a key of 32 bytes; the nonce is twelve zeroes.\<close>

definition zero_nonce :: bytes where "zero_nonce = replicate 12 0"

definition wgSeal :: "crypto \<Rightarrow> bytes \<Rightarrow> bytes \<Rightarrow> bytes \<Rightarrow> go_error + bytes" where
  "wgSeal C key plaintext aad =
     (if length key \<noteq> 32 then Inl (AeadErr (LibText ''chacha20poly1305: bad key length''))
      else Inr (cr_seal C key zero_nonce plaintext aad))"

text \<open>
  The TAI64N timestamp: \<open>2 ^ 62 + 10\<close> plus the Unix seconds in 64 bits, then the nanoseconds.
\<close>

definition wgTAI64N :: "instant \<Rightarrow> bytes" where
  "wgTAI64N now =
     put_u64_be (0x400000000000000a + word_of_int (now div 1000000000)) @
     put_u32_be (word_of_int (now mod 1000000000))"

lemma length_wgTAI64N [simp]: "length (wgTAI64N now) = 12"
  by (simp add: wgTAI64N_def)

lemma length_wgHash [simp]: "length (wgHash C parts) = 32"
  by (simp add: wgHash_def)

lemma wgHash_nonempty [simp]: "wgHash C parts \<noteq> []"
  by (metis length_wgHash list.size(3) zero_neq_numeral)

lemma length_wgHMAC [simp]: "length (wgHMAC C key data) = 32"
  by (simp add: wgHMAC_def)

subsection \<open>Assembling an initiation\<close>

record wgInitiation =
  wi_packet :: bytes
  wi_senderIndex :: "32 word"

text \<open>
  The last part, once all encrypted fields are known: \<open>mac1\<close> over everything so far, keyed by
  the responder's public key, a zero \<open>mac2\<close>, and the final length check.
\<close>

definition finish_initiation ::
  "crypto \<Rightarrow> bytes \<Rightarrow> bytes \<Rightarrow> 32 word \<Rightarrow> go_error + wgInitiation" where
  "finish_initiation C peerPub body senderIndex =
     (let mac1Key = wgHash C [wgLabelMAC1, peerPub]
      in if length mac1Key = 0 \<or> length mac1Key > 32
         then Inl (Mac1Err (LibText ''blake2s: invalid key size''))
         else (let packet = body @ cr_blake2s128 C mac1Key body @ replicate wgMACSize 0
               in if length packet \<noteq> wgInitiationSize then Inl (InitiationSize (length packet))
                  else Inr \<lparr>wi_packet = packet, wi_senderIndex = senderIndex\<rparr>))"

text \<open>The part without randomness: ephemeral key and sender index are given.\<close>

definition assemble_initiation ::
  "crypto \<Rightarrow> bytes \<Rightarrow> bytes \<Rightarrow> instant \<Rightarrow> bytes \<Rightarrow> bytes \<Rightarrow> go_error + wgInitiation" where
  "assemble_initiation C peerPub static now eph idx =
     (let ck0 = wgHash C [wgConstruction];
          hi = wgHash C [ck0, wgIdentifier];
          h0 = wgHash C [hi, peerPub];
          ephPub = cr_pub C eph;
          senderIndex = get_u32_le idx;
          packet0 = [wgMsgInitiation, 0, 0, 0] @ put_u32_le senderIndex @ ephPub;
          h1 = wgHash C [h0, ephPub];
          ck1 = wgKDF1 C ck0 ephPub
      in (case cr_ecdh C eph peerPub of
            Inl e \<Rightarrow> Inl (EphemeralDHErr e)
          | Inr dhEphemeral \<Rightarrow>
              (let (ck2, key1) = wgKDF2 C ck1 dhEphemeral
               in (case wgSeal C key1 (cr_pub C static) h1 of
                     Inl e \<Rightarrow> Inl e
                   | Inr encryptedStatic \<Rightarrow>
                       (let packet1 = packet0 @ encryptedStatic;
                            h2 = wgHash C [h1, encryptedStatic]
                        in (case cr_ecdh C static peerPub of
                              Inl e \<Rightarrow> Inl (StaticDHErr e)
                            | Inr dhStatic \<Rightarrow>
                                (let (ck3, key2) = wgKDF2 C ck2 dhStatic
                                 in (case wgSeal C key2 (wgTAI64N now) h2 of
                                       Inl e \<Rightarrow> Inl e
                                     | Inr encryptedTimestamp \<Rightarrow>
                                         finish_initiation C peerPub
                                           (packet1 @ encryptedTimestamp) senderIndex))))))))"

text \<open>
  \<open>buildWGInitiation\<close>: a fresh ephemeral key and a random sender index, then the assembly.
\<close>

definition buildWGInitiation ::
  "world \<Rightarrow> bytes \<Rightarrow> bytes \<Rightarrow> instant \<Rightarrow> trace \<Rightarrow> (go_error + wgInitiation) \<times> trace" where
  "buildWGInitiation W peerPub static now h =
     (case sys_rand W 32 h of
        (Inl e, h1) \<Rightarrow> (Inl (EphemeralKeyErr e), h1)
      | (Inr eph, h1) \<Rightarrow>
          (case sys_rand W 4 h1 of
             (Inl e, h2) \<Rightarrow> (Inl (SenderIndexErr e), h2)
           | (Inr idx, h2) \<Rightarrow> (assemble_initiation (w_crypto W) peerPub static now eph idx, h2)))"

subsection \<open>The responder's half\<close>

definition wgTestHash :: "crypto \<Rightarrow> bytes list \<Rightarrow> bytes" where
  "wgTestHash C parts = cr_blake2s C (concat parts)"

definition wgTestHMAC :: "crypto \<Rightarrow> bytes \<Rightarrow> bytes \<Rightarrow> bytes" where
  "wgTestHMAC C key data = hmac_blake2s C key data"

text \<open>The loop of \<open>wgTestKDF\<close>: output \<open>i\<close> is the HMAC of the previous output and the byte \<open>i\<close>.\<close>

fun kdf_outputs :: "crypto \<Rightarrow> bytes \<Rightarrow> bytes \<Rightarrow> nat \<Rightarrow> nat \<Rightarrow> bytes list" where
  "kdf_outputs C temp prev i 0 = []"
| "kdf_outputs C temp prev i (Suc n) =
     (let k = wgTestHMAC C temp (prev @ [word_of_nat i])
      in k # kdf_outputs C temp k (Suc i) n)"

definition wgTestKDF :: "crypto \<Rightarrow> bytes \<Rightarrow> bytes \<Rightarrow> nat \<Rightarrow> bytes list" where
  "wgTestKDF C ck input n = kdf_outputs C (wgTestHMAC C ck input) [] 1 n"

definition wgTestOpen :: "crypto \<Rightarrow> bytes \<Rightarrow> bytes \<Rightarrow> bytes \<Rightarrow> bytes option" where
  "wgTestOpen C key ciphertext aad =
     (if length key \<noteq> 32 then None else cr_open C key zero_nonce ciphertext aad)"

text \<open>
  \<open>consumeInitiation\<close>: the initiator's static key and timestamp, \<open>None\<close> where the test fails.
  The slices are those of the offset constants of the test.
\<close>

definition consumeInitiation :: "crypto \<Rightarrow> bytes \<Rightarrow> bytes \<Rightarrow> (bytes \<times> bytes) option" where
  "consumeInitiation C responder packet =
     (if length packet \<noteq> wgInitiationSize then None
      else if packet ! 0 \<noteq> wgMsgInitiation then None
      else if take 3 (drop 1 packet) \<noteq> [0, 0, 0] then None
      else
        (let responderPub = cr_pub C responder;
             ck = wgTestHash C [wgConstruction];
             h0 = wgTestHash C [wgTestHash C [ck, wgIdentifier], responderPub];
             ephemeral = take 32 (drop 8 packet);
             h1 = wgTestHash C [h0, ephemeral];
             ck1 = wgTestKDF C ck ephemeral 1 ! 0
         in (case cr_ecdh C responder ephemeral of
               Inl e \<Rightarrow> None
             | Inr dh1 \<Rightarrow>
                 (let keys1 = wgTestKDF C ck1 dh1 2;
                      ck2 = keys1 ! 0;
                      encStatic = take 48 (drop 40 packet)
                  in (case wgTestOpen C (keys1 ! 1) encStatic h1 of
                        None \<Rightarrow> None
                      | Some staticPub \<Rightarrow>
                          (let h2 = wgTestHash C [h1, encStatic]
                           in if length staticPub \<noteq> wgKeySize then None
                              else (case cr_ecdh C responder staticPub of
                                      Inl e \<Rightarrow> None
                                    | Inr dh2 \<Rightarrow>
                                        (let keys2 = wgTestKDF C ck2 dh2 2;
                                             encTime = take 28 (drop 88 packet)
                                         in (case wgTestOpen C (keys2 ! 1) encTime h2 of
                                               None \<Rightarrow> None
                                             | Some timestamp \<Rightarrow> Some (staticPub, timestamp))))))))))"

subsection \<open>The documented behaviour of the cryptographic library\<close>

definition crypto_ok :: "crypto \<Rightarrow> bool" where
  "crypto_ok C \<longleftrightarrow>
     (\<forall>bs. length (cr_blake2s C bs) = 32) \<and>
     (\<forall>k d. length (cr_blake2s128 C k d) = 16) \<and>
     (\<forall>k n p a. length (cr_seal C k n p a) = length p + 16) \<and>
     (\<forall>k n p a. length k = 32 \<longrightarrow> cr_open C k n (cr_seal C k n p a) a = Some p) \<and>
     (\<forall>p. length (cr_pub C p) = 32) \<and>
     (\<forall>a b. length a = 32 \<longrightarrow> length b = 32 \<longrightarrow>
        cr_ecdh C a (cr_pub C b) = cr_ecdh C b (cr_pub C a))"

lemma crypto_okD:
  assumes "crypto_ok C"
  shows "length (cr_blake2s C bs) = 32" "length (cr_blake2s128 C k d) = 16"
    "length (cr_seal C k n p a) = length p + 16"
    "length k = 32 \<Longrightarrow> cr_open C k n (cr_seal C k n p a) a = Some p"
    "length (cr_pub C q) = 32"
    "length x = 32 \<Longrightarrow> length y = 32 \<Longrightarrow> cr_ecdh C x (cr_pub C y) = cr_ecdh C y (cr_pub C x)"
  using assms by (simp_all add: crypto_ok_def)

text \<open>The two derivations of the key schedule agree.\<close>

lemma wgTestHash_eq: "crypto_ok C \<Longrightarrow> wgTestHash C parts = wgHash C parts"
  by (simp add: wgTestHash_def wgHash_def crypto_okD)

lemma wgTestHMAC_eq: "crypto_ok C \<Longrightarrow> wgTestHMAC C k d = wgHMAC C k d"
  by (simp add: wgTestHMAC_def wgHMAC_def hmac_blake2s_def crypto_okD Let_def)

lemma wgTestKDF_1: "crypto_ok C \<Longrightarrow> wgTestKDF C ck input 1 = [wgKDF1 C ck input]"
  by (simp add: wgTestKDF_def wgKDF1_def wgTestHMAC_eq Let_def)

lemma wgTestKDF_2:
  "crypto_ok C \<Longrightarrow> wgTestKDF C ck input 2 = [fst (wgKDF2 C ck input), snd (wgKDF2 C ck input)]"
  by (simp add: wgTestKDF_def wgKDF2_def wgTestHMAC_eq Let_def numeral_2_eq_2)

lemma length_wgKDF2 [simp]:
  "length (fst (wgKDF2 C ck input)) = 32" "length (snd (wgKDF2 C ck input)) = 32"
  by (simp_all add: wgKDF2_def Let_def)

lemma length_wgKDF1 [simp]: "length (wgKDF1 C ck input) = 32"
  by (simp add: wgKDF1_def Let_def)

subsection \<open>The packet, field by field\<close>

text \<open>The chaining values of the initiator, named as in the code.\<close>

definition wg_h0 :: "crypto \<Rightarrow> bytes \<Rightarrow> bytes" where
  "wg_h0 C peerPub = wgHash C [wgHash C [wgHash C [wgConstruction], wgIdentifier], peerPub]"

definition wg_ck1 :: "crypto \<Rightarrow> bytes \<Rightarrow> bytes" where
  "wg_ck1 C ephPub = wgKDF1 C (wgHash C [wgConstruction]) ephPub"

definition packet_body :: "32 word \<Rightarrow> bytes \<Rightarrow> bytes \<Rightarrow> bytes \<Rightarrow> bytes" where
  "packet_body idx ephPub encS encT =
     [wgMsgInitiation, 0, 0, 0] @ put_u32_le idx @ ephPub @ encS @ encT"

definition mac1_of :: "crypto \<Rightarrow> bytes \<Rightarrow> bytes \<Rightarrow> bytes" where
  "mac1_of C peerPub body = cr_blake2s128 C (wgHash C [wgLabelMAC1, peerPub]) body"

lemma assemble_cases:
  assumes "crypto_ok C" "assemble_initiation C peerPub static now eph idx = Inr m"
  obtains dh1 dh2 encS encT where
    "cr_ecdh C eph peerPub = Inr dh1" "cr_ecdh C static peerPub = Inr dh2"
    "encS = cr_seal C (snd (wgKDF2 C (wg_ck1 C (cr_pub C eph)) dh1)) zero_nonce (cr_pub C static)
       (wgHash C [wg_h0 C peerPub, cr_pub C eph])"
    "encT = cr_seal C (snd (wgKDF2 C (fst (wgKDF2 C (wg_ck1 C (cr_pub C eph)) dh1)) dh2)) zero_nonce
       (wgTAI64N now) (wgHash C [wgHash C [wg_h0 C peerPub, cr_pub C eph], encS])"
    "length encS = 48" "length encT = 28"
    "wi_senderIndex m = get_u32_le idx"
    "wi_packet m = packet_body (get_u32_le idx) (cr_pub C eph) encS encT @
       mac1_of C peerPub (packet_body (get_u32_le idx) (cr_pub C eph) encS encT) @
       replicate wgMACSize 0"
  using assms
  by (auto simp: assemble_initiation_def finish_initiation_def wgSeal_def packet_body_def mac1_of_def
      wg_h0_def wg_ck1_def crypto_okD Let_def split: sum.splits if_splits prod.splits)

lemma assemble_total:
  assumes "crypto_ok C" "cr_ecdh C eph peerPub = Inr dh1" "cr_ecdh C static peerPub = Inr dh2"
  shows "\<exists>m. assemble_initiation C peerPub static now eph idx = Inr m"
  using assms
  by (simp add: assemble_initiation_def finish_initiation_def wgSeal_def wgInitiationSize_def
      wgMACSize_def crypto_okD Let_def case_prod_beta)

text \<open>Whatever the library returns, a packet of the wrong length never leaves.\<close>

lemma finish_initiation_length:
  "finish_initiation C peerPub body idx = Inr m \<Longrightarrow> length (wi_packet m) = wgInitiationSize"
  by (auto simp: finish_initiation_def Let_def split: if_splits)

lemma assemble_length:
  "assemble_initiation C peerPub static now eph idx = Inr m \<Longrightarrow> length (wi_packet m) = wgInitiationSize"
  by (auto simp: assemble_initiation_def Let_def split: sum.splits prod.splits
      dest: finish_initiation_length)

text \<open>The slices of a packet at the protocol's offsets.\<close>

lemma packet_slices:
  assumes "length ephPub = 32" "length encS = 48" "length encT = 28" "length mac = 16"
    and "p = packet_body idx ephPub encS encT @ mac @ replicate wgMACSize 0"
  shows "length p = 148" "p ! 0 = wgMsgInitiation" "take 3 (drop 1 p) = [0, 0, 0]"
    "take 4 (drop 4 p) = put_u32_le idx" "take 32 (drop 8 p) = ephPub"
    "take 48 (drop 40 p) = encS" "take 28 (drop 88 p) = encT"
    "take 116 p = packet_body idx ephPub encS encT" "take 16 (drop 116 p) = mac"
    "drop 132 p = replicate 16 0"
  using assms by (simp_all add: packet_body_def wgMACSize_def numeral_3_eq_3)

text \<open>
  The responder's chain reaches the same keys: X25519 gives both sides the same secret, and the
  AEAD opens what it sealed.
\<close>

lemma consume_assembled:
  assumes "crypto_ok C" "length responder = 32" "length static = 32" "length eph = 32"
    and "assemble_initiation C (cr_pub C responder) static now eph idx = Inr m"
  shows "consumeInitiation C responder (wi_packet m) = Some (cr_pub C static, wgTAI64N now)"
  using assms(1,5)
proof (cases rule: assemble_cases)
  case (1 dh1 dh2 encS encT)
  note sl = packet_slices [OF crypto_okD(5) [OF assms(1)] 1(5,6) crypto_okD(2) [OF assms(1)]
      1(8) [unfolded mac1_of_def]]
  have dh: "cr_ecdh C responder (cr_pub C eph) = Inr dh1" "cr_ecdh C responder (cr_pub C static) = Inr dh2"
    using 1(1,2) crypto_okD(6) [OF assms(1)] assms(2-4) by metis+
  show ?thesis
    unfolding consumeInitiation_def Let_def wgTestHash_eq [OF assms(1)] wgTestKDF_1 [OF assms(1)]
      wgTestKDF_2 [OF assms(1)] sl wgInitiationSize_def
    by (simp add: dh wgTestOpen_def crypto_okD [OF assms(1)] 1(3,4) wg_h0_def wg_ck1_def wgKeySize_def)
qed

subsection \<open>Timestamps grow\<close>

text \<open>
  A responder accepts an initiation only when its timestamp is greater than the last one it saw
  from that peer, comparing the bytes: later instants have greater timestamps.
\<close>

lemma unat_tai64:
  assumes "0 \<le> s" "s < 2 ^ 62"
  shows "unat (0x400000000000000a + word_of_int s :: 64 word) = 0x400000000000000a + nat s"
proof -
  have "(0x400000000000000a + word_of_int s :: 64 word) = word_of_int (0x400000000000000a + s)" by simp
  then have "uint (0x400000000000000a + word_of_int s :: 64 word) = 0x400000000000000a + s"
    using assms by (simp only: uint_word_of_int) (simp add: mod_pos_pos_trivial)
  then show ?thesis using assms by (simp add: unat_eq_nat_uint nat_add_distrib)
qed

lemma wgTAI64N_mono:
  assumes "0 \<le> a" "a < b" "b < 2 ^ 62 * 1000000000"
  shows "wgTAI64N a < wgTAI64N b"
proof -
  let ?n = "1000000000 :: int"
  have sec: "0 \<le> a div ?n" "a div ?n \<le> b div ?n" "b div ?n < 2 ^ 62"
    using assms by (auto simp: zdiv_mono1 pos_imp_zdiv_nonneg_iff div_less_iff_less_mult)
  show ?thesis
  proof (cases "a div ?n = b div ?n")
    case True
    then have "a mod ?n < b mod ?n" using assms(2) by (metis add_less_cancel_left mult_div_mod_eq)
    moreover have "unat (word_of_int (x mod ?n) :: 32 word) = nat (x mod ?n)" for x
    proof -
      have "0 \<le> x mod ?n" "x mod ?n < ?n" by simp_all
      then show ?thesis by (simp add: unat_eq_nat_uint uint_word_of_int mod_pos_pos_trivial)
    qed
    moreover have "nat (b mod ?n) < 256 ^ 4"
      using pos_mod_bound [of ?n b] by (simp add: nat_less_iff)
    ultimately show ?thesis unfolding wgTAI64N_def True put_u32_be_def
      by (intro list_less_append_same be_bytes_mono) simp_all
  next
    case False
    with sec have "nat (a div ?n) < nat (b div ?n)" by simp
    then show ?thesis unfolding wgTAI64N_def put_u64_be_def
      by (intro list_less_append be_bytes_mono) (use sec in \<open>simp_all add: unat_tai64\<close>)
  qed
qed

end
