(* ===== verification/UdpExchange.thy ===== *)
theory UdpExchange
  imports World
begin

text \<open>
  The send-and-wait half shared by every UDP-based prober (\<open>udpExchange\<close> of prober_udp.go):
  bind a socket, send a datagram, wait for an answer, resend within the phase budget.

  The loop over the attempts is a recursion on the number of attempts left. The result of a
  run is \<open>None\<close> when the code panics, which it does on a zero attempt count (the division
  that splits the timeout) and when the acceptance check panics.
\<close>

datatype verdict = Accepted | Rejected string

record udpExchange =
  x_addr :: string
  x_payload :: bytes
  x_attempts :: int
  x_sendPhase :: string
  x_respPhase :: string
  x_accept :: "(bytes \<Rightarrow> verdict option) option"
  x_silenceOK :: bool

subsection \<open>The retry loop\<close>

text \<open>
  What the loop leaves in \<open>respPhase.OK\<close>, \<open>respPhase.Err\<close>, \<open>definitive\<close> and \<open>reply\<close>.
\<close>

record loop_state =
  ls_OK :: bool
  ls_Err :: string
  ls_definitive :: bool
  ls_reply :: bytes

definition stop_definitive :: "string \<Rightarrow> loop_state" where
  "stop_definitive e = \<lparr>ls_OK = False, ls_Err = e, ls_definitive = True, ls_reply = []\<rparr>"

definition stop_silent :: "string \<Rightarrow> loop_state" where
  "stop_silent e = \<lparr>ls_OK = False, ls_Err = e, ls_definitive = False, ls_reply = []\<rparr>"

definition stop_answered :: "string \<Rightarrow> bytes \<Rightarrow> loop_state" where
  "stop_answered e d = \<lparr>ls_OK = True, ls_Err = e, ls_definitive = False, ls_reply = d\<rparr>"

definition mtu :: nat where "mtu = 1500"

text \<open>The write that opens every attempt but the first.\<close>

definition resend :: "world \<Rightarrow> udpExchange \<Rightarrow> nat \<Rightarrow> trace \<Rightarrow> string option \<times> trace" where
  "resend W x attempt h = (if attempt > 0 then sys_write W (x_payload x) h else (None, h))"

text \<open>
  The loop body. It leaves the loop in a final state, or goes on to the next attempt with the
  error this one timed out with. \<open>err\<close> is the value \<open>respPhase.Err\<close> has so far: nothing
  resets it when a later attempt is answered.
\<close>

datatype attempt_end = Stop loop_state | Retry string

definition udp_attempt ::
  "world \<Rightarrow> udpExchange \<Rightarrow> instant \<Rightarrow> duration \<Rightarrow> nat \<Rightarrow> string \<Rightarrow> trace \<Rightarrow>
     (attempt_end \<times> trace) option" where
  "udp_attempt W x deadline slc attempt err h =
     (case resend W x attempt h of
        (Some e, h1) \<Rightarrow> Some (Stop (stop_definitive e), h1)
      | (None, h1) \<Rightarrow>
          (let (now, h2) = sys_now W h1;
               wait = (if now + slc > deadline then deadline else now + slc)
           in (case sys_set_rd W wait h2 of
                 (Some e, h3) \<Rightarrow> Some (Stop (stop_definitive e), h3)
               | (None, h3) \<Rightarrow>
                   (case sys_read W mtu h3 of
                      (Datagram d, h4) \<Rightarrow>
                        (case x_accept x of
                           None \<Rightarrow> Some (Stop (stop_answered err d), h4)
                         | Some accept \<Rightarrow>
                             (case accept d of
                                None \<Rightarrow> None
                              | Some (Rejected e) \<Rightarrow> Some (Stop (stop_definitive e), h4)
                              | Some Accepted \<Rightarrow> Some (Stop (stop_answered err d), h4)))
                    | (ReadFailed e timed_out, h4) \<Rightarrow>
                        if \<not> timed_out then Some (Stop (stop_definitive e), h4)
                        else
                          (case sys_ctx_err W h4 of
                             (True, h5) \<Rightarrow> Some (Stop (stop_definitive e), h5)
                           | (False, h5) \<Rightarrow>
                               (let (now2, h6) = sys_now W h5
                                in if \<not> now2 < deadline then Some (Stop (stop_silent e), h6)
                                   else Some (Retry e, h6)))))))"

fun udp_loop ::
  "world \<Rightarrow> udpExchange \<Rightarrow> instant \<Rightarrow> duration \<Rightarrow> nat \<Rightarrow> nat \<Rightarrow> string \<Rightarrow> trace \<Rightarrow>
     (loop_state \<times> trace) option" where
  "udp_loop W x deadline slc attempt 0 err h = Some (stop_silent err, h)"
| "udp_loop W x deadline slc attempt (Suc left) err h =
     (case udp_attempt W x deadline slc attempt err h of
        None \<Rightarrow> None
      | Some (Stop ls, h') \<Rightarrow> Some (ls, h')
      | Some (Retry e, h') \<Rightarrow> udp_loop W x deadline slc (Suc attempt) left e h')"

subsection \<open>The two phases\<close>

text \<open>Phase 2: everything from the computation of the deadline on.\<close>

definition udp_wait ::
  "world \<Rightarrow> udpExchange \<Rightarrow> duration \<Rightarrow> phase \<Rightarrow> trace \<Rightarrow> ((phase list \<times> bytes) \<times> trace) option" where
  "udp_wait W x timeout sendPhase h =
     (let (now, h1) = sys_now W h;
          deadline = (case w_ctx_deadline W of
                        Some c \<Rightarrow> if c < now + timeout then c else now + timeout
                      | None \<Rightarrow> now + timeout)
      in (case go_div timeout (x_attempts x) of
            None \<Rightarrow> None
          | Some slc \<Rightarrow>
              (let (start, h2) = sys_now W h1
               in (case udp_loop W x deadline slc 0 (nat (x_attempts x)) [] h2 of
                     None \<Rightarrow> None
                   | Some (ls, h3) \<Rightarrow>
                       (let pass = (\<not> ls_OK ls \<and> x_silenceOK x \<and> \<not> ls_definitive ls);
                            (end', h4) = sys_now W h3;
                            respPhase = \<lparr>ph_Name = x_respPhase x,
                                         ph_OK = (ls_OK ls \<or> pass),
                                         ph_Duration = end' - start,
                                         ph_Err = (if pass then [] else ls_Err ls)\<rparr>
                        in Some (([sendPhase, respPhase], ls_reply ls), sys_close h4))))))"

text \<open>Phase 1 once the socket is bound: a write deadline and the first datagram.\<close>

definition udp_send ::
  "world \<Rightarrow> udpExchange \<Rightarrow> duration \<Rightarrow> instant \<Rightarrow> phase \<Rightarrow> trace \<Rightarrow>
     ((phase list \<times> bytes) \<times> trace) option" where
  "udp_send W x timeout start sendPhase h =
     (let (now, h1) = sys_now W h;
          (wd, h2) = sys_set_wd W (now + timeout) h1
      in (case wd of
            Some e \<Rightarrow>
              (let (now2, h3) = sys_now W h2
               in Some (([sendPhase\<lparr>ph_Err := e, ph_Duration := now2 - start\<rparr>], []), sys_close h3))
          | None \<Rightarrow>
              (let (wr, h3) = sys_write W (x_payload x) h2;
                   (now2, h4) = sys_now W h3
               in (case wr of
                     Some e \<Rightarrow>
                       Some (([sendPhase\<lparr>ph_Err := e, ph_Duration := now2 - start\<rparr>], []),
                             sys_close h4)
                   | None \<Rightarrow>
                       udp_wait W x timeout
                         (sendPhase\<lparr>ph_OK := True, ph_Duration := now2 - start\<rparr>) h4))))"

definition udp_run ::
  "world \<Rightarrow> udpExchange \<Rightarrow> duration \<Rightarrow> trace \<Rightarrow> ((phase list \<times> bytes) \<times> trace) option" where
  "udp_run W x timeout h =
     (let (start, h1) = sys_now W h;
          (err, h2) = sys_dial W ''udp'' (x_addr x) timeout h1;
          (now, h3) = sys_now W h2;
          sendPhase = \<lparr>ph_Name = x_sendPhase x, ph_OK = False, ph_Duration = now - start,
                       ph_Err = []\<rparr>
      in (case err of
            Some e \<Rightarrow> Some (([sendPhase\<lparr>ph_Err := e\<rparr>], []), h3)
          | None \<Rightarrow> udp_send W x timeout start sendPhase h3))"

subsection \<open>What the loop adds to the trace\<close>

lemmas loop_unfold = resend_def sys_read_def sys_defs

text \<open>The answers the reads of a piece of trace got, newest first.\<close>

fun read_answers :: "world \<Rightarrow> trace \<Rightarrow> trace \<Rightarrow> read_answer list" where
  "read_answers W [] h = []"
| "read_answers W (Read # c) h = w_read W (Read # c @ h) # read_answers W c h"
| "read_answers W (_ # c) h = read_answers W c h"

definition timed_out :: "read_answer \<Rightarrow> bool" where
  "timed_out a = (case a of Datagram d \<Rightarrow> False | ReadFailed e tmo \<Rightarrow> tmo)"

lemma writes_append [simp]: "writes (c @ h) = writes c @ writes h"
  by (induction c rule: writes.induct) simp_all

lemma reads_append [simp]: "reads (c @ h) = reads c + reads h"
  by (induction c rule: reads.induct) simp_all

lemma read_deadlines_append [simp]: "read_deadlines (c @ h) = read_deadlines c @ read_deadlines h"
  by (induction c rule: read_deadlines.induct) simp_all

lemma read_answers_append [simp]:
  "read_answers W (c @ c') h = read_answers W c (c' @ h) @ read_answers W c' h"
  by (induction W c h rule: read_answers.induct) simp_all

text \<open>
  The effect of the loop on the trace: datagrams, read deadlines and the answers that were
  seen, related to the state it stops in.
\<close>

definition loop_effect ::
  "world \<Rightarrow> udpExchange \<Rightarrow> instant \<Rightarrow> nat \<Rightarrow> nat \<Rightarrow> loop_state \<Rightarrow> trace \<Rightarrow> trace \<Rightarrow> bool" where
  "loop_effect W x deadline attempt left ls c h \<longleftrightarrow>
     set (writes c) \<subseteq> {x_payload x} \<and>
     length (writes c) \<le> (if attempt = 0 then left - 1 else left) \<and>
     (\<forall>i \<in> set (read_deadlines c). i \<le> deadline) \<and>
     length (read_answers W c h) \<le> left \<and>
     (\<forall>a \<in> set (tl (read_answers W c h)). timed_out a) \<and>
     (if ls_OK ls then
        \<exists>d. read_answers W c h \<noteq> [] \<and> hd (read_answers W c h) = Datagram d \<and>
            ls_reply ls = take mtu d \<and>
            (\<forall>f. x_accept x = Some f \<longrightarrow> f (take mtu d) = Some Accepted)
      else ls_reply ls = [] \<and> (\<not> ls_definitive ls \<longrightarrow> (\<forall>a \<in> set (read_answers W c h). timed_out a)))"

lemma loop_effect_step:
  assumes "loop_effect W x deadline (Suc attempt) left ls c (c' @ h)"
    and "set (writes c') \<subseteq> {x_payload x}" "length (writes c') \<le> (if attempt = 0 then 0 else 1)"
    and "\<forall>i \<in> set (read_deadlines c'). i \<le> deadline"
    and "read_answers W c' h = [a]" "timed_out a"
  shows "loop_effect W x deadline attempt (Suc left) ls (c @ c') h"
  using assms
  by (cases "read_answers W c (c' @ h)")
    (auto simp: loop_effect_def timed_out_def split: if_splits)

text \<open>The ways one attempt can end, with the trace each leaves.\<close>

definition attempt_calls :: "world \<Rightarrow> udpExchange \<Rightarrow> instant \<Rightarrow> duration \<Rightarrow> nat \<Rightarrow> trace \<Rightarrow> trace" where
  "attempt_calls W x deadline slc attempt h =
     (let c = (if attempt > 0 then [Write (x_payload x)] else []);
          now = w_now W (Now # c @ h)
      in SetReadDeadline (if now + slc > deadline then deadline else now + slc) # Now # c)"

lemma udp_attempt_cases:
  assumes "udp_attempt W x deadline slc attempt err h = Some (r, h')"
  obtains (write_err) e where "r = Stop (stop_definitive e)"
      "h' = (if attempt > 0 then [Write (x_payload x)] else []) @ h"
    | (set_err) e where "r = Stop (stop_definitive e)"
      "h' = attempt_calls W x deadline slc attempt h @ h"
    | (answered) d where "r = Stop (stop_answered err (take mtu d))"
      "h' = Read # attempt_calls W x deadline slc attempt h @ h" "w_read W h' = Datagram d"
      "\<forall>f. x_accept x = Some f \<longrightarrow> f (take mtu d) = Some Accepted"
    | (rejected) e where "r = Stop (stop_definitive e)"
      "h' = Read # attempt_calls W x deadline slc attempt h @ h"
    | (cancelled) e where "r = Stop (stop_definitive e)"
      "h' = CtxErr # Read # attempt_calls W x deadline slc attempt h @ h"
    | (silent) e where "r = Stop (stop_silent e) \<or> r = Retry e"
      "h' = Now # CtxErr # Read # attempt_calls W x deadline slc attempt h @ h"
      "w_read W (Read # attempt_calls W x deadline slc attempt h @ h) = ReadFailed e True"
  using assms
  by (cases "attempt > 0")
    (auto simp: udp_attempt_def attempt_calls_def loop_unfold
      split: option.splits read_answer.splits verdict.splits if_splits bool.splits)

lemma attempt_calls_effect [simp]:
  "set (writes (attempt_calls W x deadline slc attempt h)) \<subseteq> {x_payload x}"
  "length (writes (attempt_calls W x deadline slc attempt h)) = (if attempt = 0 then 0 else 1)"
  "i \<in> set (read_deadlines (attempt_calls W x deadline slc attempt h)) \<Longrightarrow> i \<le> deadline"
  "read_answers W (attempt_calls W x deadline slc attempt h) h = []"
  by (auto simp: attempt_calls_def Let_def split: if_splits)

lemma udp_loop_effect:
  assumes "udp_loop W x deadline slc attempt left err h = Some (ls, h')"
  shows "\<exists>c. h' = c @ h \<and> loop_effect W x deadline attempt left ls c h"
  using assms
proof (induction left arbitrary: attempt err h)
  case 0
  then show ?case by (auto simp: loop_effect_def stop_silent_def)
next
  case (Suc left)
  let ?c = "attempt_calls W x deadline slc attempt h"
  from Suc.prems obtain r h1 where r: "udp_attempt W x deadline slc attempt err h = Some (r, h1)"
    by (auto split: option.splits)
  show ?case
  proof (cases r)
    case (Stop ls')
    with Suc.prems r have eq: "ls' = ls" "h1 = h'" by simp_all
    from r show ?thesis unfolding Stop eq
      by (cases rule: udp_attempt_cases)
        (auto simp: loop_effect_def stop_definitive_def stop_answered_def stop_silent_def
          timed_out_def)
  next
    case (Retry e)
    from r obtain silent: "h1 = Now # CtxErr # Read # ?c @ h"
      "w_read W (Read # ?c @ h) = ReadFailed e True"
      by (cases rule: udp_attempt_cases) (auto simp: Retry)
    from Suc.prems r have "udp_loop W x deadline slc (Suc attempt) left e h1 = Some (ls, h')"
      by (simp add: Retry)
    then obtain c where c: "h' = c @ (Now # CtxErr # Read # ?c) @ h"
      "loop_effect W x deadline (Suc attempt) left ls c ((Now # CtxErr # Read # ?c) @ h)"
      using Suc.IH silent(1) by fastforce
    then have "loop_effect W x deadline attempt (Suc left) ls (c @ Now # CtxErr # Read # ?c) h"
      using silent(2) by (intro loop_effect_step [OF c(2)]) (auto simp: timed_out_def)
    then show ?thesis using c(1) by (intro exI [of _ "c @ Now # CtxErr # Read # ?c"]) simp
  qed
qed

text \<open>
  The error an answered loop carries: what it started with if no datagram was lost, else the error
  of the last read that timed out.
\<close>

definition read_error :: "read_answer \<Rightarrow> string" where
  "read_error a = (case a of Datagram d \<Rightarrow> [] | ReadFailed e tmo \<Rightarrow> e)"

definition last_error :: "string \<Rightarrow> read_answer list \<Rightarrow> string" where
  "last_error err as = (case as of [] \<Rightarrow> err | a # _ \<Rightarrow> read_error a)"

lemma last_error_snoc: "last_error err (as @ [a]) = last_error (read_error a) as"
  by (simp add: last_error_def split: list.split)

lemma udp_attempt_retry:
  assumes "udp_attempt W x deadline slc attempt err h = Some (Retry e, h')"
  shows "h' = Now # CtxErr # Read # attempt_calls W x deadline slc attempt h @ h"
    and "w_read W (Read # attempt_calls W x deadline slc attempt h @ h) = ReadFailed e True"
  using assms
  by (cases "attempt > 0";
    auto simp: udp_attempt_def attempt_calls_def loop_unfold
      split: option.splits read_answer.splits verdict.splits if_splits bool.splits)+

lemma udp_loop_error:
  assumes "udp_loop W x deadline slc attempt left err h = Some (ls, c @ h)" "ls_OK ls"
  shows "ls_Err ls = last_error err (tl (read_answers W c h))"
  using assms
proof (induction left arbitrary: attempt err h c)
  case 0
  then show ?case by (auto simp: stop_silent_def)
next
  case (Suc left)
  let ?c = "attempt_calls W x deadline slc attempt h"
  from Suc.prems obtain r h1 where r: "udp_attempt W x deadline slc attempt err h = Some (r, h1)"
    by (auto split: option.splits)
  show ?case
  proof (cases r)
    case (Stop ls')
    with Suc.prems r have eq: "ls' = ls" "h1 = c @ h" by simp_all
    from r [unfolded Stop eq] show ?thesis
    proof (cases rule: udp_attempt_cases)
      case (answered d)
      then have "c = Read # ?c" by simp
      then show ?thesis using answered(1) by (simp add: stop_answered_def last_error_def)
    qed (use Suc.prems(2) in \<open>auto simp: stop_definitive_def stop_silent_def\<close>)
  next
    case (Retry e)
    note lost = udp_attempt_retry [OF r [unfolded Retry]]
    have loop: "udp_loop W x deadline slc (Suc attempt) left e h1 = Some (ls, c @ h)"
      using Suc.prems(1) r by (simp add: Retry)
    obtain c1 where c1: "c @ h = c1 @ h1" "loop_effect W x deadline (Suc attempt) left ls c1 h1"
      using udp_loop_effect [OF loop] by blast
    then have c: "c = c1 @ Now # CtxErr # Read # ?c" by (simp add: lost(1))
    have "ls_Err ls = last_error e (tl (read_answers W c1 h1))"
      using Suc.IH [of "Suc attempt" e h1 c1] loop Suc.prems(2) by (simp add: c1(1))
    moreover have "read_answers W c h = read_answers W c1 h1 @ [ReadFailed e True]"
      using lost(2) by (simp add: c lost(1))
    moreover have "read_answers W c1 h1 \<noteq> []" using c1(2) Suc.prems(2) by (auto simp: loop_effect_def)
    ultimately show ?thesis by (simp add: last_error_snoc read_error_def)
  qed
qed

text \<open>A panic can only come from the acceptance check.\<close>

definition total_accept :: "udpExchange \<Rightarrow> bool" where
  "total_accept x \<longleftrightarrow> (\<forall>f d. x_accept x = Some f \<longrightarrow> f d \<noteq> None)"

lemma udp_attempt_None:
  "udp_attempt W x deadline slc attempt err h = None \<Longrightarrow> \<exists>f d. x_accept x = Some f \<and> f d = None"
  by (cases "attempt > 0")
    (auto simp: udp_attempt_def loop_unfold
      split: option.splits read_answer.splits verdict.splits if_splits bool.splits)

lemma udp_loop_total:
  assumes "total_accept x"
  shows "udp_loop W x deadline slc attempt left err h \<noteq> None"
proof (induction left arbitrary: attempt err h)
  case (Suc left)
  have "udp_attempt W x deadline slc attempt err h \<noteq> None"
    using udp_attempt_None [of W x deadline slc attempt err h] assms
    unfolding total_accept_def by blast
  then show ?case using Suc.IH by (auto split: attempt_end.split)
qed simp

subsection \<open>A whole run\<close>

lemma udp_wait_cases:
  assumes "udp_wait W x timeout sp h = Some ((phs, reply), h')"
  obtains ls c slc deadline rp where
    "phs = [sp, rp]" "ph_Name rp = x_respPhase x"
    "deadline \<le> w_now W (Now # h) + timeout" "go_div timeout (x_attempts x) = Some slc"
    "ph_OK rp \<longleftrightarrow> ls_OK ls \<or> x_silenceOK x \<and> \<not> ls_definitive ls"
    "ph_Err rp = (if \<not> ls_OK ls \<and> x_silenceOK x \<and> \<not> ls_definitive ls then [] else ls_Err ls)"
    "reply = ls_reply ls"
    "loop_effect W x deadline 0 (nat (x_attempts x)) ls c (Now # Now # h)"
    "udp_loop W x deadline slc 0 (nat (x_attempts x)) [] (Now # Now # h) =
       Some (ls, c @ Now # Now # h)"
    "ph_Duration rp = w_now W (Now # c @ Now # Now # h) - w_now W (Now # Now # h)"
    "h' = CloseConn # Now # c @ Now # Now # h"
proof -
  define deadline where "deadline =
    (case w_ctx_deadline W of
       Some c \<Rightarrow> if c < w_now W (Now # h) + timeout then c else w_now W (Now # h) + timeout
     | None \<Rightarrow> w_now W (Now # h) + timeout)"
  have le: "deadline \<le> w_now W (Now # h) + timeout"
    by (simp add: deadline_def split: option.split)
  from assms obtain slc where slc: "go_div timeout (x_attempts x) = Some slc"
    by (auto simp: udp_wait_def sys_defs split: option.splits)
  from assms slc obtain ls h3 where
    loop: "udp_loop W x deadline slc 0 (nat (x_attempts x)) [] (Now # Now # h) = Some (ls, h3)"
    by (auto simp: udp_wait_def sys_defs deadline_def split: option.splits)
  obtain c where c: "h3 = c @ Now # Now # h"
    "loop_effect W x deadline 0 (nat (x_attempts x)) ls c (Now # Now # h)"
    using udp_loop_effect [OF loop] by blast
  show thesis
  proof (rule that [OF _ _ le slc _ _ _ c(2)])
    show "udp_loop W x deadline slc 0 (nat (x_attempts x)) [] (Now # Now # h) =
        Some (ls, c @ Now # Now # h)"
      using loop c(1) by simp
  qed (use assms slc loop c(1) in \<open>auto simp: udp_wait_def sys_defs deadline_def\<close>)
qed

text \<open>
  The four ends of a run: the socket could not be bound, the write deadline or the first
  datagram failed, or the second phase ran.
\<close>

lemma udp_run_cases:
  assumes "udp_run W x timeout h = Some ((phs, reply), h')"
  obtains (dial) sp where "phs = [sp]" "\<not> ph_OK sp" "ph_Name sp = x_sendPhase x" "reply = []"
      "h' = Now # Dial ''udp'' (x_addr x) timeout # Now # h"
    | (send) sp c where "phs = [sp]" "\<not> ph_OK sp" "ph_Name sp = x_sendPhase x" "reply = []"
      "h' = CloseConn # Now # c @ Now # Dial ''udp'' (x_addr x) timeout # Now # h"
      "set (writes c) \<subseteq> {x_payload x}" "length (writes c) \<le> 1" "reads c = 0"
      "read_deadlines c = []"
    | (waited) sp h1 where "ph_OK sp" "ph_Name sp = x_sendPhase x" "ph_Err sp = []"
      "udp_wait W x timeout sp (h1 @ h) = Some ((phs, reply), h')"
      "writes h1 = [x_payload x]" "reads h1 = 0" "read_deadlines h1 = []"
      "Now # Dial ''udp'' (x_addr x) timeout # Now # [] = drop 4 h1"
proof -
  let ?h3 = "Now # Dial ''udp'' (x_addr x) timeout # Now # h"
  define sp where "sp = \<lparr>ph_Name = x_sendPhase x, ph_OK = False,
    ph_Duration = w_now W ?h3 - w_now W (Now # h), ph_Err = []\<rparr>"
  define wd where "wd = SetWriteDeadline (w_now W (Now # ?h3) + timeout)"
  show thesis
  proof (cases "w_dial W (Dial ''udp'' (x_addr x) timeout # Now # h)")
    case (Some e)
    with assms show thesis by (intro dial) (auto simp: udp_run_def sys_defs)
  next
    case None
    then have run: "udp_send W x timeout (w_now W (Now # h)) sp ?h3 = Some ((phs, reply), h')"
      using assms by (simp add: udp_run_def sys_defs sp_def)
    show thesis
    proof (cases "w_set_wd W (wd # Now # ?h3)")
      case (Some e)
      with run show thesis
        by (intro send [where c = "[wd, Now]"]) (auto simp: udp_send_def sys_defs wd_def sp_def)
    next
      case ok: None
      show thesis
      proof (cases "w_write W (Write (x_payload x) # wd # Now # ?h3)")
        case (Some e)
        with run ok show thesis
          by (intro send [where c = "[Write (x_payload x), wd, Now]"])
            (auto simp: udp_send_def sys_defs wd_def sp_def)
      next
        case None
        define sp1 where "sp1 = sp\<lparr>ph_OK := True,
          ph_Duration := w_now W (Now # Write (x_payload x) # wd # Now # ?h3) - w_now W (Now # h)\<rparr>"
        from run ok None have
          "udp_wait W x timeout sp1 (Now # Write (x_payload x) # wd # Now # ?h3) = Some ((phs, reply), h')"
          by (simp add: udp_send_def sys_defs wd_def sp1_def)
        then show thesis
          by (intro waited [of sp1 "Now # Write (x_payload x) # wd # Now #
                Now # Dial ''udp'' (x_addr x) timeout # [Now]"])
            (auto simp: sp1_def sp_def wd_def)
      qed
    qed
  qed
qed

lemma udp_run_total:
  assumes "x_attempts x \<noteq> 0" "total_accept x"
  shows "\<exists>phs reply h'. udp_run W x timeout h = Some ((phs, reply), h')"
proof -
  obtain slc where "go_div timeout (x_attempts x) = Some slc"
    using go_div_nonzero assms(1) by blast
  then have "udp_wait W x timeout sp h1 \<noteq> None" for sp h1
    using udp_loop_total [OF assms(2)] by (auto simp: udp_wait_def sys_defs split: option.split)
  then have "udp_send W x timeout st sp h1 \<noteq> None" for st sp h1
    by (auto simp: udp_send_def sys_defs split: option.split)
  then have "udp_run W x timeout h \<noteq> None"
    by (auto simp: udp_run_def sys_defs split: option.split)
  then show ?thesis by auto
qed

lemma udp_run_phases:
  assumes "udp_run W x timeout h = Some ((phs, reply), h')"
  shows "phs \<noteq> [] \<and> length phs \<le> 2 \<and> (\<forall>ph \<in> set (butlast phs). ph_OK ph) \<and>
    ph_Name (hd phs) = x_sendPhase x \<and> (\<forall>ph \<in> set (tl phs). ph_Name ph = x_respPhase x)"
  using assms
proof (cases rule: udp_run_cases)
  case (waited sp h1)
  from waited(4) show ?thesis
    by (cases rule: udp_wait_cases) (use waited in auto)
qed auto

text \<open>What a run puts on the wire, and where its read deadlines lie.\<close>

lemma udp_run_datagrams:
  assumes "udp_run W x timeout h = Some ((phs, reply), h')" "0 < x_attempts x"
  shows "\<exists>c. h' = c @ h \<and> set (writes c) \<subseteq> {x_payload x} \<and>
    int (length (writes c)) \<le> x_attempts x"
  using assms(1)
proof (cases rule: udp_run_cases)
  case (dial sp)
  then show ?thesis using assms(2) by (intro exI [of _ "take 3 h'"]) simp
next
  case (send sp c)
  then show ?thesis using assms(2)
    by (intro exI [of _ "CloseConn # Now # c @ [Now, Dial ''udp'' (x_addr x) timeout, Now]"]) auto
next
  case (waited sp h1)
  from waited(4) show ?thesis
  proof (cases rule: udp_wait_cases)
    case (1 ls c slc deadline rp)
    then show ?thesis using waited assms(2)
      by (intro exI [of _ "CloseConn # Now # c @ Now # Now # h1"])
        (auto simp: loop_effect_def nat_le_iff)
  qed
qed

text \<open>
  A passing second phase has a reason: a datagram arrived that the acceptance check took, or
  the probe tolerates silence and every read of the run timed out.
\<close>

lemma read_answers_none: "reads c = 0 \<Longrightarrow> read_answers W c h = []"
  by (induction W c h rule: read_answers.induct) simp_all

lemma udp_run_passed:
  assumes "udp_run W x timeout h = Some (([sp, rp], reply), h')" "ph_OK rp"
  shows "\<exists>c. h' = c @ h \<and>
    ((\<exists>d as. read_answers W c h = Datagram d # as \<and> (\<forall>a \<in> set as. timed_out a) \<and>
        reply = take mtu d \<and> (\<forall>f. x_accept x = Some f \<longrightarrow> f reply = Some Accepted)) \<or>
     x_silenceOK x \<and> reply = [] \<and> ph_Err rp = [] \<and>
       (\<forall>a \<in> set (read_answers W c h). timed_out a))"
  using assms(1)
proof (cases rule: udp_run_cases)
  case (waited sp' h1)
  have h1: "read_answers W h1 h = []" using waited(6) by (rule read_answers_none)
  from waited(4) show ?thesis
  proof (cases rule: udp_wait_cases)
    case (1 ls c slc deadline rp')
    let ?c = "CloseConn # Now # c @ Now # Now # h1"
    have ra: "read_answers W ?c h = read_answers W c (Now # Now # h1 @ h)"
      using h1 by simp
    show ?thesis
    proof (intro exI [of _ ?c] conjI)
      show "h' = ?c @ h" using 1 by simp
      show "(\<exists>d as. read_answers W ?c h = Datagram d # as \<and> (\<forall>a \<in> set as. timed_out a) \<and>
            reply = take mtu d \<and> (\<forall>f. x_accept x = Some f \<longrightarrow> f reply = Some Accepted)) \<or>
          x_silenceOK x \<and> reply = [] \<and> ph_Err rp = [] \<and>
            (\<forall>a \<in> set (read_answers W ?c h). timed_out a)"
        unfolding ra using 1 assms(2)
        by (cases "read_answers W c (Now # Now # h1 @ h)") (auto simp: loop_effect_def)
    qed
  qed
qed auto

text \<open>An answered run reports the error of the last datagram that was lost, or none.\<close>

lemma udp_run_answered:
  assumes "udp_run W x timeout h = Some (([sp, rp], reply), h')" "ph_OK rp" "\<not> x_silenceOK x"
  shows "\<exists>c d as. h' = c @ h \<and> read_answers W c h = Datagram d # as \<and> (\<forall>a \<in> set as. timed_out a) \<and>
    ph_OK sp \<and> ph_Err sp = [] \<and> ph_Err rp = last_error [] as"
  using assms(1)
proof (cases rule: udp_run_cases)
  case (waited sp' h1)
  have h1: "read_answers W h1 h = []" using waited(6) by (rule read_answers_none)
  from waited(4) show ?thesis
  proof (cases rule: udp_wait_cases)
    case (1 ls c slc deadline rp')
    let ?c = "CloseConn # Now # c @ Now # Now # h1"
    have ok: "ls_OK ls" using 1 assms(2,3) by simp
    have ra: "read_answers W ?c h = read_answers W c (Now # Now # h1 @ h)"
      using h1 by simp
    have err: "ls_Err ls = last_error [] (tl (read_answers W c (Now # Now # h1 @ h)))"
      by (rule udp_loop_error [OF 1(9) ok])
    obtain d as where as: "read_answers W ?c h = Datagram d # as"
      using 1(8) ok unfolding ra by (cases "read_answers W c (Now # Now # h1 @ h)") (auto simp: loop_effect_def)
    moreover have "\<forall>a \<in> set as. timed_out a" using 1(8) as unfolding ra by (simp add: loop_effect_def)
    moreover have "ph_Err rp = last_error [] as" using 1(1,6) ok err as unfolding ra by simp
    moreover have "sp = sp'" "h' = ?c @ h" using 1 by simp_all
    ultimately show ?thesis using waited(1,3) by blast
  qed
qed auto

text \<open>Every run begins with a dial to the address of the exchange.\<close>

lemma udp_run_dials:
  assumes "udp_run W x timeout h = Some ((phs, reply), h')"
  shows "\<exists>c. h' = c @ h \<and> Dial ''udp'' (x_addr x) timeout \<in> set c"
  using assms
proof (cases rule: udp_run_cases)
  case (dial sp)
  then show ?thesis by (intro exI [of _ "[Now, Dial ''udp'' (x_addr x) timeout, Now]"]) simp
next
  case (send sp c)
  then show ?thesis
    by (intro exI [of _ "CloseConn # Now # c @ [Now, Dial ''udp'' (x_addr x) timeout, Now]"]) simp
next
  case (waited sp h1)
  have "Dial ''udp'' (x_addr x) timeout \<in> set (drop 4 h1)" by (simp flip: waited(8))
  then have "Dial ''udp'' (x_addr x) timeout \<in> set h1" by (rule in_set_dropD)
  note dialled = this
  from waited(4) show ?thesis
  proof (cases rule: udp_wait_cases)
    case (1 ls c slc deadline rp)
    then show ?thesis using dialled by (intro exI [of _ "CloseConn # Now # c @ Now # Now # h1"]) simp
  qed
qed

subsection \<open>The phase budget\<close>

text \<open>
  \<open>w_now W h\<close> is read as the time after the calls \<open>h\<close>. The clock is \<open>punctual\<close> with
  slack \<open>eps\<close> when it never runs backwards, every call but a dial or a read takes at most
  \<open>eps\<close>, and a read comes back at most \<open>eps\<close> after the deadline set just before it.
\<close>

definition punctual :: "world \<Rightarrow> duration \<Rightarrow> bool" where
  "punctual W eps \<longleftrightarrow> 0 \<le> eps \<and>
     (\<forall>call h. w_now W h \<le> w_now W (call # h)) \<and>
     (\<forall>call h. (case call of Dial n a d \<Rightarrow> True | TlsDial a s d \<Rightarrow> True | Read \<Rightarrow> True
                | _ \<Rightarrow> w_now W (call # h) \<le> w_now W h + eps)) \<and>
     (\<forall>i h. w_now W (Read # SetReadDeadline i # h) \<le> max i (w_now W (SetReadDeadline i # h)) + eps)"

lemma punctual_step:
  assumes "punctual W eps"
  shows "w_now W (Now # h) \<le> w_now W h + eps" "w_now W (Write p # h) \<le> w_now W h + eps"
    "w_now W (SetReadDeadline i # h) \<le> w_now W h + eps" "w_now W (CtxErr # h) \<le> w_now W h + eps"
    "w_now W (Read # SetReadDeadline i # h) \<le> max i (w_now W (SetReadDeadline i # h)) + eps"
    "w_now W h \<le> w_now W (call # h)" "0 \<le> eps"
proof -
  have all: "case call of Dial n a d \<Rightarrow> True | TlsDial a s d \<Rightarrow> True | Read \<Rightarrow> True
      | _ \<Rightarrow> w_now W (call # h) \<le> w_now W h + eps" for call
    using assms by (simp add: punctual_def)
  show "w_now W (Now # h) \<le> w_now W h + eps" "w_now W (Write p # h) \<le> w_now W h + eps"
    "w_now W (SetReadDeadline i # h) \<le> w_now W h + eps" "w_now W (CtxErr # h) \<le> w_now W h + eps"
    using all [of Now] all [of "Write p"] all [of "SetReadDeadline i"] all [of CtxErr] by simp_all
qed (use assms in \<open>simp_all add: punctual_def\<close>)

lemma attempt_calls_time:
  assumes "punctual W eps"
  shows "\<exists>i rest. attempt_calls W x deadline slc attempt h @ h = SetReadDeadline i # rest \<and> i \<le> deadline \<and>
    w_now W (attempt_calls W x deadline slc attempt h @ h) \<le> w_now W h + 3 * eps"
proof -
  define c where "c = (if attempt > 0 then [Write (x_payload x)] else []) @ h"
  have "w_now W c \<le> w_now W h + eps"
    using punctual_step(2,7) [OF assms] by (auto simp: c_def)
  moreover have "w_now W (Now # c) \<le> w_now W c + eps" by (rule punctual_step(1) [OF assms])
  moreover have "w_now W (SetReadDeadline i # Now # c) \<le> w_now W (Now # c) + eps" for i
    by (rule punctual_step(3) [OF assms])
  ultimately have "w_now W (SetReadDeadline i # Now # c) \<le> w_now W h + 3 * eps" for i
    by (auto dest: meta_spec [of _ i])
  then show ?thesis by (auto simp: attempt_calls_def Let_def c_def)
qed

lemma udp_attempt_time:
  assumes "punctual W eps" "udp_attempt W x deadline slc attempt err h = Some (r, h')"
  shows "w_now W h' \<le> max deadline (w_now W h) + 6 * eps"
proof -
  note st = punctual_step [OF assms(1)]
  let ?c = "attempt_calls W x deadline slc attempt h"
  obtain i rest where ac: "?c @ h = SetReadDeadline i # rest" "i \<le> deadline"
    "w_now W (?c @ h) \<le> w_now W h + 3 * eps"
    using attempt_calls_time [OF assms(1)] by metis
  have rd: "w_now W (Read # ?c @ h) \<le> max deadline (w_now W h) + 4 * eps"
    using st(5) [of i rest] ac st(7) unfolding ac(1) by linarith
  have "w_now W (CtxErr # Read # ?c @ h) \<le> w_now W (Read # ?c @ h) + eps"
    "w_now W (Now # CtxErr # Read # ?c @ h) \<le> w_now W (CtxErr # Read # ?c @ h) + eps"
    "w_now W (Write (x_payload x) # h) \<le> w_now W h + eps"
    using st by blast+
  note times = this
  from assms(2) show ?thesis
    by (cases rule: udp_attempt_cases) (use times rd ac(3) st(7) in \<open>auto split: if_splits\<close>)
qed

lemma udp_loop_time:
  assumes "punctual W eps" "udp_loop W x deadline slc attempt left err h = Some (ls, h')"
  shows "w_now W h' \<le> max deadline (w_now W h) + 6 * int left * eps"
  using assms(2)
proof (induction left arbitrary: attempt err h)
  case 0
  then show ?case by simp
next
  case (Suc left)
  have eps: "0 \<le> eps" using assms(1) by (simp add: punctual_def)
  then have nn: "0 \<le> 6 * int left * eps" by simp
  have dist: "6 * int (Suc left) * eps = 6 * int left * eps + 6 * eps" by (simp add: algebra_simps)
  from Suc.prems obtain r h1 where r: "udp_attempt W x deadline slc attempt err h = Some (r, h1)"
    by (auto split: option.splits)
  have step: "w_now W h1 \<le> max deadline (w_now W h) + 6 * eps"
    by (rule udp_attempt_time [OF assms(1) r])
  show ?case
  proof (cases r)
    case (Stop ls')
    with Suc.prems r have "h1 = h'" by simp
    with step have "w_now W h' \<le> max deadline (w_now W h) + 6 * eps" by simp
    with nn show ?thesis unfolding dist by linarith
  next
    case (Retry e)
    with Suc.prems r have "w_now W h' \<le> max deadline (w_now W h1) + 6 * int left * eps"
      by (intro Suc.IH) simp
    with step eps dist show ?thesis by linarith
  qed
qed

lemma udp_run_budget:
  assumes "punctual W eps" "0 \<le> timeout" "0 < x_attempts x"
    and "udp_run W x timeout h = Some (([sp, rp], reply), h')"
  shows "ph_Duration rp \<le> timeout + (6 * x_attempts x + 1) * eps"
  using assms(4)
proof (cases rule: udp_run_cases)
  case (waited sp' h1)
  from waited(4) show ?thesis
  proof (cases rule: udp_wait_cases)
    case (1 ls c slc deadline rp')
    let ?h2 = "Now # Now # h1 @ h"
    have "w_now W (c @ ?h2) \<le> max deadline (w_now W ?h2) + 6 * int (nat (x_attempts x)) * eps"
      by (rule udp_loop_time [OF assms(1) 1(9)])
    moreover have "w_now W (Now # c @ ?h2) \<le> w_now W (c @ ?h2) + eps"
      "w_now W (Now # h1 @ h) \<le> w_now W ?h2"
      using punctual_step [OF assms(1)] by blast+
    moreover have "6 * int (nat (x_attempts x)) * eps = 6 * x_attempts x * eps"
      using assms(3) by simp
    moreover have "(6 * x_attempts x + 1) * eps = 6 * x_attempts x * eps + eps"
      by (simp add: algebra_simps)
    ultimately show ?thesis using 1 assms(2) by auto
  qed
qed auto

subsection \<open>Refinement of an abstract decision\<close>

text \<open>
  What the loop promises, without clock, sockets and traces: go through the answers of the
  attempts in order; a timeout moves on, anything else decides.
\<close>

fun decide :: "(bytes \<Rightarrow> verdict) \<Rightarrow> read_answer list \<Rightarrow> string \<Rightarrow> loop_state" where
  "decide acc [] err = stop_silent err"
| "decide acc (Datagram d # as) err =
     (case acc (take mtu d) of
        Accepted \<Rightarrow> stop_answered err (take mtu d)
      | Rejected e \<Rightarrow> stop_definitive e)"
| "decide acc (ReadFailed e tmo # as) err =
     (if tmo then decide acc as e else stop_definitive e)"

definition accept_fun :: "udpExchange \<Rightarrow> bytes \<Rightarrow> verdict" where
  "accept_fun x d = (case x_accept x of None \<Rightarrow> Accepted | Some f \<Rightarrow> the (f d))"

text \<open>
  A calm world: no local socket error, no cancellation, the phase deadline is not reached
  between two attempts, and the \<open>n\<close>-th read of the socket gets the \<open>n\<close>-th answer.
\<close>

definition calm :: "world \<Rightarrow> instant \<Rightarrow> (nat \<Rightarrow> read_answer) \<Rightarrow> bool" where
  "calm W deadline answer \<longleftrightarrow>
     (\<forall>h. w_write W h = None \<and> w_set_rd W h = None \<and> \<not> w_ctx_err W h \<and> w_now W h < deadline \<and>
          w_read W h = answer (reads h))"

lemma udp_attempt_calm:
  assumes "calm W deadline answer" "total_accept x"
  shows "\<exists>h'. reads h' = Suc (reads h) \<and>
    udp_attempt W x deadline slc attempt err h =
      Some (case answer (Suc (reads h)) of
              Datagram d \<Rightarrow>
                (case accept_fun x (take mtu d) of
                   Accepted \<Rightarrow> Stop (stop_answered err (take mtu d))
                 | Rejected e \<Rightarrow> Stop (stop_definitive e))
            | ReadFailed e tmo \<Rightarrow> if tmo then Retry e else Stop (stop_definitive e), h')"
proof -
  have w: "w_write W h = None" "w_set_rd W h = None" "\<not> w_ctx_err W h" "w_now W h < deadline"
    "w_read W h = answer (reads h)" for h
    using assms(1) by (simp_all add: calm_def)
  have acc: "f d = Some (accept_fun x d)" if "x_accept x = Some f" for f d
    using assms(2) that by (auto simp: total_accept_def accept_fun_def)
  let ?ac = "Read # attempt_calls W x deadline slc attempt h @ h"
  have rd: "reads ?ac = Suc (reads h)" "reads (Now # CtxErr # ?ac) = Suc (reads h)"
    by (simp_all add: attempt_calls_def Let_def)
  have res: "resend W x attempt h = (None, (if attempt > 0 then [Write (x_payload x)] else []) @ h)"
    by (simp add: resend_def sys_defs w)
  have ans: "w_read W ?ac = answer (Suc (reads h))"
    using w(5) [of ?ac] rd(1) by simp
  show ?thesis
  proof (cases "answer (Suc (reads h))")
    case (Datagram d)
    have "udp_attempt W x deadline slc attempt err h =
        Some (case accept_fun x (take mtu d) of
                Accepted \<Rightarrow> Stop (stop_answered err (take mtu d))
              | Rejected e \<Rightarrow> Stop (stop_definitive e), ?ac)"
    proof (cases "x_accept x")
      case None
      then show ?thesis using ans Datagram
        by (simp add: udp_attempt_def res sys_read_def sys_defs w(1-4) attempt_calls_def accept_fun_def)
    next
      case (Some f)
      then have "f (take mtu d) = Some (accept_fun x (take mtu d))" by (rule acc)
      then show ?thesis using ans Datagram Some
        by (simp add: udp_attempt_def res sys_read_def sys_defs w(1-4) attempt_calls_def
            split: verdict.split)
    qed
    then show ?thesis using rd(1) Datagram by auto
  next
    case (ReadFailed e tmo)
    have "udp_attempt W x deadline slc attempt err h =
        (if tmo then Some (Retry e, Now # CtxErr # ?ac) else Some (Stop (stop_definitive e), ?ac))"
      using ans ReadFailed
      by (simp add: udp_attempt_def res sys_read_def sys_defs w(1-4) attempt_calls_def)
    then show ?thesis using rd ReadFailed by (cases tmo) auto
  qed
qed

lemma udp_loop_refines:
  assumes "calm W deadline answer" "total_accept x"
  shows "\<exists>h'. udp_loop W x deadline slc attempt left err h =
    Some (decide (accept_fun x) (map answer [Suc (reads h)..<Suc (reads h) + left]) err, h')"
proof (induction left arbitrary: attempt err h)
  case (Suc left)
  obtain h1 where h1: "reads h1 = Suc (reads h)" and
    step: "udp_attempt W x deadline slc attempt err h =
      Some (case answer (Suc (reads h)) of
              Datagram d \<Rightarrow>
                (case accept_fun x (take mtu d) of
                   Accepted \<Rightarrow> Stop (stop_answered err (take mtu d))
                 | Rejected e \<Rightarrow> Stop (stop_definitive e))
            | ReadFailed e tmo \<Rightarrow> if tmo then Retry e else Stop (stop_definitive e), h1)"
    using udp_attempt_calm [OF assms] by blast
  have upt: "[Suc (reads h)..<Suc (reads h) + Suc left] =
      Suc (reads h) # [Suc (reads h1)..<Suc (reads h1) + left]"
    by (simp add: h1 upt_conv_Cons)
  show ?case
    unfolding upt using step Suc.IH [of "Suc attempt" _ h1]
    by (auto split: read_answer.split verdict.split)
qed simp

text \<open>
  In particular, lost datagrams are tolerated up to the last attempt; the error the loop state
  carries is then still the timeout of the attempt before.
\<close>

lemma decide_lost_then_answered:
  assumes "acc (take mtu d) = Accepted"
  shows "decide acc (map (\<lambda>e. ReadFailed e True) es @ Datagram d # as) err =
    stop_answered (last (err # es)) (take mtu d)"
  using assms by (induction es arbitrary: err) auto

end
