(* ===== verification/ProberUdp.thy ===== *)
theory ProberUdp
  imports UdpExchange Codec
begin

text \<open>
  The protocol-agnostic UDP prober (prober_udp.go): its parameters, their validation, and the
  probe, which is one \<open>udpExchange\<close> that takes any datagram for an answer.
\<close>

definition phaseUDPSend :: string where "phaseUDPSend = ''udp''"
definition phaseUDPResponse :: string where "phaseUDPResponse = ''response''"

definition defaultUDPAttempts :: int where "defaultUDPAttempts = 3"
definition maxUDPAttempts :: int where "maxUDPAttempts = 10"

subsection \<open>Parameters\<close>

record udpParams =
  up_Payload :: string
  up_PayloadHex :: string
  up_Attempts :: int

definition udp_fields :: "udpParams fields" where
  "udp_fields =
     [(''payload'', store_string (\<lambda>v p. p\<lparr>up_Payload := v\<rparr>)),
      (''payload_hex'', store_string (\<lambda>v p. p\<lparr>up_PayloadHex := v\<rparr>)),
      (''attempts'', store_int (\<lambda>v p. p\<lparr>up_Attempts := v\<rparr>))]"

definition udp_zero :: udpParams where
  "udp_zero = \<lparr>up_Payload = [], up_PayloadHex = [], up_Attempts = 0\<rparr>"

text \<open>The attempt count both UDP-based probers read: zero selects the default.\<close>

definition check_attempts :: "int \<Rightarrow> go_error + int" where
  "check_attempts n =
     (if n = 0 then Inr defaultUDPAttempts
      else if n < 0 then Inl (AttemptsNotPositive n)
      else if n > maxUDPAttempts then Inl (AttemptsTooMany n)
      else Inr n)"

definition udp_payload :: "udpParams \<Rightarrow> go_error + bytes" where
  "udp_payload p =
     (if up_Payload p \<noteq> [] \<and> up_PayloadHex p \<noteq> [] then Inl BothPayloads
      else if up_PayloadHex p \<noteq> [] then
        (case hex_decode (up_PayloadHex p) of Inl e \<Rightarrow> Inl (PayloadHexErr e) | Inr bs \<Rightarrow> Inr bs)
      else if up_Payload p \<noteq> [] then Inr (bytes_of (up_Payload p))
      else Inr [0])"

definition parseUDPParams :: "json option \<Rightarrow> go_error + (bytes \<times> int)" where
  "parseUDPParams raw =
     (case (case raw of None \<Rightarrow> Inr udp_zero | Some j \<Rightarrow> decode_struct True udp_fields udp_zero j) of
        Inl e \<Rightarrow> Inl (ParamsJson (JsonE e))
      | Inr p \<Rightarrow>
          (case udp_payload p of
             Inl e \<Rightarrow> Inl e
           | Inr payload \<Rightarrow>
               (case check_attempts (up_Attempts p) of
                  Inl e \<Rightarrow> Inl e
                | Inr attempts \<Rightarrow> Inr (payload, attempts))))"

lemma check_attempts_bounds: "check_attempts n = Inr a \<Longrightarrow> 1 \<le> a \<and> a \<le> 10"
  by (auto simp: check_attempts_def defaultUDPAttempts_def maxUDPAttempts_def split: if_splits)

lemma udp_payload_nonempty: "udp_payload p = Inr bs \<Longrightarrow> bs \<noteq> []"
  by (auto simp: udp_payload_def dest: hex_decode_length split: if_splits sum.splits)

lemma parseUDPParams_bounds:
  "parseUDPParams raw = Inr (payload, attempts) \<Longrightarrow> payload \<noteq> [] \<and> 1 \<le> attempts \<and> attempts \<le> 10"
  by (auto simp: parseUDPParams_def split: sum.splits
      dest!: check_attempts_bounds udp_payload_nonempty)

subsection \<open>The prober\<close>

definition udp_kind :: string where "udp_kind = ''udp''"

definition udp_validate :: "world \<Rightarrow> target \<Rightarrow> trace \<Rightarrow> go_error option \<times> trace" where
  "udp_validate W t h =
     (if t_Addr t = [] then Some AddrRequired
      else (case parseUDPParams (t_Params t) of Inl e \<Rightarrow> Some e | Inr v \<Rightarrow> None), h)"

text \<open>An outcome whose only phase is a failed send, for a target that skipped validation.\<close>

definition config_failure :: "world \<Rightarrow> go_error \<Rightarrow> phase" where
  "config_failure W e =
     \<lparr>ph_Name = phaseUDPSend, ph_OK = False, ph_Duration = 0, ph_Err = err_text W e\<rparr>"

definition udp_exchange_of :: "target \<Rightarrow> bytes \<Rightarrow> int \<Rightarrow> udpExchange" where
  "udp_exchange_of t payload attempts =
     \<lparr>x_addr = t_Addr t, x_payload = payload, x_attempts = attempts,
      x_sendPhase = phaseUDPSend, x_respPhase = phaseUDPResponse,
      x_accept = None, x_silenceOK = False\<rparr>"

definition udp_probe ::
  "world \<Rightarrow> target \<Rightarrow> duration \<Rightarrow> trace \<Rightarrow> (outcome \<times> trace) option" where
  "udp_probe W t timeout h =
     (case parseUDPParams (t_Params t) of
        Inl e \<Rightarrow> Some (empty_outcome\<lparr>o_Phases := [config_failure W e]\<rparr>, h)
      | Inr (payload, attempts) \<Rightarrow>
          (case udp_run W (udp_exchange_of t payload attempts) timeout h of
             None \<Rightarrow> None
           | Some ((phs, reply), h') \<Rightarrow> Some (empty_outcome\<lparr>o_Phases := phs\<rparr>, h')))"

lemma udp_exchange_of_simps [simp]:
  "x_addr (udp_exchange_of t p n) = t_Addr t" "x_payload (udp_exchange_of t p n) = p"
  "x_attempts (udp_exchange_of t p n) = n" "x_sendPhase (udp_exchange_of t p n) = phaseUDPSend"
  "x_respPhase (udp_exchange_of t p n) = phaseUDPResponse" "x_accept (udp_exchange_of t p n) = None"
  "x_silenceOK (udp_exchange_of t p n) \<longleftrightarrow> False" "total_accept (udp_exchange_of t p n)"
  by (simp_all add: udp_exchange_of_def total_accept_def)

lemma empty_outcome_simps [simp]:
  "o_Phases (empty_outcome\<lparr>o_Phases := phs\<rparr>) = phs" "o_TLS empty_outcome = None"
  "o_NoLivenessClaim empty_outcome \<longleftrightarrow> False"
  by (simp_all add: empty_outcome_def)

lemma udp_run_extends:
  "udp_run W x timeout h = Some ((phs, reply), h') \<Longrightarrow> \<exists>c. h' = c @ h"
  using udp_run_dials by blast

lemma udp_probe_total: "\<exists>o' h'. udp_probe W t timeout h = Some (o', h')"
proof (cases "parseUDPParams (t_Params t)")
  case (Inr v)
  obtain payload attempts where v: "v = (payload, attempts)" by (cases v)
  then have "attempts \<noteq> 0" using parseUDPParams_bounds Inr by fastforce
  then obtain phs reply h' where
    "udp_run W (udp_exchange_of t payload attempts) timeout h = Some ((phs, reply), h')"
    using udp_run_total [of "udp_exchange_of t payload attempts" W timeout h] by auto
  then show ?thesis by (simp add: udp_probe_def Inr v)
qed (simp add: udp_probe_def)

lemma udp_probe_phases:
  assumes "udp_probe W t timeout h = Some (o', h')"
  shows "stops_at_failure o'" "o_TLS o' = None" "\<not> o_NoLivenessClaim o'" "\<exists>c. h' = c @ h"
    "\<forall>ph \<in> set (o_Phases o'). ph_Name ph \<in> {phaseUDPSend, phaseUDPResponse}"
proof -
  from assms consider (config) e where "o' = empty_outcome\<lparr>o_Phases := [config_failure W e]\<rparr>" "h' = h"
    | (run) payload attempts phs reply where "o' = empty_outcome\<lparr>o_Phases := phs\<rparr>"
      "udp_run W (udp_exchange_of t payload attempts) timeout h = Some ((phs, reply), h')"
    by (auto simp: udp_probe_def split: sum.splits option.splits prod.splits)
  note ends = this
  show "o_TLS o' = None" using ends by cases auto
  show "\<not> o_NoLivenessClaim o'" using ends by cases auto
  show "\<exists>c. h' = c @ h" using ends by cases (auto dest: udp_run_extends)
  show "stops_at_failure o'"
    using ends by cases (auto simp: stops_at_failure_def dest: udp_run_phases)
  show "\<forall>ph \<in> set (o_Phases o'). ph_Name ph \<in> {phaseUDPSend, phaseUDPResponse}"
    using ends
  proof cases
    case run
    then have "ph_Name (hd phs) = phaseUDPSend" "\<forall>ph \<in> set (tl phs). ph_Name ph = phaseUDPResponse"
      by (auto dest: udp_run_phases)
    then show ?thesis using run(1) by (cases phs) auto
  qed (simp add: config_failure_def)
qed

interpretation udp: prober udp_validate udp_probe
proof
  fix W t h h1 assume "udp_validate W t h = (None, h1)"
  then show "t_Addr t \<noteq> []" by (simp add: udp_validate_def split: if_splits)
next
  fix W t h e h1 assume "udp_validate W t h = (e, h1)"
  then show "\<exists>c. h1 = c @ h" by (simp add: udp_validate_def)
qed (simp_all add: udp_probe_total udp_probe_phases(1,4))

text \<open>With parameters that can be used, a probe goes to the network.\<close>

lemma udp_probe_dials:
  assumes "udp_probe W t timeout h = Some (o', h')" "parseUDPParams (t_Params t) = Inr v"
  shows "\<exists>c. h' = c @ h \<and> Dial ''udp'' (t_Addr t) timeout \<in> set c"
  using assms udp_run_dials by (fastforce simp: udp_probe_def split: option.splits prod.splits)

text \<open>A passing probe was answered, and its second phase tells of the last datagram that was lost.\<close>

lemma udp_probe_answered:
  assumes "udp_probe W t timeout h = Some (o', h')" "\<forall>ph \<in> set (o_Phases o'). ph_OK ph"
  shows "\<exists>c d as sp rp. h' = c @ h \<and> read_answers W c h = Datagram d # as \<and> (\<forall>a \<in> set as. timed_out a) \<and>
    o_Phases o' = [sp, rp] \<and> ph_OK sp \<and> ph_OK rp \<and> ph_Err sp = [] \<and> ph_Err rp = last_error [] as"
proof -
  obtain payload attempts where v: "parseUDPParams (t_Params t) = Inr (payload, attempts)"
    using assms by (cases "parseUDPParams (t_Params t)") (auto simp: udp_probe_def config_failure_def)
  then obtain phs reply where run: "udp_run W (udp_exchange_of t payload attempts) timeout h = Some ((phs, reply), h')"
    "o_Phases o' = phs"
    using assms(1) by (auto simp: udp_probe_def split: option.splits)
  obtain sp rp where phs: "phs = [sp, rp]"
    using run(1)
  proof (cases rule: udp_run_cases)
    case (waited sp h1)
    from waited(4) show ?thesis by (cases rule: udp_wait_cases) (rule that)
  qed (use assms(2) run(2) in auto)
  then have "ph_OK rp" using assms(2) run(2) by simp
  with udp_run_answered [OF run(1) [unfolded phs]] run(2) phs show ?thesis by auto
qed

text \<open>Any non-empty datagram can be configured as a hexadecimal payload, and the payload of a UDP
  target is then exactly those bytes.\<close>

lemma udp_payload_hex:
  "parseUDPParams (Some (JObj [(''payload_hex'', JStr (hex_bytes (b # bs)))])) = Inr (b # bs, 3)"
proof -
  have "hex_bytes (b # bs) \<noteq> []" by (simp add: hex_byte_def)
  then show ?thesis
    by (simp add: parseUDPParams_def decode_struct_def udp_fields_def find_field_def store_string_def
        udp_zero_def udp_payload_def check_attempts_def defaultUDPAttempts_def fold_char_def Let_def
        codec_simps del: hex_bytes_simps)
qed

end
