(* ===== verification/ProberWg.thy ===== *)
theory ProberWg
  imports WgNoise ProberUdp
begin

text \<open>
  The WireGuard prober (prober_wireguard.go): its parameters, the initiator's identity, the
  checks on a reply, and the probe, which sends a real handshake initiation through the shared
  UDP exchange.
\<close>

definition phaseWGHandshake :: string where "phaseWGHandshake = ''handshake''"
definition phaseWGInitiationSent :: string where "phaseWGInitiationSent = ''initiation-sent''"

definition wgMsgResponse :: byte where "wgMsgResponse = 2"
definition wgMsgCookieReply :: byte where "wgMsgCookieReply = 3"
definition wgResponseSize :: nat where "wgResponseSize = 92"
definition wgCookieReplySize :: nat where "wgCookieReplySize = 64"

definition wgPrivateKeyEnv :: string where "wgPrivateKeyEnv = ''NODECHECK_WG_PRIVATE_KEY''"

lemmas wg_constants = wgMsgInitiation_def wgMsgResponse_def wgMsgCookieReply_def
  wgInitiationSize_def wgResponseSize_def wgCookieReplySize_def wgKeySize_def wgMACSize_def

subsection \<open>Parameters\<close>

record wgParams =
  wp_PublicKey :: string
  wp_Attempts :: int
  wp_AllowAnonymous :: bool

record wgConfig =
  wc_peer :: bytes
  wc_attempts :: int
  wc_anonymous :: bool

definition wg_fields :: "wgParams fields" where
  "wg_fields =
     [(''public_key'', store_string (\<lambda>v p. p\<lparr>wp_PublicKey := v\<rparr>)),
      (''attempts'', store_int (\<lambda>v p. p\<lparr>wp_Attempts := v\<rparr>)),
      (''allow_anonymous'', store_bool (\<lambda>v p. p\<lparr>wp_AllowAnonymous := v\<rparr>))]"

definition wg_zero :: wgParams where
  "wg_zero = \<lparr>wp_PublicKey = [], wp_Attempts = 0, wp_AllowAnonymous = False\<rparr>"

text \<open>
  The public key: base64 of 32 bytes. \<open>ecdh.X25519().NewPublicKey\<close> and \<open>NewPrivateKey\<close> check
  nothing but the length, so after the length check they cannot fail.
\<close>

definition wg_peer_key :: "string \<Rightarrow> go_error + bytes" where
  "wg_peer_key s =
     (if s = [] then Inl PublicKeyRequired
      else (case b64_decode s of
              Inl e \<Rightarrow> Inl (PublicKeyErr e)
            | Inr key \<Rightarrow>
                if length key \<noteq> wgKeySize then Inl (PublicKeySize (length key)) else Inr key))"

definition parseWGParams :: "json option \<Rightarrow> go_error + wgConfig" where
  "parseWGParams raw =
     (case raw of
        None \<Rightarrow> Inl PublicKeyRequired
      | Some j \<Rightarrow>
          (case decode_struct True wg_fields wg_zero j of
             Inl e \<Rightarrow> Inl (ParamsJson (JsonE e))
           | Inr p \<Rightarrow>
               (case wg_peer_key (wp_PublicKey p) of
                  Inl e \<Rightarrow> Inl e
                | Inr peer \<Rightarrow>
                    (case check_attempts (wp_Attempts p) of
                       Inl e \<Rightarrow> Inl e
                     | Inr attempts \<Rightarrow>
                         Inr \<lparr>wc_peer = peer, wc_attempts = attempts,
                              wc_anonymous = wp_AllowAnonymous p\<rparr>))))"

lemma wg_peer_key_length: "wg_peer_key s = Inr key \<Longrightarrow> length key = 32"
  by (auto simp: wg_peer_key_def wgKeySize_def split: if_splits sum.splits)

lemma parseWGParams_bounds:
  "parseWGParams raw = Inr cfg \<Longrightarrow>
     length (wc_peer cfg) = 32 \<and> 1 \<le> wc_attempts cfg \<and> wc_attempts cfg \<le> 10"
  by (auto simp: parseWGParams_def dest: check_attempts_bounds wg_peer_key_length
      split: option.splits sum.splits)

subsection \<open>The initiator's identity\<close>

definition wgParsePrivateKey :: "string \<Rightarrow> go_error + bytes" where
  "wgParsePrivateKey raw =
     (case b64_decode raw of
        Inl e \<Rightarrow> Inl (PrivateKeyErr e)
      | Inr key \<Rightarrow> if length key \<noteq> wgKeySize then Inl (PrivateKeySize (length key)) else Inr key)"

definition wgIdentity :: "world \<Rightarrow> bool \<Rightarrow> trace \<Rightarrow> (go_error + bytes) \<times> trace" where
  "wgIdentity W anonymous h =
     (let raw = w_getenv W wgPrivateKeyEnv
      in if raw = [] then
           if \<not> anonymous then (Inl NeedsRegisteredPeer, h)
           else (case sys_rand W 32 h of
                   (Inl e, h1) \<Rightarrow> (Inl (KeyGenErr e), h1)
                 | (Inr key, h1) \<Rightarrow> (Inr key, h1))
         else (wgParsePrivateKey raw, h))"

lemma wgIdentity_key: "wgIdentity W anon h = (Inr key, h1) \<Longrightarrow> length key = 32"
  by (auto simp: wgIdentity_def wgParsePrivateKey_def wgKeySize_def Let_def
      split: if_splits sum.splits prod.splits dest: sys_rand_length)

lemma wgIdentity_trace: "wgIdentity W anon h = (r, h1) \<Longrightarrow> h1 = h \<or> h1 = Rand 32 # h"
  by (auto simp: wgIdentity_def Let_def split: if_splits sum.splits prod.splits dest: sys_rand_trace)

text \<open>Without a registered key only an anonymous target gets an identity.\<close>

lemma wgIdentity_registered:
  "w_getenv W wgPrivateKeyEnv = [] \<Longrightarrow> wgIdentity W False h = (Inl NeedsRegisteredPeer, h)"
  by (simp add: wgIdentity_def)

definition wg_kind :: string where "wg_kind = ''wireguard''"

definition wg_validate :: "world \<Rightarrow> target \<Rightarrow> trace \<Rightarrow> go_error option \<times> trace" where
  "wg_validate W t h =
     (if t_Addr t = [] then (Some AddrRequired, h)
      else (case parseWGParams (t_Params t) of
              Inl e \<Rightarrow> (Some e, h)
            | Inr cfg \<Rightarrow>
                (case wgIdentity W (wc_anonymous cfg) h of
                   (Inl e, h1) \<Rightarrow> (Some e, h1)
                 | (Inr static, h1) \<Rightarrow> (None, h1))))"

subsection \<open>Checking a reply\<close>

text \<open>\<open>%#08x\<close>: \<open>0x\<close> and eight hexadecimal digits.\<close>

definition hex32 :: "32 word \<Rightarrow> string" where
  "hex32 w = ''0x'' @ hex_bytes (put_u32_be w)"

text \<open>
  The branches of \<open>validateResponse\<close>, one error text each. Reading \<open>reply[0]\<close> and slicing
  \<open>reply[8:12]\<close> is checked: the result is \<open>None\<close> if the code would panic.
\<close>

definition not_wireguard :: "byte \<Rightarrow> nat \<Rightarrow> string" where
  "not_wireguard ty n =
     ''not a WireGuard handshake response: message type '' @ show_nat (unat ty) @ '', '' @
     show_nat n @ '' bytes''"

definition validateResponse :: "wgInitiation \<Rightarrow> bytes \<Rightarrow> verdict option" where
  "validateResponse init reply =
     (if length reply = 0 then Some (Rejected ''empty datagram'')
      else (case go_index reply 0 of
              None \<Rightarrow> None
            | Some ty \<Rightarrow>
                if ty = wgMsgResponse then
                  if length reply \<noteq> wgResponseSize then
                    Some (Rejected (''handshake response is '' @ show_nat (length reply) @
                      '' bytes, want '' @ show_nat wgResponseSize))
                  else (case go_slice reply 8 12 of
                          None \<Rightarrow> None
                        | Some index \<Rightarrow>
                            let got = get_u32_le index
                            in if got \<noteq> wi_senderIndex init then
                                 Some (Rejected (''handshake response is for session '' @ hex32 got @
                                   '', ours is '' @ hex32 (wi_senderIndex init)))
                               else Some Accepted)
                else if ty = wgMsgCookieReply then
                  if length reply = wgCookieReplySize then
                    Some (Rejected (''cookie reply: the responder is under load and requires mac2, '' @
                      ''which this probe does not implement''))
                  else Some (Rejected (''malformed cookie reply: '' @ show_nat (length reply) @
                         '' bytes, want '' @ show_nat wgCookieReplySize))
                else Some (Rejected (not_wireguard ty (length reply)))))"

definition acceptAnonymous :: "wgInitiation \<Rightarrow> bytes \<Rightarrow> verdict option" where
  "acceptAnonymous init reply =
     (case validateResponse init reply of
        None \<Rightarrow> None
      | Some Accepted \<Rightarrow> Some Accepted
      | Some (Rejected e) \<Rightarrow>
          if length reply \<noteq> wgCookieReplySize then Some (Rejected e)
          else (case go_index reply 0 of
                  None \<Rightarrow> None
                | Some ty \<Rightarrow>
                    if ty = wgMsgCookieReply then Some Accepted else Some (Rejected e)))"

lemma validateResponse_total: "\<exists>v. validateResponse init reply = Some v"
  by (auto simp: validateResponse_def wg_constants panic_simps Let_def)

text \<open>The specification of the check: type, length and echoed session index.\<close>

definition answers :: "wgInitiation \<Rightarrow> bytes \<Rightarrow> bool" where
  "answers init reply \<longleftrightarrow>
     length reply = 92 \<and> take 1 reply = [2] \<and>
     get_u32_le (take 4 (drop 8 reply)) = wi_senderIndex init"

definition cookie_reply :: "bytes \<Rightarrow> bool" where
  "cookie_reply reply \<longleftrightarrow> length reply = 64 \<and> take 1 reply = [3]"

lemma take_1_eq: "take (Suc 0) xs = [x] \<longleftrightarrow> xs \<noteq> [] \<and> xs ! 0 = x"
  by (cases xs) auto

lemma validateResponse_iff: "validateResponse init reply = Some Accepted \<longleftrightarrow> answers init reply"
  by (cases "reply = []")
    (auto simp: validateResponse_def answers_def take_1_eq wg_constants panic_simps Let_def)

lemma acceptAnonymous_total: "\<exists>v. acceptAnonymous init reply = Some v"
  using validateResponse_total [of init reply]
  by (auto simp: acceptAnonymous_def wg_constants panic_simps split: verdict.split)

lemma acceptAnonymous_iff:
  "acceptAnonymous init reply = Some Accepted \<longleftrightarrow> answers init reply \<or> cookie_reply reply"
proof -
  obtain v where v: "validateResponse init reply = Some v" using validateResponse_total by blast
  show ?thesis
  proof (cases v)
    case Accepted
    then show ?thesis using v validateResponse_iff [of init reply]
      by (simp add: acceptAnonymous_def)
  next
    case (Rejected e)
    then have "\<not> answers init reply" using v validateResponse_iff [of init reply] by simp
    then show ?thesis using v Rejected
      by (auto simp: acceptAnonymous_def cookie_reply_def take_1_eq wg_constants panic_simps)
  qed
qed

subsection \<open>The probe\<close>

definition wg_exchange :: "target \<Rightarrow> wgConfig \<Rightarrow> wgInitiation \<Rightarrow> udpExchange" where
  "wg_exchange t cfg msg =
     (let x = \<lparr>x_addr = t_Addr t, x_payload = wi_packet msg, x_attempts = wc_attempts cfg,
               x_sendPhase = phaseUDPSend, x_respPhase = phaseWGHandshake,
               x_accept = Some (validateResponse msg), x_silenceOK = False\<rparr>
      in if wc_anonymous cfg
         then x\<lparr>x_respPhase := phaseWGInitiationSent, x_accept := Some (acceptAnonymous msg),
                 x_silenceOK := True\<rparr>
         else x)"

definition wg_probe ::
  "world \<Rightarrow> target \<Rightarrow> duration \<Rightarrow> trace \<Rightarrow> (outcome \<times> trace) option" where
  "wg_probe W t timeout h =
     (case parseWGParams (t_Params t) of
        Inl e \<Rightarrow> Some (empty_outcome\<lparr>o_Phases := [config_failure W e]\<rparr>, h)
      | Inr cfg \<Rightarrow>
          (let out = empty_outcome\<lparr>o_NoLivenessClaim := wc_anonymous cfg\<rparr>
           in (case wgIdentity W (wc_anonymous cfg) h of
                 (Inl e, h1) \<Rightarrow> Some (out\<lparr>o_Phases := [config_failure W e]\<rparr>, h1)
               | (Inr static, h1) \<Rightarrow>
                   (let (now, h2) = sys_now W h1
                    in (case buildWGInitiation W (wc_peer cfg) static now h2 of
                          (Inl e, h3) \<Rightarrow> Some (out\<lparr>o_Phases := [config_failure W e]\<rparr>, h3)
                        | (Inr msg, h3) \<Rightarrow>
                            (case udp_run W (wg_exchange t cfg msg) timeout h3 of
                               None \<Rightarrow> None
                             | Some ((phs, reply), h4) \<Rightarrow> Some (out\<lparr>o_Phases := phs\<rparr>, h4)))))))"

lemma wg_exchange_fields [simp]:
  "x_addr (wg_exchange t cfg msg) = t_Addr t"
  "x_payload (wg_exchange t cfg msg) = wi_packet msg"
  "x_attempts (wg_exchange t cfg msg) = wc_attempts cfg"
  "x_sendPhase (wg_exchange t cfg msg) = phaseUDPSend"
  "x_respPhase (wg_exchange t cfg msg) =
     (if wc_anonymous cfg then phaseWGInitiationSent else phaseWGHandshake)"
  "x_accept (wg_exchange t cfg msg) =
     Some (if wc_anonymous cfg then acceptAnonymous msg else validateResponse msg)"
  "x_silenceOK (wg_exchange t cfg msg) = wc_anonymous cfg"
  "total_accept (wg_exchange t cfg msg)"
  using validateResponse_total acceptAnonymous_total
  by (auto simp: wg_exchange_def total_accept_def Let_def)

lemma buildWGInitiation_trace:
  "buildWGInitiation W peer static now h = (r, h') \<Longrightarrow> \<exists>c. h' = c @ h"
  by (auto simp: buildWGInitiation_def dest!: sys_rand_trace split: sum.splits prod.splits)

text \<open>The ends of a probe: a failure before the network, or a run of the exchange.\<close>

lemma wg_probe_cases:
  assumes "wg_probe W t timeout h = Some (o', h')"
  obtains (params) e where "parseWGParams (t_Params t) = Inl e"
      "o' = empty_outcome\<lparr>o_Phases := [config_failure W e]\<rparr>" "h' = h"
    | (early) cfg e where "parseWGParams (t_Params t) = Inr cfg"
      "o' = empty_outcome\<lparr>o_NoLivenessClaim := wc_anonymous cfg, o_Phases := [config_failure W e]\<rparr>"
      "\<exists>c. h' = c @ h" "w_getenv W wgPrivateKeyEnv = [] \<Longrightarrow> wc_anonymous cfg \<or> h' = h"
    | (run) cfg static h1 msg h3 phs reply where "parseWGParams (t_Params t) = Inr cfg"
      "wgIdentity W (wc_anonymous cfg) h = (Inr static, h1)"
      "buildWGInitiation W (wc_peer cfg) static (w_now W (Now # h1)) (Now # h1) = (Inr msg, h3)"
      "udp_run W (wg_exchange t cfg msg) timeout h3 = Some ((phs, reply), h')"
      "o' = empty_outcome\<lparr>o_NoLivenessClaim := wc_anonymous cfg, o_Phases := phs\<rparr>"
proof (cases "parseWGParams (t_Params t)")
  case (Inl e)
  then show thesis using assms by (intro params) (auto simp: wg_probe_def)
next
  case (Inr cfg)
  obtain r h1 where id: "wgIdentity W (wc_anonymous cfg) h = (r, h1)" by fastforce
  have ext: "\<exists>c. h1 = c @ h" using wgIdentity_trace [OF id] by auto
  show thesis
  proof (cases r)
    case (Inl e)
    then show thesis using assms \<open>parseWGParams _ = _\<close> id ext wgIdentity_registered [of W h]
      by (intro early [of cfg e]) (auto simp: wg_probe_def)
  next
    case static: (Inr static)
    obtain r2 h3 where b: "buildWGInitiation W (wc_peer cfg) static (w_now W (Now # h1)) (Now # h1) =
        (r2, h3)" by fastforce
    have ext3: "\<exists>c. h3 = c @ h" using buildWGInitiation_trace [OF b] ext by auto
    show thesis
    proof (cases r2)
      case (Inl e)
      then show thesis using assms \<open>parseWGParams _ = _\<close> id static b ext3 wgIdentity_registered [of W h]
        by (intro early [of cfg e]) (auto simp: wg_probe_def sys_now_def)
    next
      case (Inr msg)
      then obtain phs reply where
        "udp_run W (wg_exchange t cfg msg) timeout h3 = Some ((phs, reply), h')"
        "o' = empty_outcome\<lparr>o_NoLivenessClaim := wc_anonymous cfg, o_Phases := phs\<rparr>"
        using assms \<open>parseWGParams _ = _\<close> id static b
        by (auto simp: wg_probe_def sys_now_def split: option.splits)
      then show thesis using run \<open>parseWGParams _ = _\<close> id static b Inr by metis
    qed
  qed
qed

lemma wg_probe_total: "\<exists>o' h'. wg_probe W t timeout h = Some (o', h')"
proof -
  have run: "udp_run W (wg_exchange t cfg msg) timeout h3 \<noteq> None"
    if "parseWGParams (t_Params t) = Inr cfg" for cfg msg h3
    using udp_run_total [of "wg_exchange t cfg msg" W timeout h3] parseWGParams_bounds [OF that]
    by auto
  have "wg_probe W t timeout h \<noteq> None"
    by (auto simp: wg_probe_def Let_def run split: sum.splits prod.splits option.splits)
  then show ?thesis by auto
qed

lemma wg_outcome_simps [simp]:
  "o_Phases (empty_outcome\<lparr>o_NoLivenessClaim := b, o_Phases := phs\<rparr>) = phs"
  "o_NoLivenessClaim (empty_outcome\<lparr>o_NoLivenessClaim := b, o_Phases := phs\<rparr>) = b"
  "o_TLS (empty_outcome\<lparr>o_NoLivenessClaim := b, o_Phases := phs\<rparr>) = None"
  by (simp_all add: empty_outcome_def)

text \<open>The routing of a target depends on its parameters only, not on how far its probe gets.\<close>

definition wg_anonymous :: "target \<Rightarrow> bool" where
  "wg_anonymous t =
     (case parseWGParams (t_Params t) of Inl e \<Rightarrow> False | Inr cfg \<Rightarrow> wc_anonymous cfg)"

lemma wg_probe_shape:
  assumes "wg_probe W t timeout h = Some (o', h')"
  shows "stops_at_failure o' \<and> (\<exists>c. h' = c @ h) \<and> o_TLS o' = None \<and>
    o_NoLivenessClaim o' = wg_anonymous t \<and>
    (\<forall>ph \<in> set (o_Phases o'). ph_Name ph \<in>
       {phaseUDPSend, if wg_anonymous t then phaseWGInitiationSent else phaseWGHandshake})"
  using assms
proof (cases rule: wg_probe_cases)
  case (run cfg static h1 msg h3 phs reply)
  note phs = udp_run_phases [OF run(4)]
  have "\<exists>c. h' = c @ h"
    using udp_run_extends [OF run(4)] buildWGInitiation_trace [OF run(3)] wgIdentity_trace [OF run(2)]
    by auto
  then show ?thesis using phs run(1,5)
    by (cases phs) (auto simp: wg_anonymous_def stops_at_failure_def)
qed (auto simp: stops_at_failure_def wg_anonymous_def config_failure_def)

lemma wg_probe_outcome:
  assumes "wg_probe W t timeout h = Some (o', h')"
  shows "stops_at_failure o'" "\<exists>c. h' = c @ h" "o_TLS o' = None"
    "o_NoLivenessClaim o' = wg_anonymous t"
    "\<forall>ph \<in> set (o_Phases o'). ph_Name ph \<in>
       {phaseUDPSend, if wg_anonymous t then phaseWGInitiationSent else phaseWGHandshake}"
  using wg_probe_shape [OF assms] by blast+

interpretation wg: prober wg_validate wg_probe
proof
  fix W t h h1 assume "wg_validate W t h = (None, h1)"
  then show "t_Addr t \<noteq> []" by (simp add: wg_validate_def split: if_splits)
next
  fix W t h e h1 assume "wg_validate W t h = (e, h1)"
  then show "\<exists>c. h1 = c @ h"
    by (auto simp: wg_validate_def split: if_splits sum.splits prod.splits dest!: wgIdentity_trace)
qed (simp_all add: wg_probe_total wg_probe_outcome(1,2))

text \<open>
  A target that is not anonymous passes validation only with a usable key in the environment,
  so its probe is never sent under an identity the node cannot know. While the random source
  works, that and usable parameters are all validation asks for.
\<close>

definition wg_identity_available :: "world \<Rightarrow> bool \<Rightarrow> bool" where
  "wg_identity_available W anonymous \<longleftrightarrow>
     (if w_getenv W wgPrivateKeyEnv = [] then anonymous
      else (case wgParsePrivateKey (w_getenv W wgPrivateKeyEnv) of Inl _ \<Rightarrow> False | Inr _ \<Rightarrow> True))"

definition wg_usable :: "world \<Rightarrow> target \<Rightarrow> bool" where
  "wg_usable W t \<longleftrightarrow>
     t_Addr t \<noteq> [] \<and>
     (case parseWGParams (t_Params t) of
        Inl _ \<Rightarrow> False | Inr cfg \<Rightarrow> wg_identity_available W (wc_anonymous cfg))"

definition rand_works :: "world \<Rightarrow> bool" where
  "rand_works W \<longleftrightarrow> (\<forall>h. \<exists>bs. w_rand W h = Inr bs)"

lemma wgIdentity_available:
  "wgIdentity W anon h = (Inr key, h1) \<Longrightarrow> wg_identity_available W anon"
  by (auto simp: wgIdentity_def wg_identity_available_def Let_def split: if_splits sum.splits)

lemma available_wgIdentity:
  assumes "wg_identity_available W anon" "rand_works W"
  shows "\<exists>key h1. wgIdentity W anon h = (Inr key, h1)"
proof -
  obtain bs where "w_rand W (Rand 32 # h) = Inr bs" using assms(2) by (auto simp: rand_works_def)
  then show ?thesis using assms(1)
    by (auto simp: wgIdentity_def wg_identity_available_def sys_rand_def Let_def
        split: if_splits sum.splits)
qed

lemma wg_validate_usable:
  "wg_validate W t h = (None, h1) \<Longrightarrow> wg_usable W t"
  by (auto simp: wg_validate_def wg_usable_def split: if_splits sum.splits prod.splits
      dest: wgIdentity_available)

lemma usable_wg_validate:
  assumes "wg_usable W t" "rand_works W"
  shows "\<exists>h1. wg_validate W t h = (None, h1)"
proof -
  obtain cfg where cfg: "parseWGParams (t_Params t) = Inr cfg" "wg_identity_available W (wc_anonymous cfg)"
    using assms(1) by (auto simp: wg_usable_def split: sum.splits)
  obtain key h1 where "wgIdentity W (wc_anonymous cfg) h = (Inr key, h1)"
    using available_wgIdentity [OF cfg(2) assms(2)] by blast
  then show ?thesis using assms(1) cfg by (simp add: wg_validate_def wg_usable_def)
qed

text \<open>
  A usable target goes to the network, unless the random source fails or the peer's key is one the
  key agreement refuses, which validation does not look at.
\<close>

definition keys_agree :: "world \<Rightarrow> target \<Rightarrow> bool" where
  "keys_agree W t \<longleftrightarrow>
     (\<forall>cfg k. parseWGParams (t_Params t) = Inr cfg \<longrightarrow> length k = 32 \<longrightarrow>
        (\<exists>s. cr_ecdh (w_crypto W) k (wc_peer cfg) = Inr s))"

lemma rand_works_sys: "rand_works W \<Longrightarrow> \<exists>bs. sys_rand W n h = (Inr bs, Rand n # h) \<and> length bs = n"
  unfolding rand_works_def sys_rand_def by (auto dest!: spec [of _ "Rand n # h"] split: sum.split)

lemma wg_probe_dials:
  assumes "wg_probe W t timeout h = Some (o', h')" "wg_usable W t"
    and "rand_works W" "crypto_ok (w_crypto W)" "keys_agree W t"
  shows "\<exists>c. h' = c @ h \<and> Dial ''udp'' (t_Addr t) timeout \<in> set c"
proof -
  obtain cfg where cfg: "parseWGParams (t_Params t) = Inr cfg" "wg_identity_available W (wc_anonymous cfg)"
    using assms(2) by (auto simp: wg_usable_def split: sum.splits)
  obtain static h1 where id: "wgIdentity W (wc_anonymous cfg) h = (Inr static, h1)"
    using available_wgIdentity [OF cfg(2) assms(3)] by blast
  obtain eph where eph: "sys_rand W 32 (Now # h1) = (Inr eph, Rand 32 # Now # h1)" "length eph = 32"
    using rand_works_sys [OF assms(3)] by blast
  obtain idx where idx: "sys_rand W 4 (Rand 32 # Now # h1) = (Inr idx, Rand 4 # Rand 32 # Now # h1)"
    using rand_works_sys [OF assms(3)] by blast
  have agree: "\<exists>s. cr_ecdh (w_crypto W) k (wc_peer cfg) = Inr s" if "length k = 32" for k
    using assms(5) cfg(1) that unfolding keys_agree_def by blast
  obtain s1 where s1: "cr_ecdh (w_crypto W) eph (wc_peer cfg) = Inr s1" using agree [OF eph(2)] by blast
  obtain s2 where s2: "cr_ecdh (w_crypto W) static (wc_peer cfg) = Inr s2"
    using agree [OF wgIdentity_key [OF id]] by blast
  obtain msg where msg: "assemble_initiation (w_crypto W) (wc_peer cfg) static (w_now W (Now # h1)) eph idx = Inr msg"
    using assemble_total [OF assms(4) s1 s2] by blast
  obtain c1 where c1: "h1 = c1 @ h" using wgIdentity_trace [OF id] by auto
  obtain phs reply where run: "udp_run W (wg_exchange t cfg msg) timeout (Rand 4 # Rand 32 # Now # h1) = Some ((phs, reply), h')"
    using assms(1) cfg(1) id eph(1) idx msg
    by (auto simp: wg_probe_def buildWGInitiation_def sys_now_def Let_def split: option.splits)
  obtain c where "h' = c @ Rand 4 # Rand 32 # Now # h1" "Dial ''udp'' (t_Addr t) timeout \<in> set c"
    using udp_run_dials [OF run] by auto
  then show ?thesis by (intro exI [of _ "c @ [Rand 4, Rand 32, Now] @ c1"]) (simp add: c1)
qed

text \<open>A peer key written in base64 is read back byte for byte if it has 32 bytes, and refused with
  its length otherwise.\<close>

lemma wireguard_public_key:
  "parseWGParams (Some (JObj [(''public_key'', JStr (b64_encode (k # ks)))])) =
     (if length (k # ks) = 32
      then Inr \<lparr>wc_peer = k # ks, wc_attempts = 3, wc_anonymous = False\<rparr>
      else Inl (PublicKeySize (length (k # ks))))"
proof -
  have "b64_encode (k # ks) \<noteq> []"
    by (cases "k # ks" rule: b64_encode.cases) (simp_all add: Let_def)
  then show ?thesis
    by (simp add: parseWGParams_def decode_struct_def wg_fields_def find_field_def store_string_def
        wg_zero_def wg_peer_key_def check_attempts_def defaultUDPAttempts_def fold_char_def Let_def
        codec_simps wgKeySize_def)
qed

end
