(* ===== verification/Registry.thy ===== *)
theory Registry
  imports ProberTls ProberWg
begin

text \<open>
  The registry of probers and \<open>probe\<close> (prober.go): which prober serves a target, and what is
  reported when none does.

  An interface value is the record of its methods. The registry is a Go map from kinds to
  probers; it is kept as the list of its entries, and \<open>proberKinds\<close> sorts the keys.
\<close>

subsection \<open>Registration\<close>

record prober_ops =
  pr_Kind :: string
  pr_Validate :: "world \<Rightarrow> target \<Rightarrow> trace \<Rightarrow> go_error option \<times> trace"
  pr_Probe :: "world \<Rightarrow> target \<Rightarrow> duration \<Rightarrow> trace \<Rightarrow> (outcome \<times> trace) option"

type_synonym registry = "(string \<times> prober_ops) list"

text \<open>Registering a kind twice panics.\<close>

definition register :: "prober_ops \<Rightarrow> registry \<Rightarrow> registry option" where
  "register p reg =
     (case map_of reg (pr_Kind p) of
        Some _ \<Rightarrow> None
      | None \<Rightarrow> Some ((pr_Kind p, p) # reg))"

definition tls_ops :: prober_ops where
  "tls_ops = \<lparr>pr_Kind = tls_kind, pr_Validate = tls_validate, pr_Probe = tls_probe\<rparr>"

definition udp_ops :: prober_ops where
  "udp_ops = \<lparr>pr_Kind = udp_kind, pr_Validate = udp_validate, pr_Probe = udp_probe\<rparr>"

definition wg_ops :: prober_ops where
  "wg_ops = \<lparr>pr_Kind = wg_kind, pr_Validate = wg_validate, pr_Probe = wg_probe\<rparr>"

text \<open>The \<open>init\<close> functions of the three prober files, in file order.\<close>

fun register_all :: "prober_ops list \<Rightarrow> registry \<Rightarrow> registry option" where
  "register_all [] reg = Some reg"
| "register_all (p # ps) reg =
     (case register p reg of None \<Rightarrow> None | Some reg' \<Rightarrow> register_all ps reg')"

definition init_probers :: "registry option" where
  "init_probers = register_all [tls_ops, udp_ops, wg_ops] []"

definition probers :: registry where
  "probers = (case init_probers of None \<Rightarrow> [] | Some reg \<Rightarrow> reg)"

definition proberKinds :: "registry \<Rightarrow> string list" where
  "proberKinds reg = sort (map fst reg)"

definition kind_of :: "target \<Rightarrow> string" where
  "kind_of t = (if t_Proto t = [] then defaultProto else t_Proto t)"

definition proberFor :: "registry \<Rightarrow> target \<Rightarrow> go_error + prober_ops" where
  "proberFor reg t =
     (let kind = kind_of t
      in (case map_of reg kind of
            None \<Rightarrow> Inl (UnknownProto kind (proberKinds reg))
          | Some p \<Rightarrow> Inr p))"

lemma register_keys:
  assumes "register p reg = Some reg'" "distinct (map fst reg)" "\<forall>e \<in> set reg. pr_Kind (snd e) = fst e"
  shows "distinct (map fst reg')" "\<forall>e \<in> set reg'. pr_Kind (snd e) = fst e"
    "proberFor reg' t = (if kind_of t = pr_Kind p then Inr p
       else (case map_of reg (kind_of t) of
               None \<Rightarrow> Inl (UnknownProto (kind_of t) (proberKinds reg'))
             | Some q \<Rightarrow> Inr q))"
  using assms
proof -
  have reg': "pr_Kind p \<notin> fst ` set reg" "reg' = (pr_Kind p, p) # reg"
    using assms(1) by (auto simp: register_def map_of_eq_None_iff split: option.splits)
  show "distinct (map fst reg')" "\<forall>e \<in> set reg'. pr_Kind (snd e) = fst e"
    using reg' assms(2,3) by auto
  show "proberFor reg' t = (if kind_of t = pr_Kind p then Inr p
       else (case map_of reg (kind_of t) of
               None \<Rightarrow> Inl (UnknownProto (kind_of t) (proberKinds reg'))
             | Some q \<Rightarrow> Inr q))"
    using reg' by (auto simp: proberFor_def Let_def)
qed

lemma register_panics_iff: "register p reg = None \<longleftrightarrow> pr_Kind p \<in> fst ` set reg"
  using map_of_eq_None_iff [of reg "pr_Kind p"] by (auto simp: register_def split: option.splits)

lemma probers_eq:
  "init_probers = Some probers"
  "probers = [(wg_kind, wg_ops), (udp_kind, udp_ops), (tls_kind, tls_ops)]"
  by (simp_all add: probers_def init_probers_def register_def tls_ops_def udp_ops_def wg_ops_def
      tls_kind_def udp_kind_def wg_kind_def)

lemma proberFor_cases:
  "proberFor probers t =
     (if kind_of t = ''tls'' then Inr tls_ops
      else if kind_of t = ''udp'' then Inr udp_ops
      else if kind_of t = ''wireguard'' then Inr wg_ops
      else Inl (UnknownProto (kind_of t) (proberKinds probers)))"
  by (simp add: proberFor_def probers_eq(2) tls_kind_def udp_kind_def wg_kind_def Let_def)

subsection \<open>Every registered prober keeps the contract\<close>

lemma registered:
  assumes "proberFor probers t = Inr p"
  obtains "p = tls_ops" | "p = udp_ops" | "p = wg_ops"
  using assms by (auto simp: proberFor_cases split: if_splits)

lemmas ops_simps = tls_ops_def udp_ops_def wg_ops_def

lemma registered_total:
  "proberFor probers t = Inr p \<Longrightarrow> \<exists>o' h'. pr_Probe p W t d h = Some (o', h')"
  by (erule registered) (simp_all add: ops_simps tls_probe_total udp_probe_total wg_probe_total)

lemma registered_stops:
  "proberFor probers t = Inr p \<Longrightarrow> pr_Probe p W t d h = Some (o', h') \<Longrightarrow> stops_at_failure o'"
  by (erule registered) (simp_all add: ops_simps tls.run_stops udp.run_stops wg.run_stops)

lemma registered_extends:
  "proberFor probers t = Inr p \<Longrightarrow> pr_Probe p W t d h = Some (o', h') \<Longrightarrow> \<exists>c. h' = c @ h"
  by (erule registered) (simp_all add: ops_simps tls.run_extends udp.run_extends wg.run_extends)

lemma registered_addr:
  "proberFor probers t = Inr p \<Longrightarrow> pr_Validate p W t h = (None, h1) \<Longrightarrow> t_Addr t \<noteq> []"
  by (erule registered)
    (auto simp: ops_simps dest: tls.validate_addr udp.validate_addr wg.validate_addr)

lemma registered_verdict:
  assumes "proberFor probers t = Inr p" "pr_Probe p W t d h = Some (o', h')" "toResult t o' = Some r"
  shows "r_OK r = ph_OK (last (o_Phases o'))"
    and "r_Error r = (if r_OK r then []
           else ph_Name (last (o_Phases o')) @ '': '' @ ph_Err (last (o_Phases o')))"
  using assms
  by (cases rule: registered [OF assms(1)];
      simp add: ops_simps tls.result_verdict udp.result_verdict wg.result_verdict)+

subsection \<open>Probing one target\<close>

definition probe :: "world \<Rightarrow> target \<Rightarrow> duration \<Rightarrow> trace \<Rightarrow> (result \<times> trace) option" where
  "probe W t timeout h =
     (case proberFor probers t of
        Inl e \<Rightarrow> Some ((newResult t)\<lparr>r_Error := ''config: '' @ err_text W e\<rparr>, h)
      | Inr p \<Rightarrow>
          (case pr_Probe p W t timeout h of
             None \<Rightarrow> None
           | Some (o', h') \<Rightarrow>
               (case toResult t o' of None \<Rightarrow> None | Some r \<Rightarrow> Some (r, h'))))"

lemma probe_cases:
  assumes "probe W t timeout h = Some (r, h')"
  obtains (config) e where "proberFor probers t = Inl e" "h' = h"
      "r = (newResult t)\<lparr>r_Error := ''config: '' @ err_text W e\<rparr>"
    | (probed) p o' where "proberFor probers t = Inr p" "pr_Probe p W t timeout h = Some (o', h')"
      "toResult t o' = Some r"
  using assms by (auto simp: probe_def split: sum.splits option.splits)

lemma probe_total: "\<exists>r h'. probe W t timeout h = Some (r, h')"
proof (cases "proberFor probers t")
  case (Inr p)
  then show ?thesis
    using registered_total [OF Inr, of W timeout h] by (auto simp: probe_def toResult_eq)
qed (simp add: probe_def)

text \<open>A result is a success exactly when it carries no error.\<close>

lemma probe_ok_iff_no_error:
  assumes "probe W t timeout h = Some (r, h')"
  shows "r_OK r \<longleftrightarrow> r_Error r = []"
  using assms
proof (cases rule: probe_cases)
  case (probed p o')
  then show ?thesis using registered_verdict [OF probed] by auto
qed (simp add: newResult_def)

lemma probe_identity:
  assumes "probe W t timeout h = Some (r, h')"
  shows "t_Name (r_Target r) = t_Name t" "t_Addr (r_Target r) = t_Addr t"
    "t_Region (r_Target r) = t_Region t" "t_Provider (r_Target r) = t_Provider t"
    "t_Proto (r_Target r) = t_Proto t" "t_Params (r_Target r) = None"
  using assms
  by (cases rule: probe_cases;
      auto simp: newResult_def toResult_eq result_simps split: option.splits if_splits)+

text \<open>The family a result belongs to follows from the target's protocol alone.\<close>

definition liveness_claim :: "target \<Rightarrow> bool" where
  "liveness_claim t \<longleftrightarrow> \<not> (kind_of t = ''wireguard'' \<and> wg_anonymous t)"

lemma probe_family:
  assumes "probe W t timeout h = Some (r, h')"
  shows "r_noLivenessClaim r \<longleftrightarrow> \<not> liveness_claim t"
  using assms
proof (cases rule: probe_cases)
  case (config e)
  then show ?thesis by (auto simp: newResult_def liveness_claim_def proberFor_cases split: if_splits)
next
  case (probed p o')
  then have "r_noLivenessClaim r = o_NoLivenessClaim o'" by (auto simp: toResult_eq result_simps)
  also have "\<dots> \<longleftrightarrow> \<not> liveness_claim t"
    using probed(1,2) tls_probe_liveness udp_probe_phases(3) wg_probe_outcome(4)
    by (auto simp: proberFor_cases liveness_claim_def ops_simps split: if_splits)
  finally show ?thesis .
qed

lemma tls_probe_legacy: "tls_probe W t d h = Some (o', h') \<Longrightarrow> usesLegacyPhases o'"
  by (erule tls_probe_cases) (auto simp: usesLegacyPhases_def uses_legacy_iff)

lemma udp_probe_not_legacy: "udp_probe W t d h = Some (o', h') \<Longrightarrow> \<not> usesLegacyPhases o'"
  using udp_probe_phases(5) [of W t d h o' h']
  by (auto simp: usesLegacyPhases_def uses_legacy_iff phase_names phaseUDPSend_def phaseUDPResponse_def)

lemma wg_probe_not_legacy: "wg_probe W t d h = Some (o', h') \<Longrightarrow> \<not> usesLegacyPhases o'"
  using wg_probe_outcome(5) [of W t d h o' h']
  by (auto simp: usesLegacyPhases_def uses_legacy_iff phase_names phaseUDPSend_def
      phaseWGInitiationSent_def phaseWGHandshake_def split: if_splits)

text \<open>The fields only a TCP+TLS probe has are there for exactly those targets.\<close>

definition legacy_present :: "result \<Rightarrow> bool list" where
  "legacy_present r =
     [r_TCPOK r \<noteq> None, r_TLSOK r \<noteq> None, r_CertMatch r \<noteq> None, r_TCPTime r \<noteq> None,
      r_TLSTime r \<noteq> None]"

lemma toResult_legacy:
  assumes "toResult t o' = Some r"
  shows "legacy_present r = replicate 5 (usesLegacyPhases o')"
    and "r_Phases r = (if usesLegacyPhases o' then [] else map to_phaseJSON (o_Phases o'))"
  using assms
  by (cases "usesLegacyPhases o'";
      auto simp: toResult_eq legacy_present_def result_simps eval_nat_numeral split: option.splits)+

lemma probe_legacy:
  assumes "probe W t timeout h = Some (r, h')"
  shows "legacy_present r = replicate 5 (kind_of t = ''tls'')"
  using assms
proof (cases rule: probe_cases)
  case (config e)
  then show ?thesis
    by (auto simp: newResult_def legacy_present_def proberFor_cases eval_nat_numeral split: if_splits)
next
  case (probed p o')
  have "usesLegacyPhases o' \<longleftrightarrow> kind_of t = ''tls''"
    using probed(1,2) tls_probe_legacy udp_probe_not_legacy wg_probe_not_legacy
    by (auto simp: proberFor_cases ops_simps split: if_splits)
  with toResult_legacy(1) [OF probed(3)] show ?thesis by simp
qed

text \<open>The three probers register without a clash, and a target is given the prober of its
  protocol, TLS if it names none; any other protocol is an error that lists the known ones.\<close>

lemma prober_registry:
  "init_probers = Some probers \<and> proberKinds probers = [''tls'', ''udp'', ''wireguard''] \<and>
   proberFor probers t =
     (if t_Proto t \<in> {[], ''tls''} then Inr tls_ops
      else if t_Proto t = ''udp'' then Inr udp_ops
      else if t_Proto t = ''wireguard'' then Inr wg_ops
      else Inl (UnknownProto (t_Proto t) [''tls'', ''udp'', ''wireguard'']))"
proof -
  have "proberKinds probers = [''tls'', ''udp'', ''wireguard'']"
    by (simp add: proberKinds_def probers_eq(2) tls_kind_def udp_kind_def wg_kind_def less_char_def of_char_of)
  then show ?thesis by (auto simp: probers_eq(1) proberFor_cases kind_of_def defaultProto_def)
qed

end
