(* ===== verification/JsonString.thy ===== *)
theory JsonString
  imports Json
begin

text \<open>
  String literals of \<open>encoding/json\<close>: what \<open>appendString\<close> writes, with the HTML escapes of
  \<open>Marshal\<close> and \<open>Encoder\<close>, what \<open>unquote\<close> reads, and that reading back what was written
  yields the string, with every byte that is no UTF-8 replaced by U+FFFD.
\<close>

subsection \<open>UTF-8\<close>

text \<open>
  \<open>utf8.DecodeRune\<close> as far as it is used: the number of bytes of the well-formed rune at the
  front, \<open>None\<close> for an invalid byte (or an empty string).
\<close>

fun in_ranges :: "(nat \<times> nat) list \<Rightarrow> string \<Rightarrow> bool" where
  "in_ranges [] cs = True"
| "in_ranges (r # rs) [] = False"
| "in_ranges ((lo, hi) # rs) (c # cs) = (lo \<le> of_char c \<and> of_char c \<le> hi \<and> in_ranges rs cs)"

definition continuations :: "nat \<Rightarrow> (nat \<times> nat) list option" where
  "continuations n =
     (if n < 128 then Some []
      else if 194 \<le> n \<and> n \<le> 223 then Some [(128, 191)]
      else if 224 \<le> n \<and> n \<le> 239 then
        Some [(if n = 224 then 160 else 128, if n = 237 then 159 else 191), (128, 191)]
      else if 240 \<le> n \<and> n \<le> 244 then
        Some [(if n = 240 then 144 else 128, if n = 244 then 143 else 191), (128, 191), (128, 191)]
      else None)"

fun rune_size :: "string \<Rightarrow> nat option" where
  "rune_size [] = None"
| "rune_size (c # cs) =
     (case continuations (of_char c) of
        None \<Rightarrow> None
      | Some rs \<Rightarrow> if in_ranges rs cs then Some (Suc (length rs)) else None)"

text \<open>A string as its runes; \<open>None\<close> is an invalid byte.\<close>

function runes :: "string \<Rightarrow> string option list" where
  "runes [] = []"
| "runes (c # cs) =
     (case rune_size (c # cs) of
        None \<Rightarrow> None # runes cs
      | Some k \<Rightarrow> Some (take k (c # cs)) # runes (drop (k - 1) cs))"
  by pat_completeness auto
termination
  by (relation "measure length") auto

definition replacement :: string where
  "replacement = [CHR 0xEF, CHR 0xBF, CHR 0xBD]"

definition rune_text :: "string option \<Rightarrow> string" where
  "rune_text r = (case r of None \<Rightarrow> replacement | Some bs \<Rightarrow> bs)"

definition sanitize :: "string \<Rightarrow> string" where
  "sanitize s = concat (map rune_text (runes s))"

definition valid_utf8 :: "string \<Rightarrow> bool" where
  "valid_utf8 s \<longleftrightarrow> list_all (\<lambda>r. r \<noteq> None) (runes s)"

definition is_rune :: "string \<Rightarrow> bool" where
  "is_rune bs \<longleftrightarrow> rune_size bs = Some (length bs)"

lemma in_ranges_append:
  "in_ranges rs cs \<Longrightarrow> length rs \<le> length cs \<and> in_ranges rs (take (length rs) cs @ ys)"
  by (induction rs cs rule: in_ranges.induct) auto

lemma rune_size_prefix:
  assumes "rune_size s = Some k"
  shows "0 < k \<and> k \<le> length s \<and> rune_size (take k s @ ys) = Some k"
proof (cases s)
  case (Cons c cs)
  with assms obtain rs where rs: "continuations (of_char c) = Some rs" "in_ranges rs cs" "k = Suc (length rs)"
    by (auto split: option.splits if_splits)
  with in_ranges_append [OF rs(2)] show ?thesis by (simp add: Cons)
qed (use assms in simp)

lemma rune_size_is_rune: "rune_size s = Some k \<Longrightarrow> is_rune (take k s)"
  using rune_size_prefix [of s k "[]"] by (simp add: is_rune_def min_absorb2)

lemma runes_are_runes: "Some bs \<in> set (runes s) \<Longrightarrow> is_rune bs"
  by (induction s rule: runes.induct) (auto split: option.splits simp del: rune_size.simps
      dest: rune_size_is_rune)

lemma is_rune_append: "is_rune bs \<Longrightarrow> rune_size (bs @ ys) = Some (length bs)"
  using rune_size_prefix [of bs "length bs" ys] by (simp add: is_rune_def)

lemma sanitize_valid: "valid_utf8 s \<Longrightarrow> sanitize s = s"
proof (induction s rule: runes.induct)
  case (2 c cs)
  then obtain k where k: "rune_size (c # cs) = Some k"
    by (auto simp: valid_utf8_def simp del: rune_size.simps split: option.splits)
  with 2 have "sanitize (drop (k - 1) cs) = drop (k - 1) cs"
    by (simp add: valid_utf8_def del: rune_size.simps)
  moreover have "k > 0" using rune_size_prefix [OF k] by simp
  ultimately show ?case using k
    by (cases k) (simp_all add: sanitize_def rune_text_def del: rune_size.simps)
qed (simp add: sanitize_def)

lemma runes_replacement: "runes (replacement @ s) = Some replacement # runes s"
  by (simp add: replacement_def continuations_def)

lemma runes_append_rune: "is_rune bs \<Longrightarrow> runes (bs @ s) = Some bs # runes s"
  using is_rune_append [of bs s]
  by (cases bs) (simp_all add: is_rune_def del: rune_size.simps, simp)

lemma rune_text_is_rune: "r \<in> set (runes s) \<Longrightarrow> is_rune (rune_text r)"
  by (cases r) (auto simp: rune_text_def replacement_def is_rune_def continuations_def
      dest: runes_are_runes [unfolded is_rune_def])

lemma runes_concat:
  "list_all is_rune rs \<Longrightarrow> runes (concat rs) = map Some rs"
  by (induction rs) (simp_all add: runes_append_rune)

text \<open>The replacement is itself valid, so sanitizing twice changes nothing.\<close>

lemma valid_sanitize: "valid_utf8 (sanitize s)"
  using runes_concat [of "map rune_text (runes s)"]
  by (simp add: valid_utf8_def sanitize_def list_all_iff rune_text_is_rune)

definition ascii :: "string \<Rightarrow> bool" where
  "ascii s \<longleftrightarrow> list_all (\<lambda>c. (of_char c :: nat) < 128) s"

lemma ascii_valid: "ascii s \<Longrightarrow> valid_utf8 s"
  by (induction s) (auto simp: ascii_def valid_utf8_def continuations_def)

subsection \<open>Writing a literal\<close>

definition dquote :: char where "dquote = CHR 0x22"
definition bslash :: char where "bslash = CHR 0x5C"

text \<open>\<open>htmlSafeSet\<close> and the escapes of everything outside it.\<close>

definition escape_ascii :: "char \<Rightarrow> string" where
  "escape_ascii c =
     (let n = of_char c :: nat
      in if c = dquote \<or> c = bslash then [bslash, c]
         else if n = 8 then bslash # ''b''
         else if n = 12 then bslash # ''f''
         else if n = 10 then bslash # ''n''
         else if n = 13 then bslash # ''r''
         else if n = 9 then bslash # ''t''
         else if n < 32 \<or> n = 60 \<or> n = 62 \<or> n = 38
         then bslash # ''u00'' @ [hex_digit (n div 16), hex_digit (n mod 16)]
         else [c])"

text \<open>U+2028 and U+2029 are line terminators in JavaScript and escaped for its sake.\<close>

definition quote_rune :: "string option \<Rightarrow> string" where
  "quote_rune r =
     (case r of
        None \<Rightarrow> bslash # ''ufffd''
      | Some [c] \<Rightarrow> escape_ascii c
      | Some bs \<Rightarrow>
          if bs = [CHR 0xE2, CHR 0x80, CHR 0xA8] then bslash # ''u2028''
          else if bs = [CHR 0xE2, CHR 0x80, CHR 0xA9] then bslash # ''u2029''
          else bs)"

definition quote :: "string \<Rightarrow> string" where
  "quote s = dquote # concat (map quote_rune (runes s)) @ [dquote]"

subsection \<open>Reading a literal\<close>

definition hex_value :: "char \<Rightarrow> nat option" where
  "hex_value c =
     (let n = of_char c :: nat
      in if 48 \<le> n \<and> n \<le> 57 then Some (n - 48)
         else if 97 \<le> n \<and> n \<le> 102 then Some (n - 87)
         else if 65 \<le> n \<and> n \<le> 70 then Some (n - 55)
         else None)"

text \<open>The four digits of a \<open>\u\<close> escape.\<close>

definition four_hex :: "string \<Rightarrow> nat option" where
  "four_hex s =
     (case s of
        a # b # c # d # _ \<Rightarrow>
          (case (hex_value a, hex_value b, hex_value c, hex_value d) of
             (Some i, Some j, Some k, Some l) \<Rightarrow> Some (((i * 16 + j) * 16 + k) * 16 + l)
           | _ \<Rightarrow> None)
      | _ \<Rightarrow> None)"

text \<open>\<open>utf8.EncodeRune\<close>.\<close>

definition encode_rune :: "nat \<Rightarrow> string" where
  "encode_rune r =
     (if r < 128 then [char_of r]
      else if r < 2048 then [char_of (192 + r div 64), char_of (128 + r mod 64)]
      else if r < 65536 then
        [char_of (224 + r div 4096), char_of (128 + r div 64 mod 64), char_of (128 + r mod 64)]
      else
        [char_of (240 + r div 262144), char_of (128 + r div 4096 mod 64),
         char_of (128 + r div 64 mod 64), char_of (128 + r mod 64)])"

text \<open>
  A \<open>\u\<close> escape after its letter: the bytes it stands for and how many characters it took. Two
  surrogate halves make one rune, a lone one is replaced.
\<close>

definition low_half :: "string \<Rightarrow> nat option" where
  "low_half s =
     (case s of
        b # u # s' \<Rightarrow>
          if b = bslash \<and> u = CHR ''u'' then
            (case four_hex s' of
               Some r \<Rightarrow> if 56320 \<le> r \<and> r < 57344 then Some r else None
             | None \<Rightarrow> None)
          else None
      | _ \<Rightarrow> None)"

definition unicode_escape :: "string \<Rightarrow> (string \<times> nat) option" where
  "unicode_escape s =
     (case four_hex s of
        None \<Rightarrow> None
      | Some r \<Rightarrow>
          if 55296 \<le> r \<and> r < 57344 then
            (case (if r < 56320 then low_half (drop 4 s) else None) of
               Some r1 \<Rightarrow> Some (encode_rune ((r - 55296) * 1024 + (r1 - 56320) + 65536), 10)
             | None \<Rightarrow> Some (replacement, 4))
          else Some (encode_rune r, 4))"

definition simple_escape :: "char \<Rightarrow> char option" where
  "simple_escape c =
     (if c = dquote \<or> c = bslash \<or> c = CHR ''/'' then Some c
      else if c = CHR ''b'' then Some (char_of (8 :: nat))
      else if c = CHR ''f'' then Some (char_of (12 :: nat))
      else if c = CHR ''n'' then Some (char_of (10 :: nat))
      else if c = CHR ''r'' then Some (char_of (13 :: nat))
      else if c = CHR ''t'' then Some (char_of (9 :: nat))
      else None)"

text \<open>
  One item of a literal, a rune or an escape: its bytes and the number of characters it takes.
  \<open>None\<close> is a syntax error.
\<close>

definition literal_item :: "string \<Rightarrow> (string \<times> nat) option" where
  "literal_item s =
     (case s of
        [] \<Rightarrow> None
      | c # cs \<Rightarrow>
          if c = bslash then
            (case cs of
               [] \<Rightarrow> None
             | e # cs' \<Rightarrow>
                 if e = CHR ''u'' then map_option (\<lambda>(bs, k). (bs, k + 2)) (unicode_escape cs')
                 else map_option (\<lambda>c'. ([c'], 2)) (simple_escape e))
          else if (of_char c :: nat) < 32 then None
          else (case rune_size s of
                  None \<Rightarrow> Some (replacement, 1)
                | Some k \<Rightarrow> Some (take k s, k)))"

text \<open>A literal after its opening quote: the string and what follows the closing quote.\<close>

function unquote :: "string \<Rightarrow> (string \<times> string) option" where
  "unquote [] = None"
| "unquote (c # cs) =
     (if c = dquote then Some ([], cs)
      else (case literal_item (c # cs) of
              None \<Rightarrow> None
            | Some (bs, k) \<Rightarrow> map_option (\<lambda>(s, t). (bs @ s, t)) (unquote (drop (k - 1) cs))))"
  by pat_completeness auto
termination
  by (relation "measure length") auto

declare unquote.simps [simp del]

lemma unquote_shorter: "unquote s = Some (v, t) \<Longrightarrow> length t < length s"
proof (induction s arbitrary: v t rule: unquote.induct)
  case (2 c cs)
  show ?case
  proof (cases "c = dquote")
    case True
    with 2 show ?thesis by (simp add: unquote.simps)
  next
    case False
    with "2.prems" obtain bs k w where k: "literal_item (c # cs) = Some (bs, k)"
      "unquote (drop (k - 1) cs) = Some (w, t)"
      by (auto simp: unquote.simps split: option.splits)
    from "2.IH" [OF False k(1) refl k(2)] show ?thesis by simp
  qed
qed (simp add: unquote.simps)

subsection \<open>Reading back what was written\<close>

lemma hex_value_digit: "d < 16 \<Longrightarrow> hex_value (hex_digit d) = Some d"
  by (auto simp: hex_value_def hex_digit_def of_char_of Let_def)

lemma hex_value_zero: "hex_value CHR ''0'' = Some 0"
  by (simp add: hex_value_def)

lemma four_hex_00: "n < 256 \<Longrightarrow>
    four_hex (''00'' @ [hex_digit (n div 16), hex_digit (n mod 16)] @ t) = Some n"
  by (simp add: four_hex_def hex_value_digit hex_value_zero)

lemma control_chars:
  "char_of (8 :: nat) = CHR 0x08" "char_of (9 :: nat) = CHR 0x09" "char_of (10 :: nat) = CHR 0x0A"
  "char_of (12 :: nat) = CHR 0x0C" "char_of (13 :: nat) = CHR 0x0D"
  by (simp_all add: char_of_def bit_0 bit_Suc)

lemma escape_ascii_item:
  assumes "(of_char c :: nat) < 128"
  shows "literal_item (escape_ascii c @ t) = Some ([c], length (escape_ascii c))"
proof -
  let ?n = "of_char c :: nat"
  have code: "char_of ?n = c" by simp
  have named: "c = char_of k" if "?n = k" for k using that code by metis
  consider "c = dquote \<or> c = bslash" | "?n = 8 \<or> ?n = 12 \<or> ?n = 10 \<or> ?n = 13 \<or> ?n = 9"
    | "\<not> (c = dquote \<or> c = bslash)" "\<not> (?n = 8 \<or> ?n = 12 \<or> ?n = 10 \<or> ?n = 13 \<or> ?n = 9)"
      "?n < 32 \<or> ?n = 60 \<or> ?n = 62 \<or> ?n = 38"
    | "\<not> (c = dquote \<or> c = bslash)" "\<not> (?n = 8 \<or> ?n = 12 \<or> ?n = 10 \<or> ?n = 13 \<or> ?n = 9)"
      "\<not> (?n < 32 \<or> ?n = 60 \<or> ?n = 62 \<or> ?n = 38)" by argo
  then show ?thesis
  proof cases
    case 1
    then show ?thesis
      by (auto simp: literal_item_def escape_ascii_def simple_escape_def dquote_def bslash_def)
  next
    case 2
    then have "c = CHR 0x08 \<or> c = CHR 0x0C \<or> c = CHR 0x0A \<or> c = CHR 0x0D \<or> c = CHR 0x09"
      using named control_chars by metis
    then show ?thesis
      by (elim disjE) (simp_all add: literal_item_def escape_ascii_def simple_escape_def dquote_def
          bslash_def control_chars)
  next
    case 3
    then have esc: "escape_ascii c = bslash # ''u00'' @ [hex_digit (?n div 16), hex_digit (?n mod 16)]"
      by (auto simp: escape_ascii_def Let_def)
    have "unicode_escape (''00'' @ [hex_digit (?n div 16), hex_digit (?n mod 16)] @ t) = Some ([c], 4)"
      using assms by (simp only: unicode_escape_def four_hex_00) (simp add: encode_rune_def code)
    then show ?thesis by (simp add: literal_item_def esc)
  next
    case 4
    then show ?thesis using assms
      by (simp add: literal_item_def escape_ascii_def Let_def continuations_def)
  qed
qed

lemma escape_ascii_hd: "escape_ascii c \<noteq> [] \<and> hd (escape_ascii c) \<noteq> dquote"
  by (auto simp: escape_ascii_def Let_def dquote_def bslash_def)

lemma long_rune:
  assumes "is_rune bs" "length bs \<noteq> 1"
  obtains c cs where "bs = c # cs" "194 \<le> (of_char c :: nat)"
proof (cases bs)
  case (Cons c cs)
  with assms have "194 \<le> (of_char c :: nat)"
    by (auto simp: is_rune_def continuations_def split: option.splits if_splits)
  with Cons that show ?thesis by blast
qed (use assms in \<open>simp add: is_rune_def\<close>)

lemma long_rune_item:
  assumes "is_rune bs" "length bs \<noteq> 1"
  shows "literal_item (bs @ t) = Some (bs, length bs) \<and> hd bs \<noteq> dquote"
proof -
  obtain c cs where bs: "bs = c # cs" "194 \<le> (of_char c :: nat)" using long_rune [OF assms] .
  then have "c \<noteq> bslash" "c \<noteq> dquote" by (auto simp: bslash_def dquote_def)
  with bs show ?thesis using is_rune_append [OF assms(1), of t]
    by (simp add: literal_item_def del: rune_size.simps)
qed

lemma one_byte_rune: "is_rune [c] \<Longrightarrow> (of_char c :: nat) < 128"
  by (auto simp: is_rune_def continuations_def split: option.splits if_splits)

lemma replacement_item: "literal_item (bslash # ''ufffd'' @ t) = Some (replacement, 6)"
  by (simp add: literal_item_def unicode_escape_def four_hex_def hex_value_def encode_rune_def
      replacement_def bslash_def char_of_def bit_0 bit_Suc)

lemma separator_items:
  "literal_item (bslash # ''u2028'' @ t) = Some ([CHR 0xE2, CHR 0x80, CHR 0xA8], 6)"
  "literal_item (bslash # ''u2029'' @ t) = Some ([CHR 0xE2, CHR 0x80, CHR 0xA9], 6)"
  by (simp_all add: literal_item_def unicode_escape_def four_hex_def hex_value_def encode_rune_def
      bslash_def char_of_def bit_0 bit_Suc)

lemma quote_rune_item:
  assumes "\<And>bs. r = Some bs \<Longrightarrow> is_rune bs"
  shows "literal_item (quote_rune r @ t) = Some (rune_text r, length (quote_rune r)) \<and>
    quote_rune r \<noteq> [] \<and> hd (quote_rune r) \<noteq> dquote"
proof (cases r)
  case None
  then show ?thesis using replacement_item [of t]
    by (simp add: quote_rune_def rune_text_def) (simp add: bslash_def dquote_def)
next
  case (Some bs)
  show ?thesis
  proof (cases "length bs = 1")
    case True
    then obtain c where bs: "bs = [c]" by (auto simp: length_Suc_conv)
    then show ?thesis using assms [OF Some] Some escape_ascii_item [of c t] escape_ascii_hd [of c]
      by (simp add: quote_rune_def rune_text_def one_byte_rune)
  next
    case False
    obtain c cs where bs: "bs = c # cs" "194 \<le> (of_char c :: nat)"
      using long_rune [OF assms [OF Some] False] .
    with False obtain d ds where ds: "cs = d # ds" by (cases cs) auto
    show ?thesis using long_rune_item [OF assms [OF Some] False, of t] separator_items [of t] Some bs ds
      by (simp add: quote_rune_def rune_text_def) (simp add: bslash_def dquote_def)
  qed
qed

lemma unquote_item:
  assumes "literal_item (x @ t) = Some (bs, length x)" "x \<noteq> []" "hd x \<noteq> dquote"
  shows "unquote (x @ t) = map_option (\<lambda>(s, u). (bs @ s, u)) (unquote t)"
  using assms by (cases x) (simp_all add: unquote.simps)

lemma unquote_quote_runes:
  assumes "\<And>bs. Some bs \<in> set rs \<Longrightarrow> is_rune bs"
  shows "unquote (concat (map quote_rune rs) @ dquote # t) = Some (concat (map rune_text rs), t)"
  using assms
proof (induction rs)
  case (Cons r rs)
  have r: "literal_item (quote_rune r @ u) = Some (rune_text r, length (quote_rune r)) \<and>
      quote_rune r \<noteq> [] \<and> hd (quote_rune r) \<noteq> dquote" for u
    using Cons.prems by (intro quote_rune_item) simp
  show ?case
    using Cons r unquote_item [of "quote_rune r" "concat (map quote_rune rs) @ dquote # t" "rune_text r"]
    by simp
qed (simp add: unquote.simps)

theorem unquote_quote: "unquote (tl (quote s) @ t) = Some (sanitize s, t)"
  using unquote_quote_runes [of "runes s" t] by (simp add: quote_def sanitize_def runes_are_runes)

lemma hd_quote: "quote s = dquote # tl (quote s)"
  by (simp add: quote_def)

lemma sanitize_Nil [simp]: "sanitize [] = []"
  by (simp add: sanitize_def)

lemma sanitize_empty [simp]: "sanitize s = [] \<longleftrightarrow> s = []"
proof (cases s)
  case (Cons c cs)
  obtain r where "r \<in> set (runes s)" by (cases "runes s") (auto simp: Cons split: option.splits)
  then have "rune_text r \<noteq> []" using rune_text_is_rune [of r s] by (auto simp: is_rune_def)
  with \<open>r \<in> set (runes s)\<close> have "sanitize s \<noteq> []" by (auto simp: sanitize_def)
  then show ?thesis by (simp add: Cons)
qed (simp add: sanitize_def)

end
