(* ===== verification/JsonText.thy ===== *)
theory JsonText
  imports JsonString
begin

text \<open>
  JSON texts: what \<open>encoding/json\<close> writes for a tree, compact (\<open>Marshal\<close>) or indented
  (\<open>Encoder.SetIndent\<close>), and the texts \<open>Unmarshal\<close> accepts.

  The reader is split as the scanner of the library is: a lexer, and a machine that runs over
  the tokens with a stack of open arrays and objects (\<open>parseState\<close>), bounded by the nesting
  depth the library allows. Both are total, so every text has an answer.
\<close>

subsection \<open>Tokens\<close>

datatype token = Scalar json | OpenArr | CloseArr | OpenObj | CloseObj | ColonT | CommaT

definition is_space :: "char \<Rightarrow> bool" where
  "is_space c \<longleftrightarrow> of_char c \<in> {32 :: nat, 9, 10, 13}"

definition is_digit :: "char \<Rightarrow> bool" where
  "is_digit c \<longleftrightarrow> 48 \<le> (of_char c :: nat) \<and> (of_char c :: nat) < 58"

definition num_char :: "char \<Rightarrow> bool" where
  "num_char c \<longleftrightarrow> is_digit c \<or> c \<in> {CHR ''+'', CHR ''-'', CHR ''.'', CHR ''e'', CHR ''E''}"

text \<open>The grammar of numbers: sign, integer part without leading zeroes, fraction, exponent.\<close>

definition valid_exponent :: "string \<Rightarrow> bool" where
  "valid_exponent s =
     (case s of
        [] \<Rightarrow> True
      | c # r \<Rightarrow>
          (c = CHR ''e'' \<or> c = CHR ''E'') \<and>
          (let ds = (if r \<noteq> [] \<and> (hd r = CHR ''+'' \<or> hd r = CHR ''-'') then tl r else r)
           in ds \<noteq> [] \<and> list_all is_digit ds))"

definition valid_fraction :: "string \<Rightarrow> bool" where
  "valid_fraction s =
     (case s of
        [] \<Rightarrow> True
      | c # r \<Rightarrow>
          if c = CHR ''.'' then r \<noteq> [] \<and> is_digit (hd r) \<and> valid_exponent (dropWhile is_digit r)
          else valid_exponent s)"

definition valid_number :: "string \<Rightarrow> bool" where
  "valid_number s =
     (case (if s \<noteq> [] \<and> hd s = CHR ''-'' then tl s else s) of
        [] \<Rightarrow> False
      | c # r \<Rightarrow>
          if c = CHR ''0'' then valid_fraction r
          else is_digit c \<and> valid_fraction (dropWhile is_digit r))"

text \<open>One token, at a character that is no white space.\<close>

definition lex_word :: "string \<Rightarrow> json \<Rightarrow> string \<Rightarrow> (token \<times> string) option" where
  "lex_word w v s = (if take (length w) s = w then Some (Scalar v, drop (length w) s) else None)"

definition lex_token :: "string \<Rightarrow> (token \<times> string) option" where
  "lex_token s =
     (case s of
        [] \<Rightarrow> None
      | c # cs \<Rightarrow>
          if c = CHR ''{'' then Some (OpenObj, cs)
          else if c = CHR ''}'' then Some (CloseObj, cs)
          else if c = CHR ''['' then Some (OpenArr, cs)
          else if c = CHR '']'' then Some (CloseArr, cs)
          else if c = CHR '':'' then Some (ColonT, cs)
          else if c = CHR '','' then Some (CommaT, cs)
          else if c = dquote then map_option (\<lambda>(v, t). (Scalar (JStr v), t)) (unquote cs)
          else if c = CHR ''t'' then lex_word ''true'' (JBool True) s
          else if c = CHR ''f'' then lex_word ''false'' (JBool False) s
          else if c = CHR ''n'' then lex_word ''null'' JNull s
          else if num_char c \<and> valid_number (takeWhile num_char s)
          then Some (Scalar (JNum (takeWhile num_char s)), dropWhile num_char s)
          else None)"

lemma lex_word_shorter: "lex_word w v s = Some (tk, t) \<Longrightarrow> w \<noteq> [] \<Longrightarrow> length t < length s"
  by (cases s) (auto simp: lex_word_def split: if_splits)

lemma lex_token_shorter:
  assumes "lex_token s = Some (tk, t)"
  shows "length t < length s"
proof (cases s)
  case (Cons c cs)
  have drop': "length (dropWhile num_char cs) < Suc (length cs)"
    using length_dropWhile_le [of num_char cs] by simp
  show ?thesis using assms drop'
    by (auto simp: lex_token_def Cons dest!: unquote_shorter lex_word_shorter split: if_splits)
qed (use assms in \<open>simp add: lex_token_def\<close>)

function lexer :: "string \<Rightarrow> token list option" where
  "lexer [] = Some []"
| "lexer (c # cs) =
     (if is_space c then lexer cs
      else (case lex_token (c # cs) of
              None \<Rightarrow> None
            | Some (tk, t) \<Rightarrow> map_option ((#) tk) (lexer t)))"
  by pat_completeness auto
termination
  by (relation "measure length") (auto dest: lex_token_shorter)

declare lexer.simps(2) [simp del]

subsection \<open>The machine over the tokens\<close>

text \<open>The frame of an object holds the members read so far and the key whose value is awaited.\<close>

datatype frame = Arr "json list" | Obj "(string \<times> json) list" string

datatype expecting = Value | ValueOrClose | Key | KeyOrClose | Colon | Comma | Done json

definition max_depth :: nat where "max_depth = 10000"

fun give :: "json \<Rightarrow> frame list \<Rightarrow> frame list \<times> expecting" where
  "give v [] = ([], Done v)"
| "give v (Arr vs # st) = (Arr (vs @ [v]) # st, Comma)"
| "give v (Obj ms k # st) = (Obj (ms @ [(k, v)]) [] # st, Comma)"

definition open_frame ::
  "frame \<Rightarrow> expecting \<Rightarrow> frame list \<Rightarrow> (frame list \<times> expecting) option" where
  "open_frame f e st = (if length st < max_depth then Some (f # st, e) else None)"

fun begin_value :: "frame list \<Rightarrow> token \<Rightarrow> (frame list \<times> expecting) option" where
  "begin_value st (Scalar v) = Some (give v st)"
| "begin_value st OpenArr = open_frame (Arr []) ValueOrClose st"
| "begin_value st OpenObj = open_frame (Obj [] []) KeyOrClose st"
| "begin_value st _ = None"

fun close_frame :: "frame list \<Rightarrow> token \<Rightarrow> (frame list \<times> expecting) option" where
  "close_frame (Arr vs # st) CloseArr = Some (give (JArr vs) st)"
| "close_frame (Obj ms k # st) CloseObj = Some (give (JObj ms) st)"
| "close_frame _ _ = None"

fun read_key :: "frame list \<Rightarrow> token \<Rightarrow> (frame list \<times> expecting) option" where
  "read_key (Obj ms k # st) (Scalar (JStr k')) = Some (Obj ms k' # st, Colon)"
| "read_key _ _ = None"

fun next_item :: "frame list \<Rightarrow> (frame list \<times> expecting) option" where
  "next_item (Arr vs # st) = Some (Arr vs # st, Value)"
| "next_item (Obj ms k # st) = Some (Obj ms k # st, Key)"
| "next_item [] = None"

definition parse_step :: "frame list \<times> expecting \<Rightarrow> token \<Rightarrow> (frame list \<times> expecting) option" where
  "parse_step s tk =
     (case s of (st, e) \<Rightarrow>
        (case e of
           Value \<Rightarrow> begin_value st tk
         | ValueOrClose \<Rightarrow> if tk = CloseArr then close_frame st tk else begin_value st tk
         | Key \<Rightarrow> read_key st tk
         | KeyOrClose \<Rightarrow> if tk = CloseObj then close_frame st tk else read_key st tk
         | Colon \<Rightarrow> if tk = ColonT then Some (st, Value) else None
         | Comma \<Rightarrow> if tk = CommaT then next_item st else close_frame st tk
         | Done v \<Rightarrow> None))"

fun parse_run :: "frame list \<times> expecting \<Rightarrow> token list \<Rightarrow> (frame list \<times> expecting) option" where
  "parse_run s [] = Some s"
| "parse_run s (tk # ts) =
     (case parse_step s tk of None \<Rightarrow> None | Some s' \<Rightarrow> parse_run s' ts)"

definition parse_tokens :: "token list \<Rightarrow> json option" where
  "parse_tokens ts =
     (case parse_run ([], Value) ts of Some ([], Done v) \<Rightarrow> Some v | _ \<Rightarrow> None)"

definition parse_json :: "string \<Rightarrow> json option" where
  "parse_json s = (case lexer s of None \<Rightarrow> None | Some ts \<Rightarrow> parse_tokens ts)"

subsection \<open>Writing a tree\<close>

text \<open>
  \<open>nlf n\<close> is the line break before something at level \<open>n\<close> and \<open>gap\<close> the space after a colon;
  both are empty in a compact text. Empty arrays and objects stay on one line.
\<close>

fun join :: "string \<Rightarrow> string list \<Rightarrow> string" where
  "join sp [] = []"
| "join sp [w] = w"
| "join sp (w # v # ws) = w @ sp @ join sp (v # ws)"

primrec json_text :: "json \<Rightarrow> (nat \<Rightarrow> string) \<Rightarrow> string \<Rightarrow> nat \<Rightarrow> string" where
  "json_text JNull = (\<lambda>nlf gap n. ''null'')"
| "json_text (JBool b) = (\<lambda>nlf gap n. if b then ''true'' else ''false'')"
| "json_text (JNum lit) = (\<lambda>nlf gap n. lit)"
| "json_text (JStr s) = (\<lambda>nlf gap n. quote s)"
| "json_text (JArr vs) = (\<lambda>nlf gap n.
     if vs = [] then ''[]''
     else CHR ''['' # nlf (Suc n) @
       join (CHR '','' # nlf (Suc n)) (map (\<lambda>p. p nlf gap (Suc n)) (map json_text vs)) @
       nlf n @ '']'')"
| "json_text (JObj ms) = (\<lambda>nlf gap n.
     if ms = [] then ''{}''
     else CHR ''{'' # nlf (Suc n) @
       join (CHR '','' # nlf (Suc n))
         (map (\<lambda>(k, p). quote k @ CHR '':'' # gap @ p nlf gap (Suc n)) (map (map_prod id json_text) ms)) @
       nlf n @ ''}'')"

definition compact :: "json \<Rightarrow> string" where
  "compact v = json_text v (\<lambda>n. []) [] 0"

definition two_spaces :: "nat \<Rightarrow> string" where
  "two_spaces n = CHR 0x0A # replicate (2 * n) (CHR 0x20)"

text \<open>\<open>SetIndent("", "  ")\<close>; \<open>Encode\<close> ends the text with a line break.\<close>

definition indented :: "json \<Rightarrow> string" where
  "indented v = json_text v two_spaces '' '' 0 @ [CHR 0x0A]"

subsection \<open>What a tree means as a text\<close>

text \<open>A tree that came from a text: its number literals are numbers.\<close>

primrec well_formed :: "json \<Rightarrow> bool" where
  "well_formed JNull = True"
| "well_formed (JBool b) = True"
| "well_formed (JNum lit) = valid_number lit"
| "well_formed (JStr s) = True"
| "well_formed (JArr vs) = list_all id (map well_formed vs)"
| "well_formed (JObj ms) = list_all (\<lambda>m. snd m) (map (map_prod id well_formed) ms)"

primrec cleaned :: "json \<Rightarrow> json" where
  "cleaned JNull = JNull"
| "cleaned (JBool b) = JBool b"
| "cleaned (JNum lit) = JNum lit"
| "cleaned (JStr s) = JStr (sanitize s)"
| "cleaned (JArr vs) = JArr (map cleaned vs)"
| "cleaned (JObj ms) = JObj (map (\<lambda>(k, v). (sanitize k, v)) (map (map_prod id cleaned) ms))"

primrec depth :: "json \<Rightarrow> nat" where
  "depth JNull = 0"
| "depth (JBool b) = 0"
| "depth (JNum lit) = 0"
| "depth (JStr s) = 0"
| "depth (JArr vs) = Suc (foldr max (map depth vs) 0)"
| "depth (JObj ms) = Suc (foldr (\<lambda>m. max (snd m)) (map (map_prod id depth) ms) 0)"

fun commas :: "token list list \<Rightarrow> token list" where
  "commas [] = []"
| "commas [w] = w"
| "commas (w # v # ws) = w @ CommaT # commas (v # ws)"

primrec tokens :: "json \<Rightarrow> token list" where
  "tokens JNull = [Scalar JNull]"
| "tokens (JBool b) = [Scalar (JBool b)]"
| "tokens (JNum lit) = [Scalar (JNum lit)]"
| "tokens (JStr s) = [Scalar (JStr s)]"
| "tokens (JArr vs) = OpenArr # commas (map tokens vs) @ [CloseArr]"
| "tokens (JObj ms) =
     OpenObj # commas (map (\<lambda>(k, ts). Scalar (JStr k) # ColonT # ts) (map (map_prod id tokens) ms)) @
     [CloseObj]"

subsection \<open>Lexing a written tree\<close>

definition prepend :: "'a list \<Rightarrow> 'a list option \<Rightarrow> 'a list option" where
  "prepend xs r = map_option ((@) xs) r"

lemma prepend_simps [simp]:
  "prepend [] r = r" "prepend xs (prepend ys r) = prepend (xs @ ys) r"
  "map_option ((#) x) r = prepend [x] r" "prepend xs (Some ys) = Some (xs @ ys)"
  by (cases r; simp add: prepend_def)+

text \<open>
  \<open>w\<close> lexes to \<open>ts\<close> in front of anything that cannot prolong a number.
\<close>

definition safe :: "string \<Rightarrow> bool" where
  "safe t \<longleftrightarrow> t = [] \<or> \<not> num_char (hd t)"

definition lexes :: "string \<Rightarrow> token list \<Rightarrow> bool" where
  "lexes w ts \<longleftrightarrow> (\<forall>t. safe t \<longrightarrow> lexer (w @ t) = prepend ts (lexer t))"

lemma lexesI:
  "(\<And>t. safe t \<Longrightarrow> lexer (w @ t) = prepend ts (lexer t)) \<Longrightarrow> lexes w ts"
  by (simp add: lexes_def)

lemma lexesD: "lexes w ts \<Longrightarrow> safe t \<Longrightarrow> lexer (w @ t) = prepend ts (lexer t)"
  by (simp add: lexes_def)

lemma lex_spaces: "list_all is_space sp \<Longrightarrow> lexer (sp @ t) = lexer t"
  by (induction sp) (simp_all add: lexer.simps)

lemma safe_Nil: "safe []"
  by (simp add: safe_def)

lemma safe_spaces: "list_all is_space sp \<Longrightarrow> safe t \<Longrightarrow> safe (sp @ t)"
  by (cases sp) (auto simp: safe_def is_space_def num_char_def is_digit_def)

lemma punctuation_chars:
  "\<not> is_space (CHR ''{'')" "\<not> is_space (CHR ''}'')" "\<not> is_space (CHR ''['')"
  "\<not> is_space (CHR '']'')" "\<not> is_space (CHR '':'')" "\<not> is_space (CHR '','')"
  by (simp_all add: is_space_def)

lemma lex_punctuation:
  "lexer (CHR ''{'' # t) = prepend [OpenObj] (lexer t)"
  "lexer (CHR ''}'' # t) = prepend [CloseObj] (lexer t)"
  "lexer (CHR ''['' # t) = prepend [OpenArr] (lexer t)"
  "lexer (CHR '']'' # t) = prepend [CloseArr] (lexer t)"
  "lexer (CHR '':'' # t) = prepend [ColonT] (lexer t)"
  "lexer (CHR '','' # t) = prepend [CommaT] (lexer t)"
  by (simp_all add: lexer.simps lex_token_def punctuation_chars)

lemma safe_punctuation:
  "safe (CHR ''}'' # t)" "safe (CHR '']'' # t)" "safe (CHR '':'' # t)" "safe (CHR '','' # t)"
  by (simp_all add: safe_def num_char_def is_digit_def)

lemma lexes_single:
  "(\<And>t. safe t \<Longrightarrow> lexer (w @ t) = prepend [tk] (lexer t)) \<Longrightarrow> lexes w [tk]"
  by (rule lexesI)

lemma lexes_quote: "lexes (quote s) [Scalar (JStr (sanitize s))]"
proof (rule lexes_single)
  fix t
  have "lexer (dquote # tl (quote s) @ t) = prepend [Scalar (JStr (sanitize s))] (lexer t)"
    by (simp add: lexer.simps lex_token_def unquote_quote) (simp add: dquote_def is_space_def)
  then show "lexer (quote s @ t) = prepend [Scalar (JStr (sanitize s))] (lexer t)"
    by (subst hd_quote) simp
qed

lemma lexes_words:
  "lexes ''null'' [Scalar JNull]" "lexes ''true'' [Scalar (JBool True)]"
  "lexes ''false'' [Scalar (JBool False)]"
  by (rule lexes_single, simp add: lexer.simps lex_token_def lex_word_def is_space_def dquote_def)+

lemma valid_number_hd:
  assumes "valid_number lit"
  shows "lit \<noteq> [] \<and> (hd lit = CHR ''-'' \<or> is_digit (hd lit))"
  using assms by (cases lit) (auto simp: valid_number_def is_digit_def split: list.splits if_splits)

text \<open>The characters of a valid literal are those the lexer collects.\<close>

lemma digits_num_char: "list_all is_digit ds \<Longrightarrow> list_all num_char ds"
  by (auto simp: list_all_iff num_char_def)

lemma dropWhile_num_char: "list_all num_char (dropWhile is_digit s) \<Longrightarrow> list_all num_char s"
  by (induction s) (auto simp: num_char_def split: if_splits)

lemma valid_exponent_chars: "valid_exponent s \<Longrightarrow> list_all num_char s"
  by (cases s; cases "tl s") (auto simp: valid_exponent_def num_char_def Let_def list_all_iff split: if_splits)

lemma valid_fraction_chars: "valid_fraction s \<Longrightarrow> list_all num_char s"
  by (cases s) (auto simp: valid_fraction_def num_char_def intro: valid_exponent_chars
      dropWhile_num_char split: if_splits dest!: valid_exponent_chars dropWhile_num_char)

lemma valid_number_chars: "valid_number s \<Longrightarrow> list_all num_char s"
proof (cases s)
  case (Cons c cs)
  assume v: "valid_number s"
  show ?thesis
  proof (cases "c = CHR ''-''")
    case True
    with v Cons show ?thesis
      by (cases cs) (auto simp: valid_number_def num_char_def is_digit_def split: if_splits
          dest: valid_fraction_chars dropWhile_num_char)
  next
    case False
    with v Cons show ?thesis
      by (auto simp: valid_number_def num_char_def is_digit_def split: if_splits
          dest: valid_fraction_chars dropWhile_num_char)
  qed
qed simp

lemma takeWhile_safe: "list_all num_char s \<Longrightarrow> safe t \<Longrightarrow>
    takeWhile num_char (s @ t) = s \<and> dropWhile num_char (s @ t) = t"
  by (induction s) (cases t, auto simp: safe_def)

lemma number_hd_chars:
  assumes "c = CHR ''-'' \<or> is_digit c"
  shows "num_char c" "\<not> is_space c"
    "c \<noteq> CHR ''{''" "c \<noteq> CHR ''}''" "c \<noteq> CHR ''[''" "c \<noteq> CHR '']''" "c \<noteq> CHR '':''"
    "c \<noteq> CHR '',''" "c \<noteq> dquote" "c \<noteq> CHR ''t''" "c \<noteq> CHR ''f''" "c \<noteq> CHR ''n''"
  using assms by (auto simp: num_char_def is_digit_def is_space_def dquote_def)

lemma lexes_number:
  assumes "valid_number lit"
  shows "lexes lit [Scalar (JNum lit)]"
proof (rule lexes_single)
  fix t assume t: "safe t"
  obtain c cs where lit: "lit = c # cs" "c = CHR ''-'' \<or> is_digit c"
    using valid_number_hd [OF assms] by (cases lit) auto
  note whole = takeWhile_safe [OF valid_number_chars [OF assms] t]
  have "lex_token (lit @ t) = Some (Scalar (JNum lit), t)"
    using whole assms number_hd_chars [OF lit(2)] by (simp add: lex_token_def lit(1) del: takeWhile.simps dropWhile.simps)
  then show "lexer (lit @ t) = prepend [Scalar (JNum lit)] (lexer t)"
    using number_hd_chars(2) [OF lit(2)] by (simp add: lit(1) lexer.simps)
qed

lemma lexes_append:
  assumes "lexes w ts" "lexes v us" "\<And>t. safe t \<Longrightarrow> safe (v @ t)"
  shows "lexes (w @ v) (ts @ us)"
  using assms by (simp add: lexes_def)

lemma lexes_after_comma:
  "lexes w ts \<Longrightarrow> list_all is_space sp \<Longrightarrow> lexes (CHR '','' # sp @ w) (CommaT # ts)"
  by (simp add: lexes_def lex_punctuation lex_spaces)

lemma lexes_join:
  assumes "list_all2 lexes ws tss" "list_all is_space sp"
  shows "lexes (join (CHR '','' # sp) ws) (commas tss)"
  using assms(1)
proof (induction rule: list_all2_induct)
  case Nil
  show ?case by (simp add: lexes_def)
next
  case (Cons w ws ts tss)
  show ?case
  proof (cases ws)
    case Nil
    with Cons show ?thesis by simp
  next
    case (Cons v vs)
    with \<open>list_all2 lexes ws tss\<close> obtain us uss where tss: "tss = us # uss"
      by (auto simp: list_all2_Cons1)
    have "lexes (w @ CHR '','' # sp @ join (CHR '','' # sp) ws) (ts @ CommaT # commas tss)"
      by (intro lexes_append lexes_after_comma Cons.hyps Cons.IH assms(2)) (simp add: safe_punctuation)
    then show ?thesis by (simp add: Cons tss)
  qed
qed

lemma lexes_array:
  assumes "lexes w ts" "list_all is_space sp" "list_all is_space sq"
  shows "lexes (CHR ''['' # sp @ w @ sq @ '']'') (OpenArr # ts @ [CloseArr])"
proof (rule lexesI)
  fix t
  have "lexer (w @ sq @ CHR '']'' # t) = prepend ts (lexer (sq @ CHR '']'' # t))"
    using assms safe_punctuation(2) [of t] by (intro lexesD safe_spaces)
  then show "lexer ((CHR ''['' # sp @ w @ sq @ '']'') @ t) =
      prepend (OpenArr # ts @ [CloseArr]) (lexer t)"
    using assms by (simp add: lex_punctuation lex_spaces)
qed

lemma lexes_object:
  assumes "lexes w ts" "list_all is_space sp" "list_all is_space sq"
  shows "lexes (CHR ''{'' # sp @ w @ sq @ ''}'') (OpenObj # ts @ [CloseObj])"
proof (rule lexesI)
  fix t
  have "lexer (w @ sq @ CHR ''}'' # t) = prepend ts (lexer (sq @ CHR ''}'' # t))"
    using assms safe_punctuation(1) [of t] by (intro lexesD safe_spaces)
  then show "lexer ((CHR ''{'' # sp @ w @ sq @ ''}'') @ t) =
      prepend (OpenObj # ts @ [CloseObj]) (lexer t)"
    using assms by (simp add: lex_punctuation lex_spaces)
qed

lemma lexes_empty:
  "lexes ''[]'' [OpenArr, CloseArr]" "lexes ''{}'' [OpenObj, CloseObj]"
  by (simp_all add: lexes_def lex_punctuation)

lemma lexes_member:
  assumes "lexes w ts" "list_all is_space gap"
  shows "lexes (quote k @ CHR '':'' # gap @ w) (Scalar (JStr (sanitize k)) # ColonT # ts)"
proof -
  have "lexes (CHR '':'' # gap @ w) (ColonT # ts)"
    using assms by (simp add: lexes_def lex_punctuation lex_spaces)
  from lexes_append [OF lexes_quote this, of k] show ?thesis by (simp add: safe_punctuation)
qed

lemma lexes_json_text:
  assumes sp: "\<And>n. list_all is_space (nlf n)" "list_all is_space gap"
  shows "well_formed v \<Longrightarrow> lexes (json_text v nlf gap n) (tokens (cleaned v))"
proof (induction v arbitrary: n)
  case (JArr vs)
  show ?case
  proof (cases "vs = []")
    case False
    have "list_all2 lexes (map (\<lambda>p. p nlf gap (Suc n)) (map json_text vs)) (map tokens (map cleaned vs))"
      using JArr by (auto simp: list_all2_conv_all_nth list_all_iff)
    from lexes_array [OF lexes_join [OF this sp(1)] sp(1) sp(1)] show ?thesis
      using False by simp
  qed (simp add: lexes_empty)
next
  case (JObj ms)
  show ?case
  proof (cases "ms = []")
    case False
    have member: "lexes (json_text (snd m) nlf gap (Suc n)) (tokens (cleaned (snd m)))" if "m \<in> set ms" for m
      using JObj that by (cases m) (auto simp: list_all_iff)
    have "list_all2 lexes
       (map (\<lambda>(k, p). quote k @ CHR '':'' # gap @ p nlf gap (Suc n)) (map (map_prod id json_text) ms))
       (map (\<lambda>(k, ts). Scalar (JStr k) # ColonT # ts)
         (map (map_prod id tokens) (map (\<lambda>(k, v). (sanitize k, v)) (map (map_prod id cleaned) ms))))"
      using member lexes_member [OF _ sp(2)]
      by (auto simp: list_all2_conv_all_nth case_prod_beta map_prod_def)
    from lexes_object [OF lexes_join [OF this sp(1)] sp(1) sp(1)] show ?thesis
      using False by simp
  qed (simp add: lexes_empty)
qed (simp_all add: lexes_quote lexes_words lexes_number)

subsection \<open>Parsing the tokens of a tree\<close>

text \<open>A value is read off the tokens in front of anything, and handed to the innermost frame.\<close>

definition parses :: "json \<Rightarrow> frame list \<Rightarrow> bool" where
  "parses v st \<longleftrightarrow>
     (\<forall>e ts. (e = Value \<or> e = ValueOrClose) \<longrightarrow>
        parse_run (st, e) (tokens v @ ts) = parse_run (give v st) ts)"

lemma parsesD:
  "parses v st \<Longrightarrow> e = Value \<or> e = ValueOrClose \<Longrightarrow>
     parse_run (st, e) (tokens v @ ts) = parse_run (give v st) ts"
  unfolding parses_def by blast

lemma parse_elements:
  assumes "\<And>v us. v \<in> set vs \<Longrightarrow> parses v (Arr us # st)"
    and "e = ValueOrClose \<or> e = Value \<and> vs \<noteq> []"
  shows "parse_run (Arr us # st, e) (commas (map tokens vs) @ CloseArr # ts) =
    parse_run (give (JArr (us @ vs)) st) ts"
  using assms
proof (induction vs arbitrary: us e)
  case Nil
  then show ?case by (simp add: parse_step_def)
next
  case (Cons v vs)
  have v: "parse_run (Arr us # st, e) (tokens v @ ts') = parse_run (Arr (us @ [v]) # st, Comma) ts'" for ts'
    using Cons.prems parsesD [of v "Arr us # st" e ts'] by auto
  show ?case
  proof (cases vs)
    case Nil
    then show ?thesis by (simp add: v parse_step_def)
  next
    case (Cons w ws)
    then have "parse_run (Arr us # st, e) (commas (map tokens (v # vs)) @ CloseArr # ts) =
        parse_run (Arr (us @ [v]) # st, Value) (commas (map tokens vs) @ CloseArr # ts)"
      by (simp add: v parse_step_def)
    with Cons Cons.IH [of Value "us @ [v]"] Cons.prems(1) show ?thesis by simp
  qed
qed

lemma parse_members:
  assumes "\<And>m ns k. m \<in> set ms \<Longrightarrow> parses (snd m) (Obj ns k # st)"
    and "e = KeyOrClose \<or> e = Key \<and> ms \<noteq> []"
  shows "parse_run (Obj ns k # st, e)
      (commas (map (\<lambda>m. Scalar (JStr (fst m)) # ColonT # tokens (snd m)) ms) @ CloseObj # ts) =
    parse_run (give (JObj (ns @ ms)) st) ts"
  using assms
proof (induction ms arbitrary: ns k e)
  case Nil
  then show ?case by (simp add: parse_step_def)
next
  case (Cons m ms)
  have m: "parse_run (Obj ns k # st, e) (Scalar (JStr (fst m)) # ColonT # tokens (snd m) @ ts') =
      parse_run (Obj (ns @ [m]) [] # st, Comma) ts'" for ts'
    using Cons.prems parsesD [of "snd m" "Obj ns (fst m) # st" Value ts'] by (auto simp: parse_step_def)
  show ?case
  proof (cases ms)
    case Nil
    then show ?thesis by (simp add: m del: parse_run.simps(2)) (simp add: parse_step_def)
  next
    case (Cons w ws)
    then have "parse_run (Obj ns k # st, e)
        (commas (map (\<lambda>m. Scalar (JStr (fst m)) # ColonT # tokens (snd m)) (m # ms)) @ CloseObj # ts) =
        parse_run (Obj (ns @ [m]) [] # st, Key)
          (commas (map (\<lambda>m. Scalar (JStr (fst m)) # ColonT # tokens (snd m)) ms) @ CloseObj # ts)"
      by (simp add: m del: parse_run.simps(2)) (simp add: parse_step_def)
    with Cons Cons.IH [of Key "ns @ [m]" "[]"] Cons.prems(1) show ?thesis by simp
  qed
qed

lemma foldr_max_le: "(\<forall>v \<in> set vs. f v \<le> (n :: nat)) \<longleftrightarrow> foldr (\<lambda>v. max (f v)) vs 0 \<le> n"
  by (induction vs) auto

lemma depth_parts:
  "v \<in> set vs \<Longrightarrow> depth v < depth (JArr vs)" "m \<in> set ms \<Longrightarrow> depth (snd m) < depth (JObj ms)"
  using foldr_max_le [of vs depth] foldr_max_le [of ms "depth \<circ> snd"]
  by (fastforce simp: foldr_map comp_def less_Suc_eq_le)+

lemma tokens_JObj:
  "tokens (JObj ms) =
     OpenObj # commas (map (\<lambda>m. Scalar (JStr (fst m)) # ColonT # tokens (snd m)) ms) @ [CloseObj]"
  by (simp add: case_prod_beta comp_def)

lemma parses_value: "depth v + length st \<le> max_depth \<Longrightarrow> parses v st"
proof (induction v arbitrary: st)
  case (JArr vs)
  then have "parses v (Arr us # st)" if "v \<in> set vs" for v us
    using depth_parts(1) [OF that] that by fastforce
  then have elements: "parse_run (Arr [] # st, ValueOrClose) (commas (map tokens vs) @ CloseArr # ts) =
      parse_run (give (JArr vs) st) ts" for ts
    using parse_elements [of vs st ValueOrClose "[]" ts] by simp
  have "length st < max_depth" using JArr.prems by simp
  then show ?case
    unfolding parses_def by (auto simp: elements parse_step_def open_frame_def)
next
  case (JObj ms)
  then have "parses (snd m) (Obj ns k # st)" if "m \<in> set ms" for m ns k
    using depth_parts(2) [OF that] that by (cases m) fastforce
  then have members: "parse_run (Obj [] [] # st, KeyOrClose)
      (commas (map (\<lambda>m. Scalar (JStr (fst m)) # ColonT # tokens (snd m)) ms) @ CloseObj # ts) =
      parse_run (give (JObj ms) st) ts" for ts
    using parse_members [of ms st KeyOrClose "[]" "[]" ts] by simp
  have "length st < max_depth" using JObj.prems by simp
  then show ?case
    unfolding parses_def tokens_JObj by (auto simp: members parse_step_def open_frame_def)
qed (auto simp: parses_def parse_step_def)

lemma parse_tokens_of: "depth v \<le> max_depth \<Longrightarrow> parse_tokens (tokens v) = Some v"
  using parsesD [OF parses_value [of v "[]"], of Value "[]"] by (simp add: parse_tokens_def)

subsection \<open>Round trips\<close>

lemma depth_cleaned: "depth (cleaned v) = depth v"
  by (induction v) (simp_all add: foldr_map comp_def case_prod_beta, (rule foldr_cong; force)+)

lemma parse_json_text:
  assumes "well_formed v" "depth v \<le> max_depth" "\<And>n. list_all is_space (nlf n)"
    "list_all is_space gap" "list_all is_space tl'"
  shows "parse_json (json_text v nlf gap n @ tl') = Some (cleaned v)"
proof -
  have "lexer (json_text v nlf gap n @ tl') = prepend (tokens (cleaned v)) (lexer tl')"
    using safe_spaces [OF assms(5) safe_Nil]
    by (intro lexesD lexes_json_text assms) simp
  then have "lexer (json_text v nlf gap n @ tl') = Some (tokens (cleaned v))"
    using lex_spaces [OF assms(5), of "[]"] by simp
  then show ?thesis using assms(2) by (simp add: parse_json_def parse_tokens_of depth_cleaned)
qed

lemma parse_compact: "well_formed v \<Longrightarrow> depth v \<le> max_depth \<Longrightarrow> parse_json (compact v) = Some (cleaned v)"
  using parse_json_text [of v "\<lambda>n. []" "[]" "[]"] by (simp add: compact_def)

lemma parse_indented: "well_formed v \<Longrightarrow> depth v \<le> max_depth \<Longrightarrow> parse_json (indented v) = Some (cleaned v)"
  unfolding indented_def
  by (rule parse_json_text) (simp_all add: two_spaces_def is_space_def list_all_iff)

definition json_ok :: "json \<Rightarrow> bool" where
  "json_ok v \<longleftrightarrow> well_formed v \<and> depth v \<le> max_depth"

text \<open>
  What a writer and a reader of one format owe each other, and what that gives two programs that
  put their structs into it: the reader gets the meaning of the struct the writer had.
\<close>

locale text_format =
  fixes print_text :: "'v \<Rightarrow> string" and parse :: "string \<Rightarrow> 'v option"
    and ok :: "'v \<Rightarrow> bool" and norm :: "'v \<Rightarrow> 'v"
  assumes parse_print: "ok v \<Longrightarrow> parse (print_text v) = Some (norm v)"
begin

lemma print_inj: "ok v \<Longrightarrow> ok w \<Longrightarrow> print_text v = print_text w \<Longrightarrow> norm v = norm w"
  using parse_print [of v] parse_print [of w] by simp

end

locale struct_format = text_format print_text parse ok norm
  for print_text :: "'v \<Rightarrow> string" and parse :: "string \<Rightarrow> 'v option"
    and ok :: "'v \<Rightarrow> bool" and norm :: "'v \<Rightarrow> 'v" +
  fixes tree :: "'a \<Rightarrow> 'v" and reader :: "'v \<Rightarrow> 'b option"
    and valid :: "'a \<Rightarrow> bool" and meaning :: "'a \<Rightarrow> 'b"
  assumes tree_ok: "valid x \<Longrightarrow> ok (tree x)"
    and read_tree: "valid x \<Longrightarrow> reader (norm (tree x)) = Some (meaning x)"
begin

lemma read_text: "valid x \<Longrightarrow> Option.bind (parse (print_text (tree x))) reader = Some (meaning x)"
  using parse_print [OF tree_ok] read_tree by simp

lemma meaning_determined:
  "valid x \<Longrightarrow> valid y \<Longrightarrow> print_text (tree x) = print_text (tree y) \<Longrightarrow> meaning x = meaning y"
  using read_text [of x] read_text [of y] by simp

end

interpretation compact_text: text_format compact parse_json json_ok cleaned
  by unfold_locales (simp add: json_ok_def parse_compact)

interpretation indented_text: text_format indented parse_json json_ok cleaned
  by unfold_locales (simp add: json_ok_def parse_indented)

text \<open>A tree of valid strings comes back unchanged.\<close>

primrec all_utf8 :: "json \<Rightarrow> bool" where
  "all_utf8 JNull = True"
| "all_utf8 (JBool b) = True"
| "all_utf8 (JNum lit) = True"
| "all_utf8 (JStr s) = valid_utf8 s"
| "all_utf8 (JArr vs) = list_all id (map all_utf8 vs)"
| "all_utf8 (JObj ms) = list_all (\<lambda>(k, b). valid_utf8 k \<and> b) (map (map_prod id all_utf8) ms)"

lemma cleaned_valid: "all_utf8 v \<Longrightarrow> cleaned v = v"
proof (induction v)
  case (JArr vs)
  then show ?case by (simp add: list_all_iff map_idI)
next
  case (JObj ms)
  then have "(\<lambda>(k, v). (sanitize k, v)) (map_prod id cleaned m) = m" if "m \<in> set ms" for m
    using that by (cases m) (force simp: list_all_iff sanitize_valid)
  then show ?case by (simp add: map_idI)
qed (simp_all add: sanitize_valid)

text \<open>Strings of plain characters are written as they are.\<close>

definition plain :: "char \<Rightarrow> bool" where
  "plain c \<longleftrightarrow> 32 \<le> (of_char c :: nat) \<and> (of_char c :: nat) < 128 \<and> of_char c \<notin> {34 :: nat, 38, 60, 62, 92}"

lemma runes_ascii: "ascii s \<Longrightarrow> runes s = map (\<lambda>c. Some [c]) s"
  by (induction s) (auto simp: ascii_def continuations_def)

lemma quote_plain: "list_all plain s \<Longrightarrow> quote s = dquote # s @ [dquote]"
proof -
  assume s: "list_all plain s"
  then have "ascii s" by (auto simp: ascii_def list_all_iff plain_def)
  moreover have "quote_rune (Some [c]) = [c]" if "c \<in> set s" for c
  proof -
    have c: "plain c" using s that by (simp add: list_all_iff)
    then have "c \<noteq> dquote" "c \<noteq> bslash" by (auto simp: plain_def dquote_def bslash_def)
    with c show ?thesis by (simp add: quote_rune_def escape_ascii_def plain_def Let_def)
  qed
  then have "concat (map quote_rune (map (\<lambda>c. Some [c]) s)) = concat (map (\<lambda>c. [c]) s)"
    by (simp cong: map_cong)
  ultimately show ?thesis by (simp add: quote_def runes_ascii)
qed

end
