(* ===== verification/LoadTargets.thy ===== *)
theory LoadTargets
  imports Registry JsonText
begin

text \<open>
  \<open>loadTargets\<close> (main.go): a targets file is read, decoded and validated as a whole, so a broken
  entry stops the run before anything is probed or pushed.

  What \<open>os.ReadFile\<close> answers is an argument: an error, or the text of the file.
\<close>

type_synonym file_answer = "string + string"

datatype load_err =
    CannotRead string
  | ParsingErr string lib_err
  | EmptyList string
  | BadProto string nat string go_error
  | BadTarget string nat string string go_error

subsection \<open>Decoding the list\<close>

definition target_fields :: "target fields" where
  "target_fields =
     [(''name'', store_string (\<lambda>v t. t\<lparr>t_Name := v\<rparr>)),
      (''addr'', store_string (\<lambda>v t. t\<lparr>t_Addr := v\<rparr>)),
      (''sni'', store_string (\<lambda>v t. t\<lparr>t_SNI := v\<rparr>)),
      (''region'', store_string (\<lambda>v t. t\<lparr>t_Region := v\<rparr>)),
      (''provider'', store_string (\<lambda>v t. t\<lparr>t_Provider := v\<rparr>)),
      (''proto'', store_string (\<lambda>v t. t\<lparr>t_Proto := v\<rparr>)),
      (''params'', store_raw (\<lambda>v t. t\<lparr>t_Params := v\<rparr>))]"

definition zero_target :: target where
  "zero_target = \<lparr>t_Name = [], t_Addr = [], t_SNI = [], t_Region = [], t_Provider = [],
     t_Proto = [], t_Params = None\<rparr>"

text \<open>The first mismatch anywhere in the list makes \<open>Unmarshal\<close> fail.\<close>

fun decode_targets :: "json list \<Rightarrow> json_err + target list" where
  "decode_targets [] = Inr []"
| "decode_targets (j # js) =
     (case decode_struct False target_fields zero_target j of
        Inl e \<Rightarrow> Inl e
      | Inr t \<Rightarrow> (case decode_targets js of Inl e \<Rightarrow> Inl e | Inr ts \<Rightarrow> Inr (t # ts)))"

definition unmarshal_targets :: "json \<Rightarrow> json_err + target list" where
  "unmarshal_targets j =
     (case j of JNull \<Rightarrow> Inr [] | JArr js \<Rightarrow> decode_targets js | _ \<Rightarrow> Inl JsonMismatch)"

definition unmarshal_text :: "string \<Rightarrow> lib_err + target list" where
  "unmarshal_text data =
     (case parse_json data of
        None \<Rightarrow> Inl (JsonSyntax data)
      | Some j \<Rightarrow> (case unmarshal_targets j of Inl e \<Rightarrow> Inl (JsonE e) | Inr ts \<Rightarrow> Inr ts))"

subsection \<open>Validating every target\<close>

definition check_target ::
  "world \<Rightarrow> string \<Rightarrow> nat \<Rightarrow> target \<Rightarrow> trace \<Rightarrow> load_err option \<times> trace" where
  "check_target W path i t h =
     (case proberFor probers t of
        Inl e \<Rightarrow> (Some (BadProto path i (t_Name t) e), h)
      | Inr p \<Rightarrow>
          (case pr_Validate p W t h of
             (Some e, h1) \<Rightarrow> (Some (BadTarget path i (t_Name t) (pr_Kind p) e), h1)
           | (None, h1) \<Rightarrow> (None, h1)))"

fun check_targets ::
  "world \<Rightarrow> string \<Rightarrow> nat \<Rightarrow> target list \<Rightarrow> trace \<Rightarrow> load_err option \<times> trace" where
  "check_targets W path i [] h = (None, h)"
| "check_targets W path i (t # ts) h =
     (case check_target W path i t h of
        (Some e, h1) \<Rightarrow> (Some e, h1)
      | (None, h1) \<Rightarrow> check_targets W path (Suc i) ts h1)"

definition loadTargets ::
  "world \<Rightarrow> string \<Rightarrow> file_answer \<Rightarrow> trace \<Rightarrow> (load_err + target list) \<times> trace" where
  "loadTargets W path file h =
     (case file of
        Inl e \<Rightarrow> (Inl (CannotRead e), h)
      | Inr data \<Rightarrow>
          (case unmarshal_text data of
             Inl e \<Rightarrow> (Inl (ParsingErr path e), h)
           | Inr targets \<Rightarrow>
               if length targets = 0 then (Inl (EmptyList path), h)
               else (case check_targets W path 0 targets h of
                       (Some e, h1) \<Rightarrow> (Inl e, h1)
                     | (None, h1) \<Rightarrow> (Inr targets, h1))))"

definition load_err_text :: "world \<Rightarrow> load_err \<Rightarrow> string" where
  "load_err_text W e =
     (case e of
        CannotRead s \<Rightarrow> s
      | ParsingErr path le \<Rightarrow> ''parsing '' @ path @ '': '' @ lib_text (w_lib W) le
      | EmptyList path \<Rightarrow> ''target list is empty: '' @ path
      | BadProto path i name ge \<Rightarrow>
          path @ '': target '' @ show_nat i @ '' ('' @ name @ ''): '' @ err_text W ge
      | BadTarget path i name kind ge \<Rightarrow>
          path @ '': target '' @ show_nat i @ '' ('' @ name @ ''): '' @ kind @ '': '' @ err_text W ge)"

subsection \<open>What a loaded list guarantees\<close>

definition probeable :: "world \<Rightarrow> target \<Rightarrow> bool" where
  "probeable W t \<longleftrightarrow>
     t_Addr t \<noteq> [] \<and>
     (kind_of t = ''tls'' \<or>
      kind_of t = ''udp'' \<and> (case parseUDPParams (t_Params t) of Inl _ \<Rightarrow> False | Inr _ \<Rightarrow> True) \<or>
      kind_of t = ''wireguard'' \<and> wg_usable W t)"

lemma check_target_probeable:
  assumes "check_target W path i t h = (None, h1)"
  shows "probeable W t"
proof -
  obtain p where p: "proberFor probers t = Inr p" "pr_Validate p W t h = (None, h1)"
    using assms by (auto simp: check_target_def split: sum.splits option.splits prod.splits)
  then have "t_Addr t \<noteq> []" by (rule registered_addr)
  moreover have "wg_usable W t" if "p = wg_ops"
    using p(2) that wg_validate_usable by (simp add: wg_ops_def)
  ultimately show ?thesis using p
    by (auto simp: probeable_def proberFor_cases tls_ops_def udp_ops_def udp_validate_def
        split: if_splits sum.splits)
qed

lemma probeable_check_target:
  assumes "probeable W t" "rand_works W"
  shows "\<exists>h1. check_target W path i t h = (None, h1)"
  using assms usable_wg_validate [OF _ assms(2), of t h]
  by (auto simp: probeable_def check_target_def proberFor_cases ops_simps tls_validate_def
      udp_validate_def split: sum.splits)

lemma check_target_error:
  assumes "check_target W path i t h = (Some e, h1)"
  shows "(\<exists>ge. e = BadProto path i (t_Name t) ge) \<or> (\<exists>kd ge. e = BadTarget path i (t_Name t) kd ge)"
  using assms by (auto simp: check_target_def split: sum.splits option.splits prod.splits)

lemma check_targets_probeable:
  "check_targets W path i ts h = (None, h1) \<Longrightarrow> \<forall>t \<in> set ts. probeable W t"
  by (induction ts arbitrary: i h)
    (auto split: prod.splits option.splits dest: check_target_probeable)

lemma probeable_check_targets:
  assumes "rand_works W"
  shows "\<forall>t \<in> set ts. probeable W t \<Longrightarrow> \<exists>h1. check_targets W path i ts h = (None, h1)"
proof (induction ts arbitrary: i h)
  case (Cons t ts)
  then obtain h1 where "check_target W path i t h = (None, h1)"
    using probeable_check_target [OF _ assms] by fastforce
  then show ?case using Cons by auto
qed simp

text \<open>The error names the first target that is rejected, by index and by name.\<close>

lemma check_targets_error:
  assumes "check_targets W path i ts h = (Some e, h1)"
  shows "\<exists>k < length ts. (\<exists>ge. e = BadProto path (i + k) (t_Name (ts ! k)) ge) \<or>
    (\<exists>kd ge. e = BadTarget path (i + k) (t_Name (ts ! k)) kd ge)"
  using assms
proof (induction ts arbitrary: i h)
  case (Cons t ts)
  obtain r h2 where r: "check_target W path i t h = (r, h2)" by fastforce
  show ?case
  proof (cases r)
    case None
    with Cons.prems r have "check_targets W path (Suc i) ts h2 = (Some e, h1)" by simp
    from Cons.IH [OF this] obtain k where "k < length ts"
      "(\<exists>ge. e = BadProto path (Suc i + k) (t_Name (ts ! k)) ge) \<or>
       (\<exists>kd ge. e = BadTarget path (Suc i + k) (t_Name (ts ! k)) kd ge)" by blast
    then show ?thesis by (intro exI [of _ "Suc k"]) simp
  next
    case (Some e')
    with Cons.prems r have "check_target W path i t h = (Some e, h2)" by simp
    from check_target_error [OF this] show ?thesis by (intro exI [of _ 0]) simp
  qed
qed simp

lemma loadTargets_ok:
  assumes "loadTargets W path file h = (Inr ts, h1)"
  shows "ts \<noteq> []" "\<forall>t \<in> set ts. probeable W t"
  using assms check_targets_probeable
  by (fastforce simp: loadTargets_def split: sum.splits if_splits prod.splits
      option.splits)+

text \<open>A probeable target never takes one of the configuration branches of \<open>probe\<close>.\<close>

lemma probeable_prober: "probeable W t \<Longrightarrow> \<exists>p. proberFor probers t = Inr p"
  by (auto simp: probeable_def proberFor_cases)

text \<open>
  It is dialled: the probers' own configuration branches, which report a failure without going to
  the network, are not taken either.
\<close>

lemma probeable_dialled:
  assumes "probeable W t" "w_getenv W' = w_getenv W"
    and "kind_of t = ''wireguard'' \<Longrightarrow> rand_works W' \<and> crypto_ok (w_crypto W') \<and> keys_agree W' t"
  shows "\<exists>p o' c. proberFor probers t = Inr p \<and> pr_Kind p = kind_of t \<and>
    pr_Probe p W' t timeout h = Some (o', c @ h) \<and>
    Dial (if kind_of t = ''tls'' then ''tcp'' else ''udp'') (t_Addr t) timeout \<in> set c"
proof -
  have kinds: "kind_of t = ''tls'' \<or> kind_of t = ''udp'' \<or> kind_of t = ''wireguard''"
    using assms(1) by (auto simp: probeable_def)
  obtain p where p: "proberFor probers t = Inr p" using probeable_prober [OF assms(1)] by blast
  obtain o' h' where probed: "pr_Probe p W' t timeout h = Some (o', h')" using registered_total [OF p] by blast
  from kinds have "pr_Kind p = kind_of t \<and>
    (\<exists>c. h' = c @ h \<and> Dial (if kind_of t = ''tls'' then ''tcp'' else ''udp'') (t_Addr t) timeout \<in> set c)"
  proof (elim disjE)
    assume k: "kind_of t = ''tls''"
    then have "p = tls_ops" using p by (simp add: proberFor_cases)
    then show ?thesis using k probed tls_probe_dials by (simp add: tls_ops_def tls_kind_def)
  next
    assume k: "kind_of t = ''udp''"
    then have "p = udp_ops" using p by (simp add: proberFor_cases)
    moreover obtain v where "parseUDPParams (t_Params t) = Inr v"
      using assms(1) k by (auto simp: probeable_def split: sum.splits)
    ultimately show ?thesis using k probed udp_probe_dials by (simp add: udp_ops_def udp_kind_def)
  next
    assume k: "kind_of t = ''wireguard''"
    then have "p = wg_ops" using p by (simp add: proberFor_cases)
    moreover have "wg_usable W' t"
      using assms(1,2) k by (auto simp: probeable_def wg_usable_def wg_identity_available_def split: sum.splits)
    ultimately show ?thesis using k probed wg_probe_dials assms(3) by (simp add: wg_ops_def wg_kind_def)
  qed
  then show ?thesis using p probed by blast
qed

text \<open>While the random source works, a file is accepted exactly if all its targets are probeable.\<close>

definition file_targets :: "file_answer \<Rightarrow> target list" where
  "file_targets file =
     (case file of
        Inl e \<Rightarrow> []
      | Inr data \<Rightarrow> (case unmarshal_text data of Inl _ \<Rightarrow> [] | Inr ts \<Rightarrow> ts))"

lemma loadTargets_file:
  "loadTargets W path file h = (Inr ts, h1) \<Longrightarrow> ts = file_targets file"
  by (auto simp: loadTargets_def file_targets_def split: sum.splits if_splits
      prod.splits option.splits)

lemma loadTargets_iff:
  assumes "rand_works W"
  shows "(\<exists>h1. loadTargets W path file h = (Inr ts, h1)) \<longleftrightarrow>
    ts = file_targets file \<and> ts \<noteq> [] \<and> (\<forall>t \<in> set ts. probeable W t)"
proof
  assume "\<exists>h1. loadTargets W path file h = (Inr ts, h1)"
  then show "ts = file_targets file \<and> ts \<noteq> [] \<and> (\<forall>t \<in> set ts. probeable W t)"
    using loadTargets_ok loadTargets_file by blast
next
  assume ts: "ts = file_targets file \<and> ts \<noteq> [] \<and> (\<forall>t \<in> set ts. probeable W t)"
  then obtain h1 where "check_targets W path 0 ts h = (None, h1)"
    using probeable_check_targets [OF assms] by blast
  then show "\<exists>h1. loadTargets W path file h = (Inr ts, h1)"
    using ts by (auto simp: loadTargets_def file_targets_def split: sum.splits)
qed

end
