(* ===== verification/RunAll.thy ===== *)
theory RunAll
  imports Registry
begin

text \<open>
  \<open>runAll\<close> (main.go): one goroutine per target, at most \<open>conc\<close> of them probing at once, the
  results collected over a buffered channel.

  The state holds what the goroutines share: the counter of the \<open>WaitGroup\<close>, the number of
  values in the semaphore channel \<open>sem\<close>, the buffer of the channel \<open>out\<close> and whether it was
  closed. The step relation interleaves the goroutines and \<open>main\<close> in any order; every blocking
  operation is a guard, and what Go answers with a panic (a send on a closed channel, a negative
  \<open>WaitGroup\<close> counter, a panicking probe) is the control state \<open>Panicked\<close>.
\<close>

subsection \<open>States and steps\<close>

datatype gstate =
    NotStarted
  | Starting                \<comment> \<open>launched, before the semaphore\<close>
  | Probing                 \<comment> \<open>holds a permit\<close>
  | Ready result            \<comment> \<open>probed and timestamped, before the send\<close>
  | Sent                    \<comment> \<open>the deferred calls are left\<close>
  | Released                \<comment> \<open>permit given back, before \<open>wg.Done\<close>\<close>
  | Finished

datatype main_pc =
    Launch nat
  | WaitWG
  | Drain "result list"
  | Returned "result list"
  | Panicked

record pool =
  p_main :: main_pc
  p_g :: "gstate list"
  p_wg :: nat
  p_sem :: nat
  p_out :: "result list"
  p_closed :: bool

definition permits :: "int \<Rightarrow> nat" where
  "permits conc = nat (if conc < 1 then 1 else conc)"

definition pool_init :: "nat \<Rightarrow> pool" where
  "pool_init n = \<lparr>p_main = Launch 0, p_g = replicate n NotStarted, p_wg = 0, p_sem = 0,
     p_out = [], p_closed = False\<rparr>"

text \<open>
  \<open>job i\<close> is what the \<open>i\<close>-th goroutine computes between taking the permit and the send,
  \<open>None\<close> for a panic; \<open>n\<close> is the number of targets, which is also the capacity of \<open>out\<close>.
\<close>

inductive pool_step :: "(nat \<Rightarrow> result option) \<Rightarrow> nat \<Rightarrow> int \<Rightarrow> pool \<Rightarrow> pool \<Rightarrow> bool"
  for job :: "nat \<Rightarrow> result option" and n :: nat and conc :: int where
  spawn: "p_main s = Launch i \<Longrightarrow> i < n \<Longrightarrow>
    pool_step job n conc s
      (s\<lparr>p_main := Launch (Suc i), p_wg := Suc (p_wg s), p_g := (p_g s)[i := Starting]\<rparr>)"
| launched: "p_main s = Launch n \<Longrightarrow> pool_step job n conc s (s\<lparr>p_main := WaitWG\<rparr>)"
| acquire: "p_main s \<noteq> Panicked \<Longrightarrow> i < n \<Longrightarrow> p_g s ! i = Starting \<Longrightarrow> p_sem s < permits conc \<Longrightarrow>
    pool_step job n conc s (s\<lparr>p_g := (p_g s)[i := Probing], p_sem := Suc (p_sem s)\<rparr>)"
| probed: "p_main s \<noteq> Panicked \<Longrightarrow> i < n \<Longrightarrow> p_g s ! i = Probing \<Longrightarrow> job i = Some r \<Longrightarrow>
    pool_step job n conc s (s\<lparr>p_g := (p_g s)[i := Ready r]\<rparr>)"
| probe_panic: "p_main s \<noteq> Panicked \<Longrightarrow> i < n \<Longrightarrow> p_g s ! i = Probing \<Longrightarrow> job i = None \<Longrightarrow>
    pool_step job n conc s (s\<lparr>p_main := Panicked\<rparr>)"
| send: "p_main s \<noteq> Panicked \<Longrightarrow> i < n \<Longrightarrow> p_g s ! i = Ready r \<Longrightarrow> \<not> p_closed s \<Longrightarrow>
    length (p_out s) < n \<Longrightarrow>
    pool_step job n conc s (s\<lparr>p_g := (p_g s)[i := Sent], p_out := p_out s @ [r]\<rparr>)"
| send_closed: "p_main s \<noteq> Panicked \<Longrightarrow> i < n \<Longrightarrow> p_g s ! i = Ready r \<Longrightarrow> p_closed s \<Longrightarrow>
    pool_step job n conc s (s\<lparr>p_main := Panicked\<rparr>)"
| release: "p_main s \<noteq> Panicked \<Longrightarrow> i < n \<Longrightarrow> p_g s ! i = Sent \<Longrightarrow> 0 < p_sem s \<Longrightarrow>
    pool_step job n conc s (s\<lparr>p_g := (p_g s)[i := Released], p_sem := p_sem s - 1\<rparr>)"
| wg_done: "p_main s \<noteq> Panicked \<Longrightarrow> i < n \<Longrightarrow> p_g s ! i = Released \<Longrightarrow> 0 < p_wg s \<Longrightarrow>
    pool_step job n conc s (s\<lparr>p_g := (p_g s)[i := Finished], p_wg := p_wg s - 1\<rparr>)"
| wg_negative: "p_main s \<noteq> Panicked \<Longrightarrow> i < n \<Longrightarrow> p_g s ! i = Released \<Longrightarrow> p_wg s = 0 \<Longrightarrow>
    pool_step job n conc s (s\<lparr>p_main := Panicked\<rparr>)"
| close_out: "p_main s = WaitWG \<Longrightarrow> p_wg s = 0 \<Longrightarrow>
    pool_step job n conc s (s\<lparr>p_closed := True, p_main := Drain []\<rparr>)"
| receive: "p_main s = Drain acc \<Longrightarrow> p_out s = r # rs \<Longrightarrow>
    pool_step job n conc s (s\<lparr>p_main := Drain (acc @ [r]), p_out := rs\<rparr>)"
| return: "p_main s = Drain acc \<Longrightarrow> p_out s = [] \<Longrightarrow> p_closed s \<Longrightarrow>
    pool_step job n conc s (s\<lparr>p_main := Returned acc\<rparr>)"

inductive_cases pool_stepE: "pool_step job n conc s s'"

inductive pool_reach :: "(nat \<Rightarrow> result option) \<Rightarrow> nat \<Rightarrow> int \<Rightarrow> pool \<Rightarrow> bool"
  for job :: "nat \<Rightarrow> result option" and n :: nat and conc :: int where
  start: "pool_reach job n conc (pool_init n)"
| step: "pool_reach job n conc s \<Longrightarrow> pool_step job n conc s s' \<Longrightarrow> pool_reach job n conc s'"

subsection \<open>Counting goroutines\<close>

definition busy :: "gstate \<Rightarrow> nat" where
  "busy g = (case g of Probing \<Rightarrow> 1 | Ready _ \<Rightarrow> 1 | Sent \<Rightarrow> 1 | _ \<Rightarrow> 0)"

definition active :: "gstate \<Rightarrow> nat" where
  "active g = (case g of NotStarted \<Rightarrow> 0 | Finished \<Rightarrow> 0 | _ \<Rightarrow> 1)"

definition delivered :: "gstate \<Rightarrow> bool" where
  "delivered g = (case g of Sent \<Rightarrow> True | Released \<Rightarrow> True | Finished \<Rightarrow> True | _ \<Rightarrow> False)"

definition contribution :: "(nat \<Rightarrow> result option) \<Rightarrow> nat \<Rightarrow> gstate \<Rightarrow> result multiset" where
  "contribution job i g = (if delivered g then {#the (job i)#} else {#})"

definition weight :: "gstate \<Rightarrow> nat" where
  "weight g = (case g of NotStarted \<Rightarrow> 7 | Starting \<Rightarrow> 6 | Probing \<Rightarrow> 5 | Ready _ \<Rightarrow> 4
     | Sent \<Rightarrow> 2 | Released \<Rightarrow> 1 | Finished \<Rightarrow> 0)"

definition sum_over :: "(nat \<Rightarrow> gstate \<Rightarrow> 'b :: comm_monoid_add) \<Rightarrow> gstate list \<Rightarrow> 'b" where
  "sum_over F gs = (\<Sum>i < length gs. F i (gs ! i))"

text \<open>Moving one goroutine changes a sum by that goroutine's share.\<close>

lemma sum_over_update:
  assumes "k < length gs"
  shows "sum_over F (gs[k := g]) + F k (gs ! k) = sum_over F gs + F k g"
proof -
  let ?I = "{..< length gs}"
  have rest: "(\<Sum>i \<in> ?I - {k}. F i (gs[k := g] ! i)) = (\<Sum>i \<in> ?I - {k}. F i (gs ! i))"
    by (rule sum.cong) simp_all
  have "sum_over F (gs[k := g]) = F k g + (\<Sum>i \<in> ?I - {k}. F i (gs ! i))"
    unfolding sum_over_def using assms rest by (simp add: sum.remove [of ?I k])
  moreover have "sum_over F gs = F k (gs ! k) + (\<Sum>i \<in> ?I - {k}. F i (gs ! i))"
    unfolding sum_over_def using assms by (simp add: sum.remove [of ?I k])
  ultimately show ?thesis by (simp add: ac_simps)
qed

lemma sum_over_pos:
  fixes F :: "nat \<Rightarrow> gstate \<Rightarrow> nat"
  shows "0 < sum_over F gs \<longleftrightarrow> (\<exists>i < length gs. 0 < F i (gs ! i))"
  unfolding sum_over_def by (simp add: sum_nonneg_eq_0_iff not_less [symmetric] flip: neq0_conv) auto

lemma sum_over_ge:
  fixes F :: "nat \<Rightarrow> gstate \<Rightarrow> nat"
  shows "i < length gs \<Longrightarrow> F i (gs ! i) \<le> sum_over F gs"
  unfolding sum_over_def by (rule member_le_sum) auto

subsection \<open>The invariant\<close>

definition all_started :: "nat \<Rightarrow> pool \<Rightarrow> bool" where
  "all_started n s \<longleftrightarrow>
     (case p_main s of
        Launch i \<Rightarrow> i \<le> n \<and> (\<forall>k < n. p_g s ! k = NotStarted \<longleftrightarrow> i \<le> k)
      | _ \<Rightarrow> \<forall>k < n. p_g s ! k \<noteq> NotStarted)"

definition collected :: "main_pc \<Rightarrow> result list" where
  "collected m = (case m of Drain acc \<Rightarrow> acc | Returned acc \<Rightarrow> acc | _ \<Rightarrow> [])"

definition after_close :: "main_pc \<Rightarrow> bool" where
  "after_close m = (case m of Drain _ \<Rightarrow> True | Returned _ \<Rightarrow> True | _ \<Rightarrow> False)"

definition pool_inv :: "(nat \<Rightarrow> result option) \<Rightarrow> nat \<Rightarrow> int \<Rightarrow> pool \<Rightarrow> bool" where
  "pool_inv job n conc s \<longleftrightarrow>
     length (p_g s) = n \<and> p_main s \<noteq> Panicked \<and> all_started n s \<and>
     p_sem s = sum_over (\<lambda>_. busy) (p_g s) \<and> p_sem s \<le> permits conc \<and>
     p_wg s = sum_over (\<lambda>_. active) (p_g s) \<and>
     (p_closed s \<longleftrightarrow> after_close (p_main s)) \<and>
     (after_close (p_main s) \<longrightarrow> (\<forall>k < n. p_g s ! k = Finished)) \<and>
     (\<forall>k < n. \<forall>r. p_g s ! k = Ready r \<longrightarrow> job k = Some r) \<and>
     mset (collected (p_main s)) + mset (p_out s) = sum_over (contribution job) (p_g s) \<and>
     (\<forall>acc. p_main s = Returned acc \<longrightarrow> p_out s = [])"

lemma pool_invD:
  assumes "pool_inv job n conc s"
  shows "length (p_g s) = n" "p_main s \<noteq> Panicked" "all_started n s"
    "p_sem s = sum_over (\<lambda>_. busy) (p_g s)" "p_sem s \<le> permits conc"
    "p_wg s = sum_over (\<lambda>_. active) (p_g s)" "p_closed s \<longleftrightarrow> after_close (p_main s)"
    "after_close (p_main s) \<Longrightarrow> k < n \<Longrightarrow> p_g s ! k = Finished"
    "k < n \<Longrightarrow> p_g s ! k = Ready r \<Longrightarrow> job k = Some r"
    "mset (collected (p_main s)) + mset (p_out s) = sum_over (contribution job) (p_g s)"
    "p_main s = Returned acc \<Longrightarrow> p_out s = []"
  using assms unfolding pool_inv_def by blast+

lemmas gstate_simps = busy_def active_def delivered_def contribution_def weight_def

text \<open>One goroutine moves on, with the matching changes to semaphore, counter and channel.\<close>

lemma pool_inv_move:
  assumes inv: "pool_inv job n conc s" and k: "k < n" "p_g s ! k = g"
    and g: "g \<noteq> NotStarted" "g' \<noteq> NotStarted" "g \<noteq> Finished"
    and sem: "sem' + busy g = p_sem s + busy g'" "sem' \<le> permits conc"
    and wg: "wg' + active g = p_wg s + active g'"
    and out: "mset out' + contribution job k g = mset (p_out s) + contribution job k g'"
    and ready: "\<And>r. g' = Ready r \<Longrightarrow> job k = Some r"
  shows "pool_inv job n conc (s\<lparr>p_g := (p_g s)[k := g'], p_wg := wg', p_sem := sem', p_out := out'\<rparr>)"
proof -
  note i = pool_invD [OF inv]
  have kl: "k < length (p_g s)" using k i(1) by simp
  have "\<not> after_close (p_main s)" using i(8) k g(3) by metis
  moreover have "sem' = sum_over (\<lambda>_. busy) ((p_g s)[k := g'])"
    using sum_over_update [OF kl, of "\<lambda>_. busy" g'] sem(1) i(4) k(2) by simp
  moreover have "wg' = sum_over (\<lambda>_. active) ((p_g s)[k := g'])"
    using sum_over_update [OF kl, of "\<lambda>_. active" g'] wg i(6) k(2) by simp
  moreover have "mset (collected (p_main s)) + mset out' = sum_over (contribution job) ((p_g s)[k := g'])"
  proof -
    have "mset (collected (p_main s)) + mset out' + contribution job k g =
        sum_over (contribution job) ((p_g s)[k := g']) + contribution job k g"
      using sum_over_update [OF kl, of "contribution job" g'] i(10) k(2) out
      by (metis (no_types) add.assoc)
    then show ?thesis by simp
  qed
  moreover have "all_started n (s\<lparr>p_g := (p_g s)[k := g'], p_wg := wg', p_sem := sem', p_out := out'\<rparr>)"
    using i(3) k g by (auto simp: all_started_def nth_list_update i(1) split: main_pc.splits)
  moreover have "\<forall>j < n. \<forall>r. (p_g s)[k := g'] ! j = Ready r \<longrightarrow> job j = Some r"
    using i(9) ready kl by (auto simp: nth_list_update)
  ultimately show ?thesis
    using i sem(2) by (simp add: pool_inv_def after_close_def split: main_pc.splits)
qed

lemma permits_pos: "0 < permits conc"
  by (simp add: permits_def)

lemma pool_inv_init: "pool_inv job n conc (pool_init n)"
  using permits_pos [of conc]
  by (auto simp: pool_inv_def pool_init_def all_started_def sum_over_def gstate_simps collected_def
      after_close_def)

lemma pool_inv_spawn:
  assumes inv: "pool_inv job n conc s" and m: "p_main s = Launch i" "i < n"
  shows "pool_inv job n conc
    (s\<lparr>p_main := Launch (Suc i), p_wg := Suc (p_wg s), p_g := (p_g s)[i := Starting]\<rparr>)"
proof -
  note iv = pool_invD [OF inv]
  have il: "i < length (p_g s)" using m iv(1) by simp
  have ns: "p_g s ! i = NotStarted" using iv(3) m by (simp add: all_started_def)
  have "sum_over (\<lambda>_. busy) ((p_g s)[i := Starting]) = p_sem s"
    using sum_over_update [OF il, of "\<lambda>_. busy" Starting] ns iv(4) by (simp add: gstate_simps)
  moreover have "sum_over (\<lambda>_. active) ((p_g s)[i := Starting]) = Suc (p_wg s)"
    using sum_over_update [OF il, of "\<lambda>_. active" Starting] ns iv(6) by (simp add: gstate_simps)
  moreover have "sum_over (contribution job) ((p_g s)[i := Starting]) = sum_over (contribution job) (p_g s)"
    using sum_over_update [OF il, of "contribution job" Starting] ns by (simp add: gstate_simps)
  moreover have "all_started n
      (s\<lparr>p_main := Launch (Suc i), p_wg := Suc (p_wg s), p_g := (p_g s)[i := Starting]\<rparr>)"
    using iv(3) m by (auto simp: all_started_def nth_list_update iv(1))
  ultimately show ?thesis
    using iv m by (auto simp: pool_inv_def nth_list_update after_close_def collected_def)
qed

definition jobs_total :: "(nat \<Rightarrow> result option) \<Rightarrow> nat \<Rightarrow> bool" where
  "jobs_total job n \<longleftrightarrow> (\<forall>i < n. job i \<noteq> None)"

text \<open>A waiting \<open>main\<close> sees the counter at zero only when every goroutine has finished.\<close>

lemma wg_zero_finished:
  assumes inv: "pool_inv job n conc s" and m: "p_main s = WaitWG" and z: "p_wg s = 0" and k: "k < n"
  shows "p_g s ! k = Finished"
proof -
  note i = pool_invD [OF inv]
  have "p_g s ! k \<noteq> NotStarted" using i(3) m k by (simp add: all_started_def)
  moreover have "active (p_g s ! k) = 0"
    using sum_over_ge [of k "p_g s" "\<lambda>_. active"] i(1,6) z k by simp
  ultimately show ?thesis by (simp add: active_def split: gstate.splits)
qed

lemma pool_inv_step:
  assumes inv: "pool_inv job n conc s" and jobs: "jobs_total job n" and st: "pool_step job n conc s s'"
  shows "pool_inv job n conc s'"
  using st
proof cases
  case (spawn i)
  then show ?thesis using pool_inv_spawn [OF inv] by simp
next
  case launched
  then show ?thesis using inv
    by (auto simp: pool_inv_def all_started_def after_close_def collected_def)
next
  case (acquire i)
  then show ?thesis using pool_inv_move [OF inv, of i Starting Probing "Suc (p_sem s)" "p_wg s" "p_out s"]
    by (simp add: gstate_simps)
next
  case (probed i r)
  then show ?thesis
    using pool_inv_move [OF inv, of i Probing "Ready r" "p_sem s" "p_wg s" "p_out s"] pool_invD(5) [OF inv]
    by (simp add: gstate_simps)
next
  case (probe_panic i)
  then show ?thesis using jobs by (auto simp: jobs_total_def)
next
  case (send i r)
  then have "the (job i) = r" using pool_invD(9) [OF inv] by simp
  then show ?thesis
    using pool_inv_move [OF inv, of i "Ready r" Sent "p_sem s" "p_wg s" "p_out s @ [r]"] send
      pool_invD(5) [OF inv] by (simp add: gstate_simps)
next
  case (send_closed i r)
  then show ?thesis using pool_invD(7,8) [OF inv] by fastforce
next
  case (release i)
  then show ?thesis
    using pool_inv_move [OF inv, of i Sent Released "p_sem s - 1" "p_wg s" "p_out s"] pool_invD(5) [OF inv]
    by (simp add: gstate_simps)
next
  case (wg_done i)
  then show ?thesis
    using pool_inv_move [OF inv, of i Released Finished "p_sem s" "p_wg s - 1" "p_out s"]
      pool_invD(5) [OF inv] by (simp add: gstate_simps)
next
  case (wg_negative i)
  have "active (p_g s ! i) \<le> p_wg s"
    using sum_over_ge [of i "p_g s" "\<lambda>_. active"] wg_negative(3) pool_invD(1,6) [OF inv] by simp
  then show ?thesis using wg_negative by (simp add: active_def)
next
  case close_out
  then show ?thesis using inv wg_zero_finished [OF inv]
    by (auto simp: pool_inv_def all_started_def after_close_def collected_def)
next
  case (receive acc r rs)
  then show ?thesis using inv
    by (auto simp: pool_inv_def all_started_def after_close_def collected_def)
next
  case (return acc)
  then show ?thesis using inv
    by (auto simp: pool_inv_def all_started_def after_close_def collected_def)
qed

lemma pool_reach_inv: "jobs_total job n \<Longrightarrow> pool_reach job n conc s \<Longrightarrow> pool_inv job n conc s"
  by (erule pool_reach.induct) (auto intro: pool_inv_init pool_inv_step)

subsection \<open>Termination\<close>

definition main_weight :: "nat \<Rightarrow> main_pc \<Rightarrow> nat" where
  "main_weight n m =
     (case m of Launch i \<Rightarrow> 4 + (n - i) | WaitWG \<Rightarrow> 3 | Drain _ \<Rightarrow> 2 | Returned _ \<Rightarrow> 1 | Panicked \<Rightarrow> 0)"

definition pool_measure :: "nat \<Rightarrow> pool \<Rightarrow> nat" where
  "pool_measure n s = sum_over (\<lambda>_. weight) (p_g s) + length (p_out s) + main_weight n (p_main s)"

lemma pool_step_measure:
  assumes inv: "pool_inv job n conc s" and st: "pool_step job n conc s s'"
  shows "pool_measure n s' < pool_measure n s"
proof -
  have upd: "sum_over (\<lambda>_. weight) ((p_g s)[k := g]) + weight (p_g s ! k) = sum_over (\<lambda>_. weight) (p_g s) + weight g"
    if "k < n" for k g
    using sum_over_update [of k "p_g s" "\<lambda>_. weight" g] pool_invD(1) [OF inv] that by simp
  have ns: "p_g s ! i = NotStarted" if "p_main s = Launch i" "i < n" for i
    using pool_invD(3) [OF inv] that by (simp add: all_started_def)
  have main: "0 < main_weight n (p_main s)"
    using pool_invD(2) [OF inv] by (simp add: main_weight_def split: main_pc.split)
  from st show ?thesis
  proof cases
    case (spawn i)
    then show ?thesis using upd [of i Starting] ns by (simp add: pool_measure_def main_weight_def weight_def)
  next
    case (acquire i)
    then show ?thesis using upd [of i Probing] by (simp add: pool_measure_def weight_def)
  next
    case (probed i r)
    then show ?thesis using upd [of i "Ready r"] by (simp add: pool_measure_def weight_def)
  next
    case (send i r)
    then show ?thesis using upd [of i Sent] by (simp add: pool_measure_def weight_def)
  next
    case (release i)
    then show ?thesis using upd [of i Released] by (simp add: pool_measure_def weight_def)
  next
    case (wg_done i)
    then show ?thesis using upd [of i Finished] by (simp add: pool_measure_def weight_def)
  next
    case (probe_panic i)
    then show ?thesis using main by (simp add: pool_measure_def main_weight_def)
  next
    case (send_closed i r)
    then show ?thesis using main by (simp add: pool_measure_def main_weight_def)
  next
    case (wg_negative i)
    then show ?thesis using main by (simp add: pool_measure_def main_weight_def)
  qed (simp_all add: pool_measure_def main_weight_def)
qed

subsection \<open>Progress\<close>

text \<open>How many results were delivered: what \<open>main\<close> has and what is in the channel.\<close>

lemma size_sum:
  fixes f :: "'b \<Rightarrow> 'a multiset"
  shows "finite A \<Longrightarrow> size (\<Sum>i \<in> A. f i) = (\<Sum>i \<in> A. size (f i))"
  by (induction A rule: finite_induct) auto

lemma size_contributions:
  "size (sum_over (contribution job) gs :: result multiset) = card {i. i < length gs \<and> delivered (gs ! i)}"
proof -
  have "size (sum_over (contribution job) gs) = (\<Sum>i < length gs. if delivered (gs ! i) then 1 else 0)"
    unfolding sum_over_def contribution_def by (simp add: size_sum if_distrib cong: if_cong)
  also have "\<dots> = card {i \<in> {..<length gs}. delivered (gs ! i)}"
    by (simp add: sum.If_cases Int_def conj_commute)
  finally show ?thesis by (simp add: lessThan_def)
qed

text \<open>The channel holds one result per goroutine, so a send finds room.\<close>

lemma send_room:
  assumes inv: "pool_inv job n conc s" and k: "k < n" "\<not> delivered (p_g s ! k)"
  shows "length (p_out s) < n"
proof -
  note i = pool_invD [OF inv]
  have "length (p_out s) \<le> size (mset (collected (p_main s)) + mset (p_out s))" by simp
  also have "\<dots> = card {j. j < n \<and> delivered (p_g s ! j)}"
    unfolding i(10) using size_contributions [of job "p_g s"] i(1) by simp
  also have "\<dots> < card {j. j < n}"
    using k by (intro psubset_card_mono) auto
  finally show ?thesis by simp
qed

lemma busy_progress:
  assumes inv: "pool_inv job n conc s" and k: "k < n" "0 < busy (p_g s ! k)"
  shows "\<exists>s'. pool_step job n conc s s'"
proof -
  note i = pool_invD [OF inv]
  have m: "p_main s \<noteq> Panicked" by (rule i(2))
  show ?thesis
  proof (cases "p_g s ! k")
    case Probing
    then show ?thesis
      using pool_step.probed [OF m k(1)] pool_step.probe_panic [OF m k(1)] by (cases "job k") blast+
  next
    case (Ready r)
    then have "length (p_out s) < n" by (intro send_room [OF inv k(1)]) (simp add: delivered_def)
    then show ?thesis
      using pool_step.send [OF m k(1) Ready] pool_step.send_closed [OF m k(1) Ready] by blast
  next
    case Sent
    have "0 < p_sem s" using sum_over_ge [of k "p_g s" "\<lambda>_. busy"] k i(1,4) by simp
    then show ?thesis using pool_step.release [OF m k(1) Sent] by blast
  qed (use k in \<open>simp_all add: busy_def\<close>)
qed

lemma pool_progress:
  assumes inv: "pool_inv job n conc s" and "\<nexists>acc. p_main s = Returned acc"
  shows "\<exists>s'. pool_step job n conc s s'"
proof (cases "p_main s")
  note i = pool_invD [OF inv]
  have m: "p_main s \<noteq> Panicked" by (rule i(2))
  case (Launch j)
  then have "j \<le> n" using i(3) by (simp add: all_started_def)
  then consider "j < n" | "p_main s = Launch n" using Launch by fastforce
  then show ?thesis
  proof cases
    case 1
    then show ?thesis using pool_step.spawn [OF Launch] by blast
  next
    case 2
    then show ?thesis using pool_step.launched by blast
  qed
next
  note i = pool_invD [OF inv]
  have m: "p_main s \<noteq> Panicked" by (rule i(2))
  case WaitWG
  show ?thesis
  proof (cases "p_wg s = 0")
    case True
    then show ?thesis using pool_step.close_out WaitWG by blast
  next
    case False
    then obtain k where k: "k < n" "0 < active (p_g s ! k)"
      using sum_over_pos [of "\<lambda>_. active" "p_g s"] i(1,6) by auto
    consider "0 < busy (p_g s ! k)" | "p_g s ! k = Starting" | "p_g s ! k = Released"
      using k by (auto simp: active_def busy_def split: gstate.splits)
    then show ?thesis
    proof cases
      case 1
      then show ?thesis using busy_progress [OF inv k(1)] by blast
    next
      case 2
      show ?thesis
      proof (cases "p_sem s < permits conc")
        case True
        then show ?thesis using pool_step.acquire [OF m k(1) 2] by blast
      next
        case False
        then have "0 < p_sem s" using permits_pos [of conc] by simp
        then obtain j where "j < n" "0 < busy (p_g s ! j)"
          using sum_over_pos [of "\<lambda>_. busy" "p_g s"] i(1,4) by auto
        then show ?thesis using busy_progress [OF inv] by blast
      qed
    next
      case 3
      then show ?thesis using pool_step.wg_done [OF m k(1) 3] False by blast
    qed
  qed
next
  case (Drain acc)
  then have "p_closed s" using pool_invD(7) [OF inv] by (simp add: after_close_def)
  then show ?thesis using pool_step.receive [OF Drain] pool_step.return [OF Drain]
    by (cases "p_out s") blast+
qed (use assms pool_invD(2) [OF inv] in auto)

text \<open>
  Every run comes to an end, and it ends with one result per target, in the order the
  goroutines delivered them.
\<close>

lemma sum_over_finished:
  assumes "length gs = n" "\<forall>k < n. gs ! k = Finished"
  shows "sum_over (contribution job) gs = mset (map (\<lambda>i. the (job i)) [0..<n])"
proof -
  have "sum_over (contribution job) gs = (\<Sum>i < n. {#the (job i)#})"
    using assms by (simp add: sum_over_def contribution_def delivered_def)
  also have "\<dots> = mset (map (\<lambda>i. the (job i)) [0..<n])"
    by (induction n) simp_all
  finally show ?thesis .
qed

lemma returned_results:
  assumes inv: "pool_inv job n conc s" and ret: "p_main s = Returned acc"
  shows "mset acc = mset (map (\<lambda>i. the (job i)) [0..<n])"
proof -
  note i = pool_invD [OF inv]
  have "\<forall>k < n. p_g s ! k = Finished" using i(8) ret by (simp add: after_close_def)
  then have "sum_over (contribution job) (p_g s) = mset (map (\<lambda>i. the (job i)) [0..<n])"
    by (rule sum_over_finished [OF i(1)])
  then show ?thesis using i(10) i(11) [OF ret] ret by (simp add: collected_def)
qed

lemma pool_completes:
  assumes "pool_inv job n conc s" "jobs_total job n"
  shows "\<exists>s' acc. (pool_step job n conc)\<^sup>*\<^sup>* s s' \<and> p_main s' = Returned acc"
  using assms
proof (induction "pool_measure n s" arbitrary: s rule: less_induct)
  case less
  show ?case
  proof (cases "\<exists>acc. p_main s = Returned acc")
    case True
    then show ?thesis by blast
  next
    case False
    then obtain s1 where st: "pool_step job n conc s s1" using pool_progress [OF less.prems(1)] by blast
    have "pool_measure n s1 < pool_measure n s" by (rule pool_step_measure [OF less.prems(1) st])
    from less.hyps [OF this pool_inv_step [OF less.prems(1,2) st] less.prems(2)] obtain s' acc where
      "(pool_step job n conc)\<^sup>*\<^sup>* s1 s'" "p_main s' = Returned acc" by blast
    then show ?thesis using st by (blast intro: converse_rtranclp_into_rtranclp)
  qed
qed

text \<open>A run of \<open>k\<close> steps uses up \<open>k\<close> units of the measure, so no run is longer than that.\<close>

inductive pool_run :: "(nat \<Rightarrow> result option) \<Rightarrow> nat \<Rightarrow> int \<Rightarrow> nat \<Rightarrow> pool \<Rightarrow> bool"
  for job :: "nat \<Rightarrow> result option" and n :: nat and conc :: int where
  run_start: "pool_run job n conc 0 (pool_init n)"
| run_step: "pool_run job n conc k s \<Longrightarrow> pool_step job n conc s s' \<Longrightarrow> pool_run job n conc (Suc k) s'"

lemma pool_init_measure: "pool_measure n (pool_init n) = 8 * n + 4"
  by (simp add: pool_measure_def pool_init_def main_weight_def sum_over_def weight_def)

lemma pool_run_bound:
  assumes "pool_run job n conc k s" "jobs_total job n"
  shows "pool_inv job n conc s \<and> k + pool_measure n s \<le> 8 * n + 4"
  using assms(1)
proof induction
  case run_start
  then show ?case by (simp add: pool_inv_init pool_init_measure)
next
  case (run_step k s s')
  then show ?case
    using pool_inv_step [OF _ assms(2) run_step.hyps(2)] pool_step_measure [OF _ run_step.hyps(2)] by fastforce
qed

subsection \<open>The goroutines of \<open>runAll\<close>\<close>

text \<open>
  What a goroutine computes: it probes its target, in surroundings of its own, and stamps the
  result with the time the probe finished.
\<close>

definition probe_job ::
  "(nat \<Rightarrow> world) \<Rightarrow> target list \<Rightarrow> duration \<Rightarrow> nat \<Rightarrow> result option" where
  "probe_job Ws targets timeout i =
     (case probe (Ws i) (targets ! i) timeout [] of
        None \<Rightarrow> None
      | Some (r, h) \<Rightarrow> (case sys_now (Ws i) h of (now, h') \<Rightarrow> Some (r\<lparr>r_Timestamp := now\<rparr>)))"

definition runAll_step ::
  "(nat \<Rightarrow> world) \<Rightarrow> target list \<Rightarrow> duration \<Rightarrow> int \<Rightarrow> pool \<Rightarrow> pool \<Rightarrow> bool" where
  "runAll_step Ws targets timeout conc =
     pool_step (probe_job Ws targets timeout) (length targets) conc"

definition runAll_reach ::
  "(nat \<Rightarrow> world) \<Rightarrow> target list \<Rightarrow> duration \<Rightarrow> int \<Rightarrow> pool \<Rightarrow> bool" where
  "runAll_reach Ws targets timeout conc =
     pool_reach (probe_job Ws targets timeout) (length targets) conc"

lemma probe_job_total: "jobs_total (probe_job Ws targets timeout) n"
proof -
  have "probe_job Ws targets timeout i \<noteq> None" for i
    using probe_total [of "Ws i" "targets ! i" timeout "[]"] by (auto simp: probe_job_def sys_now_def)
  then show ?thesis by (simp add: jobs_total_def)
qed

lemma runAll_inv:
  "runAll_reach Ws targets timeout conc s \<Longrightarrow>
     pool_inv (probe_job Ws targets timeout) (length targets) conc s"
  unfolding runAll_reach_def by (rule pool_reach_inv [OF probe_job_total])

text \<open>\<open>runAll\<close> can always return.\<close>

lemma pool_reach_steps: "(pool_step job n conc)\<^sup>*\<^sup>* s s' \<Longrightarrow> pool_reach job n conc s \<Longrightarrow> pool_reach job n conc s'"
  by (induction rule: rtranclp_induct) (auto intro: pool_reach.step)

lemma runAll_returns: "\<exists>s rs. runAll_reach Ws targets timeout conc s \<and> p_main s = Returned rs"
proof -
  have start: "runAll_reach Ws targets timeout conc (pool_init (length targets))"
    unfolding runAll_reach_def by (rule pool_reach.start)
  obtain s rs where "(pool_step (probe_job Ws targets timeout) (length targets) conc)\<^sup>*\<^sup>*
      (pool_init (length targets)) s" "p_main s = Returned rs"
    using pool_completes [OF runAll_inv [OF start] probe_job_total] by blast
  then show ?thesis using pool_reach_steps start unfolding runAll_reach_def by blast
qed

text \<open>At any moment, the goroutines between \<open>sem <- struct{}{}\<close> and the release of their permit.\<close>

definition in_flight :: "pool \<Rightarrow> nat" where
  "in_flight s = length (filter (\<lambda>g. busy g = 1) (p_g s))"

lemma sum_over_filter: "sum_over (\<lambda>_. busy) gs = length (filter (\<lambda>g. busy g = 1) gs)"
proof -
  have "sum_over (\<lambda>_. busy) gs = sum_list (map busy gs)"
    by (simp add: sum_over_def sum_list_sum_nth lessThan_atLeast0)
  also have "\<dots> = length (filter (\<lambda>g. busy g = 1) gs)"
    by (induction gs) (auto simp: busy_def split: gstate.splits)
  finally show ?thesis .
qed

lemma in_flight_bound: "pool_inv job n conc s \<Longrightarrow> in_flight s \<le> permits conc"
  using pool_invD(4,5) by (fastforce simp: in_flight_def sum_over_filter)

text \<open>The results a finished run returns, whatever the interleaving was.\<close>

definition runAll_results :: "(nat \<Rightarrow> world) \<Rightarrow> target list \<Rightarrow> duration \<Rightarrow> result list" where
  "runAll_results Ws targets timeout =
     map (\<lambda>i. the (probe_job Ws targets timeout i)) [0..<length targets]"

end
