(* ===== verification/GoNumber.thy ===== *)
theory GoNumber
  imports GoFloat JsonText
begin

text \<open>
  \<open>float64\<close> values as JSON numbers: the shortest decimal that rounds back to the value, in the
  layout \<open>encoding/json\<close> gives it, and the rounding of a literal that \<open>strconv.ParseFloat\<close> (and
  Python's \<open>float\<close>) does. Seventeen digits are always enough, so no value is lost in a report.
\<close>

subsection \<open>Representable numbers\<close>

lemma ilog2_unique:
  assumes "2 powi k \<le> x" "x < 2 powi (k + 1)"
  shows "ilog2 x = k"
proof -
  have "(0 :: rat) < 2 powi k" by simp
  with assms(1) have pos: "0 < x" by linarith
  note b = ilog2_bounds [OF pos]
  have "(2 :: rat) powi ilog2 x < 2 powi (k + 1)" "(2 :: rat) powi k < 2 powi (ilog2 x + 1)"
    using assms b by linarith+
  then have "ilog2 x < k + 1" "k < ilog2 x + 1"
    using power_int_increasing [of "k + 1" "ilog2 x" "2 :: rat"]
      power_int_increasing [of "ilog2 x + 1" k "2 :: rat"] by (fastforce simp: not_le [symmetric])+
  then show ?thesis by linarith
qed

lemma ilog2_scale:
  assumes "0 < x"
  shows "ilog2 (x * 2 powi e) = ilog2 x + e"
proof (rule ilog2_unique)
  have pos: "(0 :: rat) < 2 powi e" by simp
  show "2 powi (ilog2 x + e) \<le> x * 2 powi e"
    using ilog2_bounds(1) [OF assms] pos by (simp add: power_int_add)
  have "2 powi (ilog2 x + e + 1) = (2 :: rat) powi (ilog2 x + 1) * 2 powi e"
    using power_int_add [of "2 :: rat" "ilog2 x + 1" e] by (simp add: ac_simps)
  then show "x * 2 powi e < 2 powi (ilog2 x + e + 1)"
    using ilog2_bounds(2) [OF assms] pos by simp
qed

lemma fl_scale: "fl (x * 2 powi e) = fl x * 2 powi e"
proof (cases "x = 0")
  case False
  define k where "k = ilog2 \<bar>x\<bar>"
  have k: "ilog2 \<bar>x * 2 powi e\<bar> = k + e"
    using ilog2_scale [of "\<bar>x\<bar>" e] False by (simp add: k_def abs_mult)
  have split': "(2 :: rat) powi (k + e - 52) = 2 powi (k - 52) * 2 powi e"
    using power_int_add [of "2 :: rat" "k - 52" e] by (simp add: algebra_simps)
  have "x * 2 powi e / 2 powi (k + e - 52) = x / 2 powi (k - 52)"
    unfolding split' by simp
  then have "fl (x * 2 powi e) = of_int (round_even (x / 2 powi (k - 52))) * 2 powi (k + e - 52)"
    using False by (simp only: fl_def k Let_def) simp
  also have "\<dots> = fl x * 2 powi e"
    using False by (simp add: fl_def k_def [symmetric] Let_def split')
  finally show ?thesis .
qed simp

lemma fl_of_int_scaled:
  assumes "\<bar>m\<bar> \<le> 2 ^ 53"
  shows "fl (of_int m * 2 powi e) = of_int m * 2 powi e"
proof (cases "\<bar>m\<bar> = 2 ^ 53")
  case True
  define i :: int where "i = (if m < 0 then - 1 else 1)"
  have m: "m = i * 2 ^ 53" using True by (auto simp: i_def)
  have "(of_int m :: rat) * 2 powi e = of_int i * 2 powi (53 + e)"
    by (simp add: m power_int_add)
  then show ?thesis using fl_of_int_exact [of i] by (simp add: fl_scale i_def)
next
  case False
  with assms have "\<bar>m\<bar> < 2 ^ 53" by simp
  then show ?thesis by (simp add: fl_scale fl_of_int_exact)
qed

text \<open>A rounded number is representable.\<close>

lemma fl_form:
  obtains m where "fl x = of_int m * 2 powi (ilog2 \<bar>x\<bar> - 52)" "\<bar>m\<bar> \<le> 2 ^ 53"
proof (cases "x = 0")
  case False
  define e where "e = ilog2 \<bar>x\<bar> - 52"
  define m where "m = round_even (x / 2 powi e)"
  have pos: "(0 :: rat) < 2 powi e" by simp
  have "\<bar>x\<bar> < 2 powi (53 + e)"
    using ilog2_bounds(2) [of "\<bar>x\<bar>"] False by (simp add: e_def add.commute)
  then have "\<bar>x\<bar> < 2 ^ 53 * 2 powi e" by (simp add: power_int_add)
  then have "\<bar>x / 2 powi e\<bar> < 2 ^ 53"
    using pos by (simp add: abs_divide pos_divide_less_eq)
  then have "\<bar>of_int m :: rat\<bar> < 2 ^ 53 + 1"
    using round_even_error [of "x / 2 powi e"] unfolding m_def by linarith
  then have "(of_int \<bar>m\<bar> :: rat) < of_int (2 ^ 53 + 1)" by simp
  then have "\<bar>m\<bar> \<le> 2 ^ 53" by (simp only: of_int_less_iff)
  moreover have "fl x = of_int m * 2 powi e"
    using False by (simp add: fl_def e_def m_def Let_def)
  ultimately show ?thesis using that by (simp add: e_def)
qed (use that [of 0] in simp)

lemma fl_fl [simp]: "fl (fl x) = fl x"
proof -
  obtain m where "fl x = of_int m * 2 powi (ilog2 \<bar>x\<bar> - 52)" "\<bar>m\<bar> \<le> 2 ^ 53" by (rule fl_form)
  then show ?thesis using fl_of_int_scaled by simp
qed

text \<open>Everything closer to a representable number than \<open>2 ^ -54\<close> of it rounds to it.\<close>

lemma fl_close:
  assumes "0 < x" "fl x = x" "\<bar>y - x\<bar> < x / 2 ^ 54"
  shows "fl y = x"
proof -
  define e where "e = ilog2 x - 52"
  define M where "M = round_even (x / 2 powi e)"
  have pos: "(0 :: rat) < 2 powi e" by simp
  have x: "x = of_int M * 2 powi e"
    using assms(1,2) by (simp add: fl_def e_def M_def Let_def)
  have lb: "2 ^ 52 * 2 powi e \<le> x" and ub: "x < 2 ^ 53 * 2 powi e"
    using ilog2_bounds [OF assms(1)] power_int_add [of "2 :: rat" 52 e] power_int_add [of "2 :: rat" 53 e]
    by (simp_all add: e_def add.commute)
  have "(of_int (2 ^ 52) :: rat) \<le> of_int M" "(of_int M :: rat) < of_int (2 ^ 53)"
    using lb ub pos by (simp_all add: x)
  then have M: "2 ^ 52 \<le> M" "M < 2 ^ 53" by (simp_all only: of_int_le_iff of_int_less_iff)
  have "x / 2 ^ 54 < 2 powi e / 2" using ub by simp
  then have near: "\<bar>y - x\<bar> < 2 powi e / 2" using assms(3) by linarith
  have "x / 2 ^ 54 \<le> x" using assms(1) by simp
  then have y0: "0 < y" using assms(3) by linarith
  show ?thesis
  proof (cases "y < x \<and> M = 2 ^ 52")
    case False
    have "(of_int (2 ^ 52) :: rat) * 2 powi e \<le> y"
    proof (cases "y < x")
      case True
      with False M have "2 ^ 52 + 1 \<le> M" by simp
      then have "(of_int (2 ^ 52 + 1) :: rat) \<le> of_int M" by (simp only: of_int_le_iff)
      then have "(of_int (2 ^ 52 + 1) :: rat) * 2 powi e \<le> x"
        unfolding x using pos by (intro mult_right_mono) auto
      moreover have "x - y < 2 powi e / 2" using near by linarith
      ultimately have "(of_int (2 ^ 52 + 1) :: rat) * 2 powi e - 2 powi e / 2 \<le> y"
        by linarith
      then show ?thesis using pos by (simp only: of_int_add of_int_1 distrib_right mult_1)
    next
      case False
      with lb show ?thesis by simp
    qed
    moreover have "y < 2 ^ 53 * 2 powi e"
    proof -
      have "(of_int (M + 1) :: rat) \<le> of_int (2 ^ 53)" using M by (simp only: of_int_le_iff)
      then have "(of_int M + 1) * 2 powi e \<le> 2 ^ 53 * (2 powi e :: rat)"
        using pos by (intro mult_right_mono) auto
      moreover have "y - x < 2 powi e / 2" using near by linarith
      ultimately show ?thesis using pos unfolding x by (simp only: distrib_right mult_1)
    qed
    ultimately have "ilog2 y = e + 52"
      by (intro ilog2_unique) (simp_all add: power_int_add mult.commute)
    moreover have "\<bar>y / 2 powi e - of_int M\<bar> < 1/2"
    proof -
      have "y / 2 powi e - of_int M = (y - x) / 2 powi e" by (simp add: x diff_divide_distrib)
      then show ?thesis using near pos by (simp add: abs_divide pos_divide_less_eq)
    qed
    then have "round_even (y / 2 powi e) = M" by (rule round_even_unique)
    ultimately show ?thesis using y0 by (simp add: fl_def Let_def x)
  next
    case True
    then have x52: "x = 2 ^ 52 * 2 powi e" by (simp add: x)
    have e1: "(2 :: rat) powi e = 2 * 2 powi (e - 1)"
      using power_int_add [of "2 :: rat" 1 "e - 1"] by simp
    have pos1: "(0 :: rat) < 2 powi (e - 1)" by simp
    have near1: "\<bar>y - x\<bar> < 2 powi (e - 1) / 2"
      using assms(3) by (simp add: x52 e1)
    have "ilog2 y = (e - 1) + 52"
    proof (rule ilog2_unique)
      have up: "(2 :: rat) powi (e - 1 + 52) = 2 ^ 52 * 2 powi (e - 1)"
        "(2 :: rat) powi (e - 1 + 52 + 1) = 2 ^ 53 * 2 powi (e - 1)"
        using power_int_add [of "2 :: rat" "e - 1" 52] power_int_add [of "2 :: rat" "e - 1" 53]
        by (simp_all add: algebra_simps)
      have "x - y < 2 powi (e - 1) / 2" using near1 by linarith
      then have "2 ^ 53 * 2 powi (e - 1) - 2 powi (e - 1) / 2 \<le> y" by (simp add: x52 e1)
      then have "9007199254740992 * 2 powi (e - 1) - 2 powi (e - 1) / 2 \<le> y" by simp
      with pos1 have "4503599627370496 * 2 powi (e - 1) \<le> y" by linarith
      then show "2 powi (e - 1 + 52) \<le> y" unfolding up by simp
      show "y < 2 powi (e - 1 + 52 + 1)" using True unfolding up by (simp add: x52 e1)
    qed
    moreover have "\<bar>y / 2 powi (e - 1) - of_int (2 ^ 53)\<bar> < 1/2"
    proof -
      have "y / 2 powi (e - 1) - of_int (2 ^ 53) = (y - x) / 2 powi (e - 1)"
        by (simp add: x52 e1 diff_divide_distrib)
      then show ?thesis using near1 pos1 by (simp add: abs_divide pos_divide_less_eq)
    qed
    then have "round_even (y / 2 powi (e - 1)) = 2 ^ 53" by (rule round_even_unique)
    ultimately show ?thesis using y0 by (simp add: fl_def Let_def x52 e1)
  qed
qed

subsection \<open>The shortest decimal\<close>

text \<open>The number of decimal digits, and the decimal exponent of a positive rational.\<close>

function ndigits :: "int \<Rightarrow> int" where
  "ndigits n = (if n \<le> 0 then 0 else 1 + ndigits (n div 10))"
  by pat_completeness auto
termination
  by (relation "measure nat") auto

declare ndigits.simps [simp del]

lemma ndigits_nonneg: "0 \<le> ndigits n"
proof (induction n rule: ndigits.induct)
  case (1 n)
  then show ?case by (subst ndigits.simps) simp
qed

lemma ndigits_bounds: "0 < n \<Longrightarrow> n < 10 ^ nat (ndigits n) \<and> 10 ^ nat (ndigits n) \<le> 10 * n"
proof (induction n rule: ndigits.induct)
  case (1 n)
  have unfold: "nat (ndigits n) = Suc (nat (ndigits (n div 10)))"
    using "1.prems" ndigits_nonneg [of "n div 10"] by (subst ndigits.simps) simp
  show ?case
  proof (cases "n div 10 = 0")
    case True
    with "1.prems" show ?thesis unfolding unfold by (simp add: ndigits.simps)
  next
    case False
    with "1.prems" have "0 < n div 10" by linarith
    with "1" have "n div 10 < 10 ^ nat (ndigits (n div 10)) \<and> 10 ^ nat (ndigits (n div 10)) \<le> 10 * (n div 10)"
      by simp
    then show ?thesis unfolding unfold by (simp; linarith)
  qed
qed

lemma ndigits_rat:
  assumes "0 < n"
  shows "(of_int n :: rat) < 10 ^ nat (ndigits n)" and "(10 :: rat) ^ nat (ndigits n) \<le> 10 * of_int n"
proof -
  have "(of_int n :: rat) < of_int (10 ^ nat (ndigits n))"
    using ndigits_bounds [OF assms] by (simp only: of_int_less_iff)
  then show "(of_int n :: rat) < 10 ^ nat (ndigits n)" by simp
  have "(of_int (10 ^ nat (ndigits n)) :: rat) \<le> of_int (10 * n)"
    using ndigits_bounds [OF assms] by (simp only: of_int_le_iff)
  then show "(10 :: rat) ^ nat (ndigits n) \<le> 10 * of_int n" by simp
qed

definition ilog10 :: "rat \<Rightarrow> int" where
  "ilog10 x =
     (let pq = quotient_of x;
          e = ndigits (fst pq) - ndigits (snd pq)
      in if 10 powi e \<le> x then e else e - 1)"

lemma ilog10_bounds:
  assumes "0 < x"
  shows "10 powi ilog10 x \<le> x" and "x < 10 powi (ilog10 x + 1)"
proof -
  obtain p q where pq: "quotient_of x = (p, q)" by (cases "quotient_of x")
  then have x: "x = of_int p / of_int q" and q: "0 < q"
    by (simp_all add: quotient_of_div quotient_of_denom_pos)
  with assms have p: "0 < p" by (simp add: zero_less_divide_iff)
  define a where "a = nat (ndigits p)"
  define b where "b = nat (ndigits q)"
  note pr = ndigits_rat [OF p, folded a_def]
  note qr = ndigits_rat [OF q, folded b_def]
  have q': "(0 :: rat) < of_int q" using q by simp
  have ab: "ndigits p = int a" "ndigits q = int b"
    by (simp_all add: a_def b_def ndigits_nonneg)
  let ?e = "int a - int b"
  have pw: "(10 :: rat) powi ?e = 10 ^ a / 10 ^ b" by (simp add: power_int_diff)
  have "(of_int p :: rat) * 10 ^ b \<le> of_int p * (10 * of_int q)"
    using p qr(2) by (intro mult_left_mono) auto
  also have "\<dots> < 10 ^ a * (10 * of_int q)"
    using pr(1) q' by (intro mult_strict_right_mono) auto
  finally have "(of_int p :: rat) * 10 ^ b < 10 ^ a * (10 * of_int q)" .
  then have "x < 10 ^ a / 10 ^ b * 10"
    using q' by (simp add: x field_simps)
  also have "\<dots> = 10 powi (?e + 1)"
    using power_int_add [of "10 :: rat" ?e 1] pw by simp
  finally have up: "x < 10 powi (?e + 1)" .
  have "(10 :: rat) ^ a * of_int q \<le> 10 * of_int p * 10 ^ b"
    using pr(2) qr(1) q' p by (intro mult_mono) auto
  then have "10 ^ a / 10 ^ b / 10 \<le> x"
    using q' by (simp add: x field_simps)
  then have low: "10 powi (?e - 1) \<le> x"
    using power_int_diff [of "10 :: rat" ?e 1] pw by simp
  have "ilog10 x = (if 10 powi ?e \<le> x then ?e else ?e - 1)"
    by (simp add: ilog10_def pq ab Let_def)
  then show "10 powi ilog10 x \<le> x" "x < 10 powi (ilog10 x + 1)"
    using up low by (simp_all add: not_le)
qed

text \<open>
  With \<open>n\<close> digits, one of the two neighbouring decimals if it rounds to the number, the nearer
  one if both do.
\<close>

definition candidate :: "rat \<Rightarrow> nat \<Rightarrow> (int \<times> int) option" where
  "candidate x n =
     (let e = ilog10 x - int n + 1; s = x / 10 powi e; m = \<lfloor>s\<rfloor>; r = s - of_int m;
          lo = (fl (of_int m * 10 powi e) = x); hi = (fl (of_int (m + 1) * 10 powi e) = x)
      in if lo \<and> (\<not> hi \<or> r < 1/2 \<or> r = 1/2 \<and> even m) then Some (m, e)
         else if hi then Some (m + 1, e) else None)"

fun first_some :: "('a \<Rightarrow> 'b option) \<Rightarrow> 'a list \<Rightarrow> 'b option" where
  "first_some f [] = None"
| "first_some f (n # ns) = (case f n of Some y \<Rightarrow> Some y | None \<Rightarrow> first_some f ns)"

definition shortest :: "rat \<Rightarrow> (int \<times> int) option" where
  "shortest x = first_some (candidate x) [1..<18]"

lemma candidate_sound:
  assumes "candidate x n = Some (m, e)" "0 < x"
  shows "fl (of_int m * 10 powi e) = x \<and> 0 < m"
proof -
  have "fl (of_int m * 10 powi e) = x" and "m = \<lfloor>x / 10 powi e\<rfloor> \<or> m = \<lfloor>x / 10 powi e\<rfloor> + 1"
    using assms(1) by (auto simp: candidate_def Let_def split: if_splits)
  moreover have "0 \<le> \<lfloor>x / 10 powi e\<rfloor>" using assms(2) by simp
  moreover have "m \<noteq> 0" using assms(2) calculation(1) by auto
  ultimately show ?thesis by linarith
qed

lemma first_some_SomeD: "first_some f ns = Some y \<Longrightarrow> \<exists>n \<in> set ns. f n = Some y"
  by (induction ns) (auto split: option.splits)

lemma first_some_found: "n \<in> set ns \<Longrightarrow> f n \<noteq> None \<Longrightarrow> first_some f ns \<noteq> None"
  by (induction ns) (auto split: option.splits)

text \<open>Seventeen digits are enough.\<close>

lemma candidate_17:
  assumes "0 < x" "fl x = x"
  shows "candidate x 17 \<noteq> None"
proof -
  define e where "e = ilog10 x - 16"
  define m where "m = \<lfloor>x / 10 powi e\<rfloor>"
  have pos: "(0 :: rat) < 10 powi e" by simp
  have "10 powi ilog10 x = (10 :: rat) ^ 16 * 10 powi e"
    using power_int_add [of "10 :: rat" 16 e] by (simp add: e_def)
  then have step: "10 powi e \<le> x / 10 ^ 16" using ilog10_bounds(1) [OF assms(1)] by simp
  have near: "fl (of_int i * 10 powi e) = x" if "\<bar>x / 10 powi e - of_int i\<bar> \<le> 1/2" for i
  proof -
    have "of_int i * 10 powi e - x = (of_int i - x / 10 powi e) * 10 powi e"
      by (simp add: left_diff_distrib)
    then have "\<bar>of_int i * 10 powi e - x\<bar> = \<bar>x / 10 powi e - of_int i\<bar> * 10 powi e"
      using pos by (simp add: abs_mult abs_minus_commute)
    also have "\<dots> \<le> 1/2 * 10 powi e" using that pos by (intro mult_right_mono) auto
    also have "\<dots> \<le> 1/2 * (x / 10 ^ 16)" using step by simp
    also have "\<dots> < x / 2 ^ 54" using assms(1) by simp
    finally show ?thesis by (rule fl_close [OF assms])
  qed
  have "of_int m \<le> x / 10 powi e" "x / 10 powi e < of_int m + 1"
    unfolding m_def by linarith+
  then have "\<bar>x / 10 powi e - of_int m\<bar> \<le> 1/2 \<or> \<bar>x / 10 powi e - of_int (m + 1)\<bar> \<le> 1/2"
    by (simp; linarith)
  then have "fl (of_int m * 10 powi e) = x \<or> fl (of_int (m + 1) * 10 powi e) = x"
    using near by blast
  moreover have "ilog10 x - int 17 + 1 = e" by (simp add: e_def)
  ultimately show ?thesis
    by (auto simp: candidate_def Let_def m_def [symmetric])
qed

lemma shortest_exists:
  assumes "0 < x" "fl x = x"
  obtains m e where "shortest x = Some (m, e)" "fl (of_int m * 10 powi e) = x" "0 < m"
proof -
  have "shortest x \<noteq> None"
    unfolding shortest_def by (rule first_some_found [of 17]) (simp_all add: candidate_17 [OF assms])
  then obtain m e where s: "shortest x = Some (m, e)" by auto
  then obtain n where "candidate x n = Some (m, e)"
    unfolding shortest_def by (blast dest: first_some_SomeD)
  from candidate_sound [OF this assms(1)] that s show ?thesis by blast
qed

subsection \<open>Its layout\<close>

text \<open>
  \<open>floatEncoder\<close>: no exponent between \<open>1e-6\<close> and \<open>1e21\<close>, otherwise one digit before the point
  and an exponent without leading zeroes.
\<close>

function trim_zeros :: "int \<Rightarrow> int \<Rightarrow> int \<times> int" where
  "trim_zeros m e = (if 0 < m \<and> m mod 10 = 0 then trim_zeros (m div 10) (e + 1) else (m, e))"
  by pat_completeness auto
termination
  by (relation "measure (\<lambda>(m, e). nat m)") auto

declare trim_zeros.simps [simp del]

definition fixed_layout :: "string \<Rightarrow> int \<Rightarrow> string" where
  "fixed_layout ds e =
     (let dp = int (length ds) + e
      in if 0 \<le> e then ds @ replicate (nat e) (CHR ''0'')
         else if 0 < dp then take (nat dp) ds @ CHR ''.'' # drop (nat dp) ds
         else ''0.'' @ replicate (nat (- dp)) (CHR ''0'') @ ds)"

definition exponent_layout :: "string \<Rightarrow> int \<Rightarrow> string" where
  "exponent_layout ds e =
     (let x = int (length ds) + e - 1
      in hd ds # (if tl ds = [] then [] else CHR ''.'' # tl ds) @ CHR ''e'' #
         (if x < 0 then CHR ''-'' else CHR ''+'') # show_nat (nat \<bar>x\<bar>))"

definition positive_float :: "float64 \<Rightarrow> string" where
  "positive_float x =
     (case shortest x of
        None \<Rightarrow> []
      | Some (m, e) \<Rightarrow>
          (case trim_zeros m e of (m', e') \<Rightarrow>
             if x < fl (1 / 10 ^ 6) \<or> fl (10 ^ 21) \<le> x then exponent_layout (show_nat (nat m')) e'
             else fixed_layout (show_nat (nat m')) e'))"

definition json_float :: "float64 \<Rightarrow> string" where
  "json_float x =
     (if x = 0 then ''0'' else if x < 0 then CHR ''-'' # positive_float (- x) else positive_float x)"

subsection \<open>Reading a literal\<close>

definition exponent_value :: "string \<Rightarrow> int option" where
  "exponent_value s =
     (case s of
        [] \<Rightarrow> Some 0
      | c # r \<Rightarrow>
          (let neg = (r \<noteq> [] \<and> hd r = CHR ''-'');
               ds = (if r \<noteq> [] \<and> (hd r = CHR ''-'' \<or> hd r = CHR ''+'') then tl r else r)
           in map_option (\<lambda>n. if neg then - int n else int n) (parse_digits 0 ds)))"

definition unsigned_value :: "string \<Rightarrow> rat option" where
  "unsigned_value s =
     (let ip = takeWhile is_digit s; r = dropWhile is_digit s;
          fp = (if r \<noteq> [] \<and> hd r = CHR ''.'' then takeWhile is_digit (tl r) else []);
          ex = (if r \<noteq> [] \<and> hd r = CHR ''.'' then dropWhile is_digit (tl r) else r)
      in (case (parse_digits 0 (ip @ fp), exponent_value ex) of
            (Some n, Some x) \<Rightarrow> Some (of_nat n * 10 powi (x - int (length fp)))
          | _ \<Rightarrow> None))"

definition number_value :: "string \<Rightarrow> rat option" where
  "number_value s =
     (if s \<noteq> [] \<and> hd s = CHR ''-'' then map_option uminus (unsigned_value (tl s))
      else unsigned_value s)"

text \<open>\<open>ParseFloat\<close>: the exact value, rounded once.\<close>

definition parse_float :: "string \<Rightarrow> float64 option" where
  "parse_float s = map_option fl (number_value s)"

subsection \<open>Reading back what was written\<close>

lemma is_digit_chars: "d < 10 \<Longrightarrow> is_digit (digit_char d)"
  by (simp add: is_digit_def of_char_digit)

lemma show_nat_digits: "list_all is_digit (show_nat n)"
proof (induction n rule: show_nat.induct)
  case (1 n)
  then show ?case by (subst show_nat.simps) (simp add: is_digit_chars)
qed

lemma show_nat_hd: "0 < n \<Longrightarrow> is_digit (hd (show_nat n)) \<and> hd (show_nat n) \<noteq> CHR ''0''"
proof (induction n rule: show_nat.induct)
  case (1 n)
  show ?case
  proof (cases "n < 10")
    case True
    have "(of_char (digit_char n) :: nat) \<noteq> of_char (CHR ''0'')"
      using True "1.prems" by (simp add: of_char_digit)
    then have "digit_char n \<noteq> CHR ''0''" by metis
    then show ?thesis using True by (subst (1 2) show_nat.simps) (simp add: is_digit_chars)
  next
    case False
    with 1 show ?thesis by (subst (1 2) show_nat.simps) simp
  qed
qed

lemma parse_zeros: "parse_digits 0 (replicate k (CHR ''0'') @ ds) = parse_digits 0 ds"
  by (induction k) (simp_all add: digit_val_def)

lemma parse_trailing_zeros: "parse_digits n (replicate k (CHR ''0'')) = Some (n * 10 ^ k)"
  by (induction k arbitrary: n) (simp_all add: digit_val_def mult.assoc mult.commute)

lemma takeWhile_digits:
  "list_all is_digit ds \<Longrightarrow> rest = [] \<or> \<not> is_digit (hd rest) \<Longrightarrow>
     takeWhile is_digit (ds @ rest) = ds \<and> dropWhile is_digit (ds @ rest) = rest"
  by (induction ds) (cases rest; auto)+

lemma point_not_digit: "\<not> is_digit (CHR ''.'')" "\<not> is_digit (CHR ''e'')" "is_digit (CHR ''0'')"
  by (simp_all add: is_digit_def)

text \<open>The shape of a literal: integer digits, fraction digits, exponent.\<close>

lemma unsigned_literal:
  assumes "list_all is_digit ip" "list_all is_digit fp" "fp \<noteq> []"
    and "ex = [] \<or> hd ex = CHR ''e''"
  shows "unsigned_value (ip @ CHR ''.'' # fp @ ex) =
    (case (parse_digits 0 (ip @ fp), exponent_value ex) of
       (Some n, Some x) \<Rightarrow> Some (of_nat n * 10 powi (x - int (length fp))) | _ \<Rightarrow> None)"
proof -
  have "ex = [] \<or> \<not> is_digit (hd ex)" using assms(4) point_not_digit by auto
  note f = takeWhile_digits [OF assms(2) this]
  note i = takeWhile_digits [OF assms(1), of "CHR ''.'' # fp @ ex"]
  show ?thesis using f i by (simp add: unsigned_value_def point_not_digit Let_def split: option.splits)
qed

lemma unsigned_literal_whole:
  assumes "list_all is_digit ip" "ex = [] \<or> hd ex = CHR ''e''"
  shows "unsigned_value (ip @ ex) =
    (case (parse_digits 0 ip, exponent_value ex) of
       (Some n, Some x) \<Rightarrow> Some (of_nat n * 10 powi x) | _ \<Rightarrow> None)"
proof -
  have "ex = [] \<or> \<not> is_digit (hd ex)" using assms(2) point_not_digit by auto
  note i = takeWhile_digits [OF assms(1) this]
  have "\<not> (ex \<noteq> [] \<and> hd ex = CHR ''.'')" using assms(2) by auto
  then show ?thesis using i by (auto simp: unsigned_value_def Let_def split: option.splits)
qed

lemma exponent_value_show:
  "exponent_value (CHR ''e'' # (if x < 0 then CHR ''-'' else CHR ''+'') # show_nat (nat \<bar>x\<bar>)) = Some x"
  by (auto simp: exponent_value_def parse_show_nat Let_def)

lemma digits_replicate: "list_all is_digit (replicate k (CHR ''0''))"
  by (induction k) (simp_all add: point_not_digit)

lemma list_all_take_drop: "list_all P xs \<Longrightarrow> list_all P (take k xs) \<and> list_all P (drop k xs)"
  by (auto simp: list_all_iff dest: in_set_takeD in_set_dropD)

lemma fixed_layout_value:
  fixes n :: nat
  shows "unsigned_value (fixed_layout (show_nat n) e) = Some (of_nat n * 10 powi e)"
proof -
  define ds where "ds = show_nat n"
  have ds: "list_all is_digit ds" "parse_digits 0 ds = Some n" "ds \<noteq> []"
    by (simp_all add: ds_def show_nat_digits parse_show_nat)
  define dp where "dp = int (length ds) + e"
  have none: "exponent_value [] = Some 0" by (simp add: exponent_value_def)
  consider "0 \<le> e" | "e < 0" "0 < dp" | "e < 0" "dp \<le> 0" by linarith
  then have "unsigned_value (fixed_layout ds e) = Some (of_nat n * 10 powi e)"
  proof cases
    case 1
    have "list_all is_digit (ds @ replicate (nat e) (CHR ''0''))" using ds digits_replicate by simp
    from unsigned_literal_whole [OF this, of "[]"] show ?thesis
      using 1 ds none
      by (simp add: fixed_layout_def Let_def parse_digits_append parse_trailing_zeros power_int_def)
  next
    case 2
    have "drop (nat dp) ds \<noteq> []" using 2 by (simp add: dp_def)
    from unsigned_literal [OF _ _ this, of "take (nat dp) ds" "[]"] show ?thesis
      using 2 ds none list_all_take_drop [OF ds(1)]
      by (simp add: fixed_layout_def Let_def dp_def [symmetric]) (simp add: dp_def of_nat_diff)
  next
    case 3
    have "list_all is_digit (replicate (nat (- dp)) (CHR ''0'') @ ds)" using ds digits_replicate by simp
    from unsigned_literal [OF _ this, of "''0''" "[]"] show ?thesis
      using 3 ds none parse_zeros [of "Suc (nat (- dp))" ds]
      by (simp add: fixed_layout_def Let_def dp_def [symmetric] point_not_digit)
        (simp add: dp_def)
  qed
  then show ?thesis by (simp add: ds_def)
qed

lemma exponent_layout_value:
  fixes n :: nat
  shows "unsigned_value (exponent_layout (show_nat n) e) = Some (of_nat n * 10 powi e)"
proof -
  define ds where "ds = show_nat n"
  have ds: "list_all is_digit ds" "parse_digits 0 ds = Some n" "ds \<noteq> []"
    by (simp_all add: ds_def show_nat_digits parse_show_nat)
  then obtain c cs where c: "ds = c # cs" by (cases ds) auto
  define x where "x = int (length ds) + e - 1"
  define ex where "ex = CHR ''e'' # (if x < 0 then CHR ''-'' else CHR ''+'') # show_nat (nat \<bar>x\<bar>)"
  have ex: "exponent_value ex = Some x" "ex = [] \<or> hd ex = CHR ''e''"
    unfolding ex_def by (rule exponent_value_show) simp
  have "unsigned_value (exponent_layout ds e) = Some (of_nat n * 10 powi e)"
  proof (cases "cs = []")
    case True
    from unsigned_literal_whole [of "[c]", OF _ ex(2)] show ?thesis
      using ds c True ex(1) by (simp add: exponent_layout_def x_def ex_def Let_def)
  next
    case False
    from unsigned_literal [of "[c]", OF _ _ False ex(2)] have
      "unsigned_value ([c] @ CHR ''.'' # cs @ ex) = Some (of_nat n * 10 powi (x - int (length cs)))"
      using ds c ex(1) by simp
    moreover have "x - int (length cs) = e" by (simp add: x_def c)
    ultimately show ?thesis using False c by (simp add: exponent_layout_def x_def ex_def Let_def)
  qed
  then show ?thesis by (simp add: ds_def)
qed

lemma valid_literal:
  assumes "is_digit c" "c \<noteq> CHR ''0''" "list_all is_digit cs"
    and "rest = [] \<or> \<not> is_digit (hd rest)" "valid_fraction rest"
  shows "valid_number (c # cs @ rest)"
  using assms takeWhile_digits [OF assms(3,4)] by (auto simp: valid_number_def is_digit_def)

lemma valid_exponent_show:
  "valid_exponent (CHR ''e'' # (if x < 0 then CHR ''-'' else CHR ''+'') # show_nat (nat \<bar>x\<bar>))"
  by (simp add: valid_exponent_def show_nat_digits Let_def)

lemma valid_fraction_digits:
  assumes "list_all is_digit fp" "fp \<noteq> []" "ex = [] \<or> hd ex = CHR ''e''" "valid_exponent ex"
  shows "valid_fraction (CHR ''.'' # fp @ ex)"
proof -
  have "ex = [] \<or> \<not> is_digit (hd ex)" using assms(3) point_not_digit by auto
  from takeWhile_digits [OF assms(1) this] show ?thesis
    using assms by (cases fp) (simp_all add: valid_fraction_def)
qed

lemma valid_fraction_exponent: "valid_exponent ex \<Longrightarrow> ex = [] \<or> hd ex = CHR ''e'' \<Longrightarrow> valid_fraction ex"
  by (cases ex) (auto simp: valid_fraction_def)

lemma fixed_layout_valid:
  fixes n :: nat
  assumes "0 < n"
  shows "valid_number (fixed_layout (show_nat n) e)"
proof -
  obtain c cs where c: "show_nat n = c # cs" by (cases "show_nat n") auto
  have ds: "list_all is_digit cs" "is_digit c" "c \<noteq> CHR ''0''"
    using show_nat_digits [of n] show_nat_hd [OF assms] c by simp_all
  have none: "valid_exponent []" by (simp add: valid_exponent_def)
  define dp where "dp = int (length (c # cs)) + e"
  consider "0 \<le> e" | "e < 0" "0 < dp" | "e < 0" "dp \<le> 0" by linarith
  then show ?thesis
  proof cases
    case 1
    then show ?thesis
      using valid_literal [OF ds(2,3), of "cs @ replicate (nat e) (CHR ''0'')" "[]"] ds digits_replicate none
      by (simp add: fixed_layout_def c valid_fraction_exponent)
  next
    case 2
    define k where "k = nat dp - 1"
    have k: "nat dp = Suc k" "k < length cs" using 2 by (simp_all add: k_def dp_def)
    have "valid_fraction (CHR ''.'' # drop k cs)"
      using valid_fraction_digits [of "drop k cs" "[]"] list_all_take_drop [OF ds(1)] k none by simp
    then have "valid_number (c # take k cs @ CHR ''.'' # drop k cs)"
      using valid_literal [OF ds(2,3)] list_all_take_drop [OF ds(1)] by (simp add: point_not_digit)
    moreover have "fixed_layout (c # cs) e = c # take k cs @ CHR ''.'' # drop k cs"
      unfolding fixed_layout_def Let_def dp_def [symmetric] using 2 k by simp
    ultimately show ?thesis by (simp add: c)
  next
    case 3
    have "list_all is_digit (replicate (nat (- dp)) (CHR ''0'') @ c # cs)" using ds digits_replicate by simp
    then have "valid_fraction (CHR ''.'' # replicate (nat (- dp)) (CHR ''0'') @ c # cs)"
      using valid_fraction_digits [of "replicate (nat (- dp)) (CHR ''0'') @ c # cs" "[]"] none by simp
    moreover have "fixed_layout (c # cs) e =
        CHR ''0'' # CHR ''.'' # replicate (nat (- dp)) (CHR ''0'') @ c # cs"
      unfolding fixed_layout_def Let_def dp_def [symmetric] using 3 by simp
    ultimately show ?thesis by (simp add: c valid_number_def)
  qed
qed

lemma exponent_layout_valid:
  fixes n :: nat
  assumes "0 < n"
  shows "valid_number (exponent_layout (show_nat n) e)"
proof -
  obtain c cs where c: "show_nat n = c # cs" by (cases "show_nat n") auto
  have ds: "list_all is_digit cs" "is_digit c" "c \<noteq> CHR ''0''"
    using show_nat_digits [of n] show_nat_hd [OF assms] c by simp_all
  define x where "x = int (length (c # cs)) + e - 1"
  define ex where "ex = CHR ''e'' # (if x < 0 then CHR ''-'' else CHR ''+'') # show_nat (nat \<bar>x\<bar>)"
  have ex: "valid_exponent ex" "ex = [] \<or> hd ex = CHR ''e''" "\<not> is_digit (hd ex)"
    unfolding ex_def by (rule valid_exponent_show, simp, simp add: point_not_digit)
  have layout: "exponent_layout (c # cs) e = c # (if cs = [] then [] else CHR ''.'' # cs) @ ex"
    unfolding exponent_layout_def Let_def x_def [symmetric] ex_def by simp
  show ?thesis
  proof (cases "cs = []")
    case True
    then show ?thesis
      unfolding c layout using valid_literal [OF ds(2,3), of "[]" ex] ex
      by (simp add: valid_fraction_exponent)
  next
    case False
    then show ?thesis
      using valid_literal [OF ds(2,3), of "[]" "CHR ''.'' # cs @ ex"] valid_fraction_digits [OF ds(1) _ ex(2,1)]
      by (simp add: c layout point_not_digit)
  qed
qed

lemma trim_zeros_value:
  "trim_zeros m e = (m', e') \<Longrightarrow> 0 < m \<Longrightarrow>
     0 < m' \<and> (of_int m' :: rat) * 10 powi e' = of_int m * 10 powi e"
proof (induction m e rule: trim_zeros.induct)
  case (1 m e)
  show ?case
  proof (cases "0 < m \<and> m mod 10 = 0")
    case True
    then have m: "m = 10 * (m div 10)" using mult_div_mod_eq [of 10 m] by simp
    then have "0 < m div 10" using True by linarith
    with 1 True have "0 < m' \<and> (of_int m' :: rat) * 10 powi e' = of_int (m div 10) * 10 powi (e + 1)"
      by (simp add: trim_zeros.simps [of m e])
    moreover have "(of_int m :: rat) = of_int (m div 10) * 10" by (subst m) simp
    ultimately show ?thesis by (simp add: power_int_add)
  next
    case False
    with "1.prems" show ?thesis by (simp add: trim_zeros.simps [of m e])
  qed
qed

lemma positive_float_round_trip:
  assumes "0 < x" "fl x = x"
  shows "valid_number (positive_float x) \<and> map_option fl (unsigned_value (positive_float x)) = Some x"
proof -
  obtain m e where s: "shortest x = Some (m, e)" "fl (of_int m * 10 powi e) = x" "0 < m"
    using shortest_exists [OF assms] .
  obtain m' e' where t: "trim_zeros m e = (m', e')" by fastforce
  note v = trim_zeros_value [OF t s(3)]
  then have m': "(of_nat (nat m') :: rat) = of_int m'" "0 < nat m'" by simp_all
  show ?thesis
    using v s m' fixed_layout_value [of "nat m'" e'] exponent_layout_value [of "nat m'" e']
      fixed_layout_valid [OF m'(2)] exponent_layout_valid [OF m'(2)]
    by (simp add: positive_float_def t)
qed

lemma valid_number_sign: "valid_number s \<Longrightarrow> hd s \<noteq> CHR ''-'' \<Longrightarrow> valid_number (CHR ''-'' # s)"
  by (simp add: valid_number_def)

lemma number_hd_unsigned: "0 < x \<Longrightarrow> fl x = x \<Longrightarrow> hd (positive_float x) \<noteq> CHR ''-''"
proof -
  assume "0 < x" "fl x = x"
  then obtain m e where s: "shortest x = Some (m, e)" "0 < m" by (metis shortest_exists)
  obtain m' e' where t: "trim_zeros m e = (m', e')" by fastforce
  with trim_zeros_value [OF t s(2)] have m': "0 < nat m'" by simp
  obtain c cs where c: "show_nat (nat m') = c # cs" "c \<noteq> CHR ''-''"
    using show_nat_hd_digit [of "nat m'"] by (cases "show_nat (nat m')") auto
  show ?thesis using s t c
    by (auto simp: positive_float_def fixed_layout_def exponent_layout_def Let_def take_Cons'
        nat_eq_iff)
qed

text \<open>Rounding commutes with the sign.\<close>

lemma round_even_uminus: "round_even (- y) = - round_even y"
proof (cases "of_int \<lfloor>y\<rfloor> = y")
  case True
  then show ?thesis by (metis of_int_minus round_even_of_int)
next
  case False
  define f where "f = \<lfloor>y\<rfloor>"
  have f: "of_int f < y" "y < of_int f + 1"
    using False of_int_floor_le [of y] floor_correct [of y] by (auto simp: f_def order.strict_iff_order)
  then have "\<lfloor>- y\<rfloor> = - f - 1" by (intro floor_unique) auto
  then show ?thesis using f by (auto simp: round_even_def f_def [symmetric] Let_def)
qed

lemma fl_uminus: "fl (- x) = - fl x"
  by (simp add: fl_def Let_def round_even_uminus)

text \<open>No report loses a value: the literal of a \<open>float64\<close> parses back to it.\<close>

lemma json_float_round_trip:
  assumes "fl x = x"
  shows "valid_number (json_float x) \<and> parse_float (json_float x) = Some x"
proof -
  consider "x = 0" | "0 < x" | "x < 0" by linarith
  then show ?thesis
  proof cases
    case 1
    then show ?thesis
      by (simp add: json_float_def valid_number_def valid_fraction_def parse_float_def number_value_def
          unsigned_value_def is_digit_def digit_val_def exponent_value_def)
  next
    case 2
    then show ?thesis
      using positive_float_round_trip [OF 2 assms] number_hd_unsigned [OF 2 assms]
      by (simp add: json_float_def parse_float_def number_value_def)
  next
    case 3
    then have pos: "0 < - x" "fl (- x) = - x" using assms by (simp_all add: fl_uminus)
    obtain y where "unsigned_value (positive_float (- x)) = Some y" "fl y = - x"
      using positive_float_round_trip [OF pos] by auto
    then show ?thesis
      using 3 positive_float_round_trip [OF pos] valid_number_sign [OF _ number_hd_unsigned [OF pos]]
      by (simp add: json_float_def parse_float_def number_value_def fl_uminus)
  qed
qed

text \<open>Every operation rounds, so every value the program computes is representable.\<close>

lemma fl_seconds [simp]: "fl (seconds d) = seconds d"
  by (simp add: seconds_def Let_def f64_add_def)

lemma fl_mul [simp]: "fl (f64_mul x y) = f64_mul x y"
  by (simp add: f64_mul_def)

definition float_ok :: "float64 \<Rightarrow> bool" where
  "float_ok x \<longleftrightarrow> fl x = x"

lemma float_ok_values: "float_ok (seconds d)" "float_ok (f64_mul x y)" "float_ok 0"
  by (simp_all add: float_ok_def)

subsection \<open>Durations below a second are reported exactly\<close>

text \<open>Two decimals of few digits that round to the same number are equal.\<close>

lemma fl_eq_close:
  assumes "fl v = fl w" "0 \<le> v" "0 \<le> w"
  shows "\<bar>v - w\<bar> \<le> (v + w) / 2 ^ 53"
proof -
  have "\<bar>fl w - v\<bar> \<le> v / 2 ^ 53" "\<bar>fl w - w\<bar> \<le> w / 2 ^ 53"
    using fl_error [of v] fl_error [of w] assms by simp_all
  then have "\<bar>v - w\<bar> \<le> v / 2 ^ 53 + w / 2 ^ 53" by linarith
  then show ?thesis by (simp only: add_divide_distrib)
qed

lemma grid_eq:
  fixes a b :: int
  assumes "\<bar>of_int a * g - of_int b * g\<bar> < (g :: rat)"
  shows "a = b"
proof -
  have g: "0 < g" using assms by linarith
  have "\<bar>of_int a * g - of_int b * g\<bar> = of_int \<bar>a - b\<bar> * g"
    using g by (simp add: abs_mult flip: left_diff_distrib)
  then have "(of_int \<bar>a - b\<bar> :: rat) < of_int 1" using assms g by simp
  then have "\<bar>a - b\<bar> < 1" by (simp only: of_int_less_iff)
  then show ?thesis by simp
qed

lemma seconds_below_one:
  assumes "0 < d" "d < 1000000000"
  shows "seconds d = fl (of_int d / 1000000000)"
proof -
  have "d div 1000000000 = 0" using assms by simp
  moreover have "fl (of_int d) = of_int d" using assms by (intro fl_of_int_exact) simp
  ultimately show ?thesis
    using assms by (simp add: seconds_def f64_add_def f64_div_def f64_of_int_def Let_def)
qed

text \<open>The candidate with nine digits exists, and every earlier one denotes the same number.\<close>

lemma subsecond_below_one:
  assumes "0 < d" "d < 1000000000"
  shows "0 < seconds d" "seconds d < 1" "fl (seconds d) = seconds d"
proof -
  define v :: rat where "v = of_int d / 1000000000"
  have "(of_int d :: rat) \<le> of_int 999999999" using assms by (simp only: of_int_le_iff)
  then have v: "0 < v" "v \<le> 999999999 / 1000000000" using assms by (simp_all add: v_def)
  have x: "seconds d = fl v" using seconds_below_one [OF assms] by (simp add: v_def)
  have err: "\<bar>fl v - v\<bar> \<le> v / 2 ^ 53" using fl_error [of v] v by simp
  have "v / 2 ^ 53 \<le> v / 2" "v / 2 ^ 53 \<le> 1 / 10000000000" using v by simp_all
  then show "0 < seconds d" "seconds d < 1" using err v unfolding x by linarith+
  show "fl (seconds d) = seconds d" by simp
qed

lemma subsecond_candidate:
  assumes "0 < d" "d < 1000000000"
  shows "candidate (seconds d) 9 \<noteq> None"
proof -
  define x where "x = seconds d"
  define v :: rat where "v = of_int d / 1000000000"
  have x: "0 < x" "x < 1" "x = fl v" and v0: "0 < v"
    using subsecond_below_one [OF assms] seconds_below_one [OF assms] assms by (simp_all add: x_def v_def)
  define k where "k = ilog10 x"
  note b = ilog10_bounds [OF x(1), folded k_def]
  have "k < 0"
  proof (rule ccontr)
    assume "\<not> k < 0"
    then have "(1 :: rat) \<le> 10 powi k" by (intro one_le_power_int) auto
    with b(1) x(2) show False by linarith
  qed
  define e where "e = k - 8"
  have e9: "e \<le> - 9" using \<open>k < 0\<close> by (simp add: e_def)
  define M where "M = d * 10 ^ nat (- 9 - e)"
  have pos: "(0 :: rat) < 10 powi e" by simp
  have vM: "v = of_int M * 10 powi e"
  proof -
    have "(10 :: rat) ^ nat (- 9 - e) * 10 powi e = 10 powi (- 9)"
      using e9 power_int_add [of "10 :: rat" "- 9 - e" e] by (simp add: power_int_def [of _ "- 9 - e"])
    moreover have "(10 :: rat) powi (- 9) = 1 / 1000000000" by (simp add: power_int_def power_one_over)
    ultimately show ?thesis by (simp add: v_def M_def mult.assoc)
  qed
  have "x < 10 ^ 9 * 10 powi e"
    using b(2) power_int_add [of "10 :: rat" 9 e] by (simp add: e_def add.commute)
  moreover have "\<bar>x - v\<bar> \<le> v / 2 ^ 53" using fl_error [of v] v0 by (simp add: x(3))
  moreover have "v \<le> 2 * x"
  proof -
    have "v / 2 ^ 53 \<le> v / 2" using v0 by simp
    then show ?thesis using \<open>\<bar>x - v\<bar> \<le> v / 2 ^ 53\<close> by linarith
  qed
  ultimately have "\<bar>x - v\<bar> < 10 powi e" using pos x(1) by (simp; linarith)
  then have near: "\<bar>x / 10 powi e - of_int M\<bar> < 1"
  proof -
    have "x / 10 powi e - of_int M = (x - v) / 10 powi e" by (simp add: vM diff_divide_distrib)
    then show ?thesis using \<open>\<bar>x - v\<bar> < 10 powi e\<close> pos by (simp add: abs_divide)
  qed
  define m where "m = \<lfloor>x / 10 powi e\<rfloor>"
  have "of_int m \<le> x / 10 powi e" "x / 10 powi e < of_int m + 1" unfolding m_def by linarith+
  then have "(of_int M :: rat) < of_int (m + 2)" "(of_int (m - 1) :: rat) < of_int M"
    using near by (simp_all; linarith)+
  then have "M < m + 2" "m - 1 < M" by (simp_all only: of_int_less_iff)
  then have "M = m \<or> M = m + 1" by linarith
  moreover have "fl (of_int M * 10 powi e) = x" using x(3) vM by simp
  moreover have "ilog10 x - int 9 + 1 = e" by (simp add: e_def k_def)
  ultimately show ?thesis
    by (auto simp: candidate_def Let_def m_def [symmetric] x_def [symmetric])
qed

lemma candidate_exponent: "candidate x n = Some (m, e) \<Longrightarrow> e = ilog10 x - int n + 1 \<and>
    (m = \<lfloor>x / 10 powi e\<rfloor> \<or> m = \<lfloor>x / 10 powi e\<rfloor> + 1)"
  by (auto simp: candidate_def Let_def split: if_splits)

lemma first_some_upto:
  "f k \<noteq> None \<Longrightarrow> a \<le> k \<Longrightarrow> k < b \<Longrightarrow> \<exists>n \<ge> a. n \<le> k \<and> first_some f [a..<b] = f n"
proof (induction "k - a" arbitrary: a)
  case 0
  then show ?case by (intro exI [of _ a]) (auto simp: upt_conv_Cons split: option.splits)
next
  case (Suc j)
  show ?case
  proof (cases "f a")
    case None
    from Suc have "\<exists>n \<ge> Suc a. n \<le> k \<and> first_some f [Suc a..<b] = f n" by (intro Suc.hyps(1)) auto
    then obtain n where n: "Suc a \<le> n" "n \<le> k" "first_some f [Suc a..<b] = f n" by blast
    moreover have "first_some f [a..<b] = first_some f [Suc a..<b]"
      using None Suc.hyps(2) Suc.prems by (subst upt_conv_Cons) auto
    ultimately show ?thesis by (intro exI [of _ n]) simp
  next
    case (Some y)
    with Suc show ?thesis by (intro exI [of _ a]) (auto simp: upt_conv_Cons)
  qed
qed

lemma subsecond_shortest:
  assumes "0 < d" "d < 1000000000"
  obtains m e where "shortest (seconds d) = Some (m, e)" "0 < m"
    "of_int m * 10 powi e = (of_int d / 1000000000 :: rat)"
proof -
  define x where "x = seconds d"
  define v :: rat where "v = of_int d / 1000000000"
  have x: "0 < x" "x < 1" "x = fl v" and v0: "0 < v" "v < 1"
    using subsecond_below_one [OF assms] seconds_below_one [OF assms] assms by (simp_all add: x_def v_def)
  obtain n where n: "1 \<le> n" "n \<le> 9" "shortest x = candidate x n"
    using first_some_upto [of "candidate x" 9 1 18] subsecond_candidate [OF assms]
    unfolding shortest_def x_def by auto
  obtain m e where s: "shortest x = Some (m, e)" "fl (of_int m * 10 powi e) = x" "0 < m"
    using shortest_exists [OF x(1)] subsecond_below_one(3) [OF assms] unfolding x_def by metis
  define a :: rat where "a = of_int m * 10 powi e"
  have pos: "(0 :: rat) < 10 powi e" by simp
  have a0: "0 < a" using s(3) pos by (simp add: a_def)
  have close: "\<bar>a - v\<bar> \<le> (a + v) / 2 ^ 53"
    using fl_eq_close [of a v] s(2) x(3) a0 v0 by (simp add: a_def)
  have "(a + v) / 2 ^ 53 \<le> (a + v) / 4" using a0 v0 by simp
  with close have "\<bar>a - v\<bar> \<le> (a + v) / 4" by (rule order_trans)
  then have "a - v \<le> (a + v) / 4" "v - a \<le> (a + v) / 4" by (simp_all only: abs_le_iff minus_diff_eq)
  then have a2: "a \<le> 2 * v" "v \<le> 2 * a" using a0 v0 by (simp_all add: field_simps)
  have "a = v"
  proof (cases "- 9 \<le> e")
    case True
    have "(10 :: rat) powi e = 10 ^ nat (e + 9) * (1 / 1000000000)"
      using power_int_add [of "10 :: rat" "e + 9" "- 9"] True
      by (simp add: power_int_def [of _ "e + 9"])
    then have a: "a = of_int (m * 10 ^ nat (e + 9)) * (1 / 1000000000)" by (simp add: a_def)
    have v: "v = of_int d * (1 / 1000000000)" by (simp add: v_def)
    have "\<bar>a - v\<bar> < 1 / 1000000000" using close a2 v0 by (simp; linarith)
    then show ?thesis using grid_eq [of "m * 10 ^ nat (e + 9)" "1 / 1000000000" d] unfolding a v by simp
  next
    case False
    define M where "M = d * 10 ^ nat (- 9 - e)"
    have "(10 :: rat) ^ nat (- 9 - e) * 10 powi e = 10 powi (- 9)"
      using False power_int_add [of "10 :: rat" "- 9 - e" e] by (simp add: power_int_def [of _ "- 9 - e"])
    moreover have "(10 :: rat) powi (- 9) = 1 / 1000000000" by (simp add: power_int_def power_one_over)
    ultimately have v: "v = of_int M * 10 powi e" by (simp add: v_def M_def mult.assoc)
    have "x < 10 powi (ilog10 x + 1)" by (rule ilog10_bounds(2) [OF x(1)])
    also have "\<dots> \<le> 10 powi (9 + e)"
      using candidate_exponent [of x n m e] s(1) n by (intro power_int_increasing) auto
    finally have "x < 10 ^ 9 * 10 powi e" by (simp add: power_int_add)
    moreover have "v \<le> 2 * x"
    proof -
      have "\<bar>fl v - v\<bar> \<le> v / 2 ^ 53" "v / 2 ^ 53 \<le> v / 2" using fl_error [of v] v0 by simp_all
      then have "\<bar>fl v - v\<bar> \<le> v / 2" by (rule order_trans)
      then have "v - fl v \<le> v / 2" by (simp only: abs_le_iff minus_diff_eq)
      then show ?thesis unfolding x(3) by simp
    qed
    ultimately have "v < 2 * 10 ^ 9 * 10 powi e" by linarith
    then have "\<bar>a - v\<bar> < 10 powi e" using close a2 by (simp; linarith)
    then show ?thesis using grid_eq [of m "10 powi e" M] unfolding a_def v by simp
  qed
  then show ?thesis using that s by (simp add: a_def v_def x_def)
qed

text \<open>The literal denotes the duration to the nanosecond.\<close>

lemma subsecond_literal:
  assumes "0 \<le> d" "d < 1000000000"
  shows "number_value (json_float (seconds d)) = Some (of_int d / 1000000000)"
proof (cases "d = 0")
  case True
  then show ?thesis
    by (simp add: json_float_def number_value_def unsigned_value_def is_digit_def digit_val_def
        exponent_value_def)
next
  case False
  with assms have d: "0 < d" by simp
  obtain m e where s: "shortest (seconds d) = Some (m, e)" "0 < m"
    "of_int m * 10 powi e = (of_int d / 1000000000 :: rat)"
    using subsecond_shortest [OF d assms(2)] .
  obtain m' e' where t: "trim_zeros m e = (m', e')" by fastforce
  note v = trim_zeros_value [OF t s(2)]
  then have "(of_nat (nat m') :: rat) * 10 powi e' = of_int d / 1000000000" using s(3) by simp
  then have "unsigned_value (positive_float (seconds d)) = Some (of_int d / 1000000000)"
    using fixed_layout_value [of "nat m'" e'] exponent_layout_value [of "nat m'" e']
    by (simp add: positive_float_def s(1) t)
  then show ?thesis
    using subsecond_below_one [OF d assms(2)] number_hd_unsigned [of "seconds d"]
    by (simp add: json_float_def number_value_def)
qed

text \<open>Its digits are those of the duration without trailing zeroes.\<close>

lemma trim_zeros_unique:
  assumes "0 < m" "0 < k" "k mod 10 \<noteq> 0" "of_int m * 10 powi e = (of_int k * 10 powi f :: rat)"
  shows "trim_zeros m e = (k, f)"
proof -
  obtain m' e' where t: "trim_zeros m e = (m', e')" by fastforce
  have m': "m' mod 10 \<noteq> 0" using t assms(1)
  proof (induction m e rule: trim_zeros.induct)
    case (1 m e)
    show ?case
    proof (cases "m mod 10 = 0")
      case True
      then have "0 < m div 10" using "1.prems"(2) by (auto elim: evenE)
      with True 1 show ?thesis by (simp add: trim_zeros.simps [of m e])
    next
      case False
      with "1.prems" show ?thesis by (simp add: trim_zeros.simps [of m e])
    qed
  qed
  have eq: "(of_int m' :: rat) * 10 powi e' = of_int k * 10 powi f"
    using trim_zeros_value [OF t assms(1)] assms(4) by simp
  have shift: "x = y * 10 ^ nat (j - i)"
    if "(of_int x :: rat) * 10 powi i = of_int y * 10 powi j" "i \<le> j" for x y i j
  proof -
    have "(10 :: rat) powi j = 10 ^ nat (j - i) * 10 powi i"
      using power_int_add [of "10 :: rat" "j - i" i] that(2) by (simp add: power_int_def [of _ "j - i"])
    then have "(of_int x :: rat) = of_int (y * 10 ^ nat (j - i))" using that(1) by simp
    then show ?thesis by (simp only: of_int_eq_iff)
  qed
  have "e' = f"
  proof (rule ccontr)
    assume "e' \<noteq> f"
    then consider "e' < f" | "f < e'" by linarith
    then show False
    proof cases
      case 1
      then have "nat (f - e') \<noteq> 0" by simp
      with shift [OF eq] 1 have "m' mod 10 = 0" by (cases "nat (f - e')") simp_all
      with m' show False ..
    next
      case 2
      then have "nat (e' - f) \<noteq> 0" by simp
      with shift [OF eq [symmetric]] 2 have "k mod 10 = 0" by (cases "nat (e' - f)") simp_all
      with assms(3) show False ..
    qed
  qed
  with eq have "(of_int m' :: rat) = of_int k" by simp
  then show ?thesis using t \<open>e' = f\<close> by simp
qed

lemma json_float_subsecond:
  assumes "1000 \<le> d" "d < 1000000000" "0 < k" "k mod 10 \<noteq> 0"
    and "of_int k * 10 powi f = (of_int d / 1000000000 :: rat)"
  shows "json_float (seconds d) = fixed_layout (show_nat (nat k)) f"
proof -
  have d: "0 < d" using assms(1) by simp
  obtain m e where s: "shortest (seconds d) = Some (m, e)" "0 < m"
    "of_int m * 10 powi e = (of_int d / 1000000000 :: rat)"
    using subsecond_shortest [OF d assms(2)] .
  have t: "trim_zeros m e = (k, f)" using s assms by (intro trim_zeros_unique) simp_all
  define v :: rat where "v = of_int d / 1000000000"
  have x: "seconds d = fl v" using seconds_below_one [OF d assms(2)] by (simp add: v_def)
  have "fl (1 / 10 ^ 6) \<le> fl v"
  proof (cases "d = 1000")
    case True
    then show ?thesis by (simp add: v_def)
  next
    case False
    with assms(1) have "(of_int 1001 :: rat) \<le> of_int d" by (simp only: of_int_le_iff)
    then have v: "1001 / 1000000000 \<le> v" by (simp add: v_def)
    then have "\<bar>fl v - v\<bar> \<le> v / 10000" using fl_error [of v] by (simp; linarith)
    moreover have "\<bar>fl (1 / 10 ^ 6) - 1 / 10 ^ 6\<bar> \<le> (1 / 10 ^ 10 :: rat)"
      using fl_error [of "1 / 10 ^ 6"] by (simp; linarith)
    ultimately have "v - fl v \<le> v / 10000" "fl (1 / 10 ^ 6) - 1 / 10 ^ 6 \<le> (1 / 10 ^ 10 :: rat)"
      by (simp_all only: abs_le_iff minus_diff_eq)
    then show ?thesis using v by simp
  qed
  moreover have "fl v < fl (10 ^ 21)"
  proof -
    have "\<bar>10 ^ 21 :: rat\<bar> / 2 ^ 53 \<le> 10 ^ 20" by simp
    with fl_error have "\<bar>fl (10 ^ 21) - 10 ^ 21\<bar> \<le> (10 ^ 20 :: rat)" by (rule order_trans)
    then have "10 ^ 21 - fl (10 ^ 21) \<le> (10 ^ 20 :: rat)" by (simp_all only: abs_le_iff minus_diff_eq)
    then show ?thesis using subsecond_below_one(2) [OF d assms(2)] unfolding x by simp
  qed
  moreover have "0 < seconds d" by (rule subsecond_below_one(1) [OF d assms(2)])
  ultimately show ?thesis by (simp add: json_float_def positive_float_def s(1) t flip: x)
qed

end
