(* ===== verification/GoTime.thy ===== *)
theory GoTime
  imports GoNumber "HOL-Library.Monad_Syntax"
begin

text \<open>
  Instants in texts: the proleptic Gregorian calendar, the RFC 3339 form \<open>time.Time\<close> is
  marshalled in, always in UTC as the program converts every timestamp, and a reader of that
  form. An instant is the number of nanoseconds since 1970.
\<close>

subsection \<open>The calendar\<close>

definition leap_year :: "int \<Rightarrow> bool" where
  "leap_year y \<longleftrightarrow> y mod 4 = 0 \<and> (y mod 100 \<noteq> 0 \<or> y mod 400 = 0)"

definition month_lengths :: "bool \<Rightarrow> int list" where
  "month_lengths leap = [31, if leap then 29 else 28, 31, 30, 31, 30, 31, 31, 30, 31, 30, 31]"

text \<open>Month and day of a day of the year, counting months from the given one.\<close>

fun month_day :: "int list \<Rightarrow> int \<Rightarrow> int \<Rightarrow> int \<times> int" where
  "month_day [] m yd = (m, yd + 1)"
| "month_day (l # ls) m yd = (if yd < l then (m, yd + 1) else month_day ls (m + 1) (yd - l))"

text \<open>
  The day number is split into cycles of 400, 100, 4 and 1 years; the last cycle of 100 years and
  the last year of a cycle of four are a day longer. 719162 days separate the year 1 from 1970.
\<close>

definition civil :: "int \<Rightarrow> int \<times> int \<times> int" where
  "civil z =
     (let d = z + 719162;
          a = d div 146097; r = d mod 146097;
          b = min 3 (r div 36524); r1 = r - 36524 * b;
          c = r1 div 1461; r2 = r1 mod 1461;
          n = min 3 (r2 div 365); yd = r2 - 365 * n;
          y = 400 * a + 100 * b + 4 * c + n + 1
      in (y, month_day (month_lengths (leap_year y)) 1 yd))"

fun month_start :: "int list \<Rightarrow> nat \<Rightarrow> int" where
  "month_start ls 0 = 0"
| "month_start [] (Suc k) = 0"
| "month_start (l # ls) (Suc k) = l + month_start ls k"

definition day_number :: "int \<Rightarrow> int \<Rightarrow> int \<Rightarrow> int" where
  "day_number y m d =
     (let y' = y - 1
      in 365 * y' + y' div 4 - y' div 100 + y' div 400 +
         month_start (month_lengths (leap_year y)) (nat (m - 1)) + d - 1 - 719162)"

lemma month_day_start:
  assumes "0 \<le> yd" "yd < sum_list ls" "month_day ls m yd = (m', d)"
  shows "m \<le> m' \<and> m' < m + int (length ls) \<and> 1 \<le> d \<and> d \<le> ls ! nat (m' - m) \<and>
    month_start ls (nat (m' - m)) + d = yd + 1"
  using assms
proof (induction ls arbitrary: m yd)
  case (Cons l ls)
  show ?case
  proof (cases "yd < l")
    case True
    with Cons.prems show ?thesis by auto
  next
    case False
    with Cons.prems have "m + 1 \<le> m' \<and> m' < m + 1 + int (length ls) \<and> 1 \<le> d \<and>
        d \<le> ls ! nat (m' - (m + 1)) \<and> month_start ls (nat (m' - (m + 1))) + d = yd - l + 1"
      by (intro Cons.IH) auto
    moreover from this have "nat (m' - m) = Suc (nat (m' - (m + 1)))"
      by (simp add: Suc_nat_eq_nat_zadd1)
    ultimately show ?thesis by simp
  qed
qed simp

lemma cycle_bounds:
  fixes d :: int
  defines "r \<equiv> d mod 146097"
  defines "b \<equiv> min 3 (r div 36524)"
  defines "r1 \<equiv> r - 36524 * b"
  defines "c \<equiv> r1 div 1461" and "r2 \<equiv> r1 mod 1461"
  defines "n \<equiv> min 3 (r2 div 365)"
  shows "0 \<le> b" "b \<le> 3" "0 \<le> c" "c \<le> 24" "0 \<le> n" "n \<le> 3" "0 \<le> r2 - 365 * n" "r2 - 365 * n \<le> 365"
    and "r = 36524 * b + 1461 * c + r2"
    and "r2 - 365 * n = 365 \<Longrightarrow> n = 3 \<and> (c < 24 \<or> b = 3)"
proof -
  have r: "0 \<le> r" "r < 146097" unfolding r_def by simp_all
  show b: "0 \<le> b" "b \<le> 3" using r unfolding b_def by simp_all
  have r1: "0 \<le> r1" "r1 \<le> 36524" "r1 = 36524 \<Longrightarrow> b = 3"
    using r unfolding r1_def b_def min_def by (auto split: if_splits)
  show c: "0 \<le> c" "c \<le> 24" using r1 unfolding c_def by simp_all
  have r2: "0 \<le> r2" "r2 < 1461" unfolding r2_def by simp_all
  show n: "0 \<le> n" "n \<le> 3" using r2 unfolding n_def by simp_all
  have yd: "0 \<le> r2 - 365 * n" "r2 - 365 * n \<le> 365" "r2 - 365 * n = 365 \<Longrightarrow> n = 3 \<and> r2 = 1460"
    using r2 unfolding n_def min_def by (auto split: if_splits)
  then show "0 \<le> r2 - 365 * n" "r2 - 365 * n \<le> 365" by simp_all
  have split': "r1 = 1461 * c + r2" unfolding c_def r2_def by simp
  then show "r = 36524 * b + 1461 * c + r2" unfolding r1_def by simp
  show "n = 3 \<and> (c < 24 \<or> b = 3)" if "r2 - 365 * n = 365"
  proof -
    have "n = 3" "r2 = 1460" using yd(3) that by simp_all
    moreover have "c < 24 \<or> b = 3"
    proof (rule ccontr)
      assume "\<not> (c < 24 \<or> b = 3)"
      then have "c = 24" "b \<noteq> 3" using c by linarith+
      then show False using split' \<open>r2 = 1460\<close> r1 by simp
    qed
    ultimately show ?thesis by simp
  qed
qed

text \<open>The day of the year lies in the year, so the month and the day are those of a calendar.\<close>

lemma sum_month_lengths: "sum_list (month_lengths leap) = (if leap then 366 else 365)"
  by (simp add: month_lengths_def)

lemma civil_valid:
  assumes "civil z = (y, m, d)"
  shows "1 \<le> m \<and> m \<le> 12 \<and> 1 \<le> d \<and> d \<le> month_lengths (leap_year y) ! nat (m - 1) \<and> day_number y m d = z"
proof -
  define D where "D = z + 719162"
  define a where "a = D div 146097"
  define r where "r = D mod 146097"
  define b where "b = min 3 (r div 36524)"
  define r1 where "r1 = r - 36524 * b"
  define c where "c = r1 div 1461"
  define r2 where "r2 = r1 mod 1461"
  define n where "n = min 3 (r2 div 365)"
  note cyc = cycle_bounds [of D, folded r_def, folded b_def, folded r1_def, folded c_def r2_def, folded n_def]
  have y: "y = 400 * a + 100 * b + 4 * c + n + 1"
    and md: "month_day (month_lengths (leap_year y)) 1 (r2 - 365 * n) = (m, d)"
    using assms
    unfolding civil_def Let_def D_def [symmetric] a_def [symmetric] r_def [symmetric] b_def [symmetric]
      r1_def [symmetric] c_def [symmetric] r2_def [symmetric] n_def [symmetric] prod.inject by blast+
  define y' where "y' = y - 1"
  have quot: "y' div 4 = 100 * a + 25 * b + c" "y' div 100 = 4 * a + b" "y' div 400 = a"
  proof -
    have "y' = 4 * (100 * a + 25 * b + c) + n" by (simp add: y'_def y)
    from int_div_pos_eq [OF this] show "y' div 4 = 100 * a + 25 * b + c" using cyc(5,6) by linarith
    have "y' = 100 * (4 * a + b) + (4 * c + n)" by (simp add: y'_def y)
    from int_div_pos_eq [OF this] show "y' div 100 = 4 * a + b" using cyc(3-6) by linarith
    have "y' = 400 * a + (100 * b + 4 * c + n)" by (simp add: y'_def y)
    from int_div_pos_eq [OF this] show "y' div 400 = a" using cyc(1-6) by linarith
  qed
  have leap: "leap_year y" if "r2 - 365 * n = 365"
  proof -
    from cyc(10) that have "n = 3" "c < 24 \<or> b = 3" by simp_all
    have y4: "y = 4 * (100 * a + 25 * b + c + 1)" using y \<open>n = 3\<close> by simp
    show ?thesis
    proof (cases "c < 24")
      case True
      have "y = 100 * (4 * a + b) + (4 * c + 4)" using y \<open>n = 3\<close> by simp
      from int_mod_pos_eq [OF this] have "y mod 100 = 4 * c + 4" using True cyc(3) by linarith
      then have "y mod 100 \<noteq> 0" using cyc(3) by linarith
      then show ?thesis by (simp add: leap_year_def y4)
    next
      case False
      then have "c = 24" "b = 3" using \<open>c < 24 \<or> b = 3\<close> cyc by simp_all
      then have "y = 400 * (a + 1)" using y \<open>n = 3\<close> by simp
      then show ?thesis by (simp add: leap_year_def)
    qed
  qed
  have "r2 - 365 * n < sum_list (month_lengths (leap_year y))"
    using cyc(8) leap by (cases "r2 - 365 * n = 365") (simp_all add: sum_month_lengths)
  note m = month_day_start [OF cyc(7) this md]
  have "D = 146097 * a + r" by (simp add: a_def r_def)
  then have "day_number y m d = z"
    using m quot cyc(9) by (simp add: day_number_def Let_def y'_def [symmetric] D_def) (simp add: y'_def y)
  then show ?thesis using m by (simp add: month_lengths_def)
qed

subsection \<open>Writing an instant\<close>

text \<open>A number in exactly \<open>k\<close> digits.\<close>

fun fixed_digits :: "nat \<Rightarrow> nat \<Rightarrow> string" where
  "fixed_digits 0 n = []"
| "fixed_digits (Suc k) n = fixed_digits k (n div 10) @ [digit_char (n mod 10)]"

lemma fixed_digits_2_4:
  "fixed_digits 2 n = [digit_char (n div 10 mod 10), digit_char (n mod 10)]"
  "fixed_digits 4 n = [digit_char (n div 10 div 10 div 10 mod 10), digit_char (n div 10 div 10 mod 10),
     digit_char (n div 10 mod 10), digit_char (n mod 10)]"
proof -
  have "(2 :: nat) = Suc (Suc 0)" "(4 :: nat) = Suc (Suc (Suc (Suc 0)))" by simp_all
  then show "fixed_digits 2 n = [digit_char (n div 10 mod 10), digit_char (n mod 10)]"
    "fixed_digits 4 n = [digit_char (n div 10 div 10 div 10 mod 10), digit_char (n div 10 div 10 mod 10),
       digit_char (n div 10 mod 10), digit_char (n mod 10)]"
    by (simp_all only: fixed_digits.simps append.simps)
qed

definition fraction_text :: "nat \<Rightarrow> string" where
  "fraction_text ns =
     (if ns = 0 then []
      else CHR ''.'' # rev (dropWhile (\<lambda>c. c = CHR ''0'') (rev (fixed_digits 9 ns))))"

definition rfc3339 :: "instant \<Rightarrow> string" where
  "rfc3339 t =
     (let s = t div 1000000000; sod = nat (s mod 86400)
      in case civil (s div 86400) of (y, m, d) \<Rightarrow>
           fixed_digits 4 (nat y) @ CHR ''-'' # fixed_digits 2 (nat m) @ CHR ''-'' # fixed_digits 2 (nat d) @
           CHR ''T'' # fixed_digits 2 (sod div 3600) @ CHR '':'' # fixed_digits 2 (sod div 60 mod 60) @
           CHR '':'' # fixed_digits 2 (sod mod 60) @
           fraction_text (nat (t mod 1000000000)) @ ''Z'')"

text \<open>\<open>MarshalJSON\<close> refuses years of more than four digits.\<close>

definition marshalable :: "instant \<Rightarrow> bool" where
  "marshalable t \<longleftrightarrow> (let y = fst (civil (t div 1000000000 div 86400)) in 0 \<le> y \<and> y \<le> 9999)"

subsection \<open>Reading it back\<close>

definition take_number :: "nat \<Rightarrow> string \<Rightarrow> (nat \<times> string) option" where
  "take_number k s =
     (if length (take k s) = k \<and> list_all is_digit (take k s)
      then map_option (\<lambda>n. (n, drop k s)) (parse_digits 0 (take k s)) else None)"

definition expect :: "char \<Rightarrow> string \<Rightarrow> string option" where
  "expect c s = (if s \<noteq> [] \<and> hd s = c then Some (tl s) else None)"

definition take_fraction :: "string \<Rightarrow> (nat \<times> string) option" where
  "take_fraction s =
     (if s \<noteq> [] \<and> hd s = CHR ''.'' then
        (let ds = takeWhile is_digit (tl s)
         in if ds = [] \<or> 9 < length ds then None
            else map_option (\<lambda>n. (n, dropWhile is_digit (tl s)))
                   (parse_digits 0 (ds @ replicate (9 - length ds) (CHR ''0''))))
      else Some (0, s))"

definition read_rfc3339 :: "string \<Rightarrow> instant option" where
  "read_rfc3339 s0 = do {
     (y, s) \<leftarrow> take_number 4 s0; s \<leftarrow> expect (CHR ''-'') s;
     (mo, s) \<leftarrow> take_number 2 s; s \<leftarrow> expect (CHR ''-'') s;
     (d, s) \<leftarrow> take_number 2 s; s \<leftarrow> expect (CHR ''T'') s;
     (h, s) \<leftarrow> take_number 2 s; s \<leftarrow> expect (CHR '':'') s;
     (mi, s) \<leftarrow> take_number 2 s; s \<leftarrow> expect (CHR '':'') s;
     (se, s) \<leftarrow> take_number 2 s; (ns, s) \<leftarrow> take_fraction s; s \<leftarrow> expect (CHR ''Z'') s;
     let z = day_number (int y) (int mo) (int d);
     if s = [] \<and> civil z = (int y, int mo, int d) \<and> h < 24 \<and> mi < 60 \<and> se < 60
     then Some ((z * 86400 + int (h * 3600 + mi * 60 + se)) * 1000000000 + int ns) else None }"

lemma length_fixed_digits [simp]: "length (fixed_digits k n) = k"
  by (induction k arbitrary: n) simp_all

lemma fixed_digits_digits: "list_all is_digit (fixed_digits k n)"
  by (induction k arbitrary: n) (simp_all add: is_digit_chars)

lemma parse_fixed_digits: "n < 10 ^ k \<Longrightarrow> parse_digits 0 (fixed_digits k n) = Some n"
proof (induction k arbitrary: n)
  case (Suc k)
  then have "n div 10 < 10 ^ k" by (simp add: less_mult_imp_div_less mult.commute)
  with Suc.IH show ?case by (simp add: parse_digits_append digit_val_digit_char)
qed simp

lemma take_number_fixed: "n < 10 ^ k \<Longrightarrow> take_number k (fixed_digits k n @ s) = Some (n, s)"
  by (simp add: take_number_def fixed_digits_digits parse_fixed_digits)

lemma expect_Cons [simp]: "expect c (c # s) = Some s"
  by (simp add: expect_def)

text \<open>Trailing zeroes of the fraction are dropped and filled in again.\<close>

lemma rev_dropWhile_replicate:
  "\<exists>k. s = rev (dropWhile (\<lambda>c. c = a) (rev s)) @ replicate k a"
proof -
  define w where "w = takeWhile (\<lambda>c. c = a) (rev s)"
  have "w = replicate (length w) a"
    by (rule replicate_length_same [symmetric]) (auto simp: w_def dest: set_takeWhileD)
  moreover have "rev s = w @ dropWhile (\<lambda>c. c = a) (rev s)" by (simp add: w_def)
  then have "s = rev (dropWhile (\<lambda>c. c = a) (rev s)) @ rev w" by (metis rev_append rev_rev_ident)
  ultimately show ?thesis by (metis rev_replicate)
qed

lemma take_fraction_text:
  assumes "ns < 1000000000"
  shows "take_fraction (fraction_text ns @ ''Z'') = Some (ns, ''Z'')"
proof (cases "ns = 0")
  case True
  then show ?thesis by (simp add: take_fraction_def fraction_text_def)
next
  case False
  define ds where "ds = rev (dropWhile (\<lambda>c. c = CHR ''0'') (rev (fixed_digits 9 ns)))"
  obtain k where k: "fixed_digits 9 ns = ds @ replicate k (CHR ''0'')"
    using rev_dropWhile_replicate [of "fixed_digits 9 ns" "CHR ''0''"] unfolding ds_def by blast
  then have len: "length ds + k = 9" by (metis length_append length_fixed_digits length_replicate)
  have digits: "list_all is_digit ds" using fixed_digits_digits [of 9 ns] k by simp
  have val: "parse_digits 0 (ds @ replicate k (CHR ''0'')) = Some ns"
    using parse_fixed_digits [of ns 9] assms k by simp
  have "ds \<noteq> []"
  proof
    assume "ds = []"
    with val parse_trailing_zeros [of 0 k] have "ns = 0" by simp
    with False show False ..
  qed
  moreover have "takeWhile is_digit (ds @ ''Z'') = ds" "dropWhile is_digit (ds @ ''Z'') = ''Z''"
    using takeWhile_digits [OF digits, of "''Z''"] by (simp_all add: is_digit_def)
  moreover have "9 - length ds = k" "\<not> 9 < length ds" using len by simp_all
  ultimately show ?thesis
    using False val by (simp add: take_fraction_def fraction_text_def ds_def [symmetric] Let_def)
qed

text \<open>The text of any six numbers and a fraction is taken apart again.\<close>

lemma read_parts:
  assumes "y < 10 ^ 4" "mo < 10 ^ 2" "d < 10 ^ 2" "h < 10 ^ 2" "mi < 10 ^ 2" "se < 10 ^ 2"
    and "ns < 1000000000"
  shows "read_rfc3339 (fixed_digits 4 y @ CHR ''-'' # fixed_digits 2 mo @ CHR ''-'' # fixed_digits 2 d @
      CHR ''T'' # fixed_digits 2 h @ CHR '':'' # fixed_digits 2 mi @ CHR '':'' # fixed_digits 2 se @
      fraction_text ns @ ''Z'') =
    (let z = day_number (int y) (int mo) (int d)
     in if civil z = (int y, int mo, int d) \<and> h < 24 \<and> mi < 60 \<and> se < 60
        then Some ((z * 86400 + int (h * 3600 + mi * 60 + se)) * 1000000000 + int ns) else None)"
  unfolding read_rfc3339_def
  by (simp only: take_number_fixed [OF assms(1)] take_number_fixed [OF assms(2)]
      take_number_fixed [OF assms(3)] take_number_fixed [OF assms(4)] take_number_fixed [OF assms(5)]
      take_number_fixed [OF assms(6)] take_fraction_text [OF assms(7)] expect_Cons Option.bind.simps prod.case
      Let_def simp_thms)

lemma read_rfc3339_text:
  assumes "marshalable t"
  shows "read_rfc3339 (rfc3339 t) = Some t"
proof -
  define s where "s = t div 1000000000"
  define sod where "sod = nat (s mod 86400)"
  obtain y m d where c: "civil (s div 86400) = (y, m, d)" by (metis prod_cases3)
  note v = civil_valid [OF c]
  have y: "0 \<le> y" "y \<le> 9999" using assms c by (simp_all add: marshalable_def s_def)
  have "month_lengths (leap_year y) ! nat (m - 1) \<le> 31"
  proof -
    have "0 \<le> m - 1" "m - 1 < 12" using v by linarith+
    then have "nat (m - 1) < 12" by (simp only: nat_less_iff)
    moreover have "list_all (\<lambda>l. l \<le> 31) (month_lengths (leap_year y))"
      "length (month_lengths (leap_year y)) = 12" by (simp_all add: month_lengths_def)
    ultimately show ?thesis by (simp add: list_all_length)
  qed
  with v have md: "0 \<le> m" "m < 100" "0 \<le> d" "d < 100" by linarith+
  then have small: "nat y < 10 ^ 4" "nat m < 10 ^ 2" "nat d < 10 ^ 2" using y
    by (simp_all add: nat_less_iff)
  have sod: "sod < 86400" "int sod = s mod 86400" by (simp_all add: sod_def nat_less_iff)
  then have parts: "sod div 3600 < 24" "sod div 60 mod 60 < 60" "sod mod 60 < 60"
    "sod div 3600 < 10 ^ 2" "sod div 60 mod 60 < 10 ^ 2" "sod mod 60 < 10 ^ 2"
    by (simp_all add: less_mult_imp_div_less)
  have whole: "sod div 3600 * 3600 + sod div 60 mod 60 * 60 + sod mod 60 = sod"
  proof -
    have "sod div 3600 = sod div 60 div 60" by (simp flip: div_mult2_eq)
    moreover have "sod div 60 div 60 * 60 + sod div 60 mod 60 = sod div 60"
      "sod div 60 * 60 + sod mod 60 = sod" by (simp_all only: div_mult_mod_eq)
    ultimately show ?thesis by linarith
  qed
  have ns: "nat (t mod 1000000000) < 1000000000" by (simp add: nat_less_iff)
  have again: "(s div 86400 * 86400 + int sod) * 1000000000 + t mod 1000000000 = t"
    by (simp add: sod s_def)
  have "rfc3339 t = fixed_digits 4 (nat y) @ CHR ''-'' # fixed_digits 2 (nat m) @ CHR ''-'' #
      fixed_digits 2 (nat d) @ CHR ''T'' # fixed_digits 2 (sod div 3600) @ CHR '':'' #
      fixed_digits 2 (sod div 60 mod 60) @ CHR '':'' # fixed_digits 2 (sod mod 60) @
      fraction_text (nat (t mod 1000000000)) @ ''Z''"
    by (simp only: rfc3339_def Let_def s_def [symmetric] sod_def [symmetric] c prod.case)
  then have "read_rfc3339 (rfc3339 t) =
      (let z = day_number (int (nat y)) (int (nat m)) (int (nat d))
       in if civil z = (int (nat y), int (nat m), int (nat d)) \<and> sod div 3600 < 24 \<and>
             sod div 60 mod 60 < 60 \<and> sod mod 60 < 60
          then Some ((z * 86400 + int sod) * 1000000000 + int (nat (t mod 1000000000))) else None)"
    by (simp only: read_parts [OF small parts(4-6) ns] whole)
  moreover have "int (nat y) = y" "int (nat m) = m" "int (nat d) = d"
    "int (nat (t mod 1000000000)) = t mod 1000000000" using y md by simp_all
  moreover have "day_number y m d = s div 86400" using v by simp
  ultimately show ?thesis using parts(1-3) by (simp only: Let_def c again simp_thms if_True)
qed

lemma ascii_simps [simp]:
  "ascii []" "ascii (c # s) \<longleftrightarrow> (of_char c :: nat) < 128 \<and> ascii s" "ascii (s @ t) \<longleftrightarrow> ascii s \<and> ascii t"
  by (simp_all add: ascii_def)

lemma ascii_digits: "list_all is_digit s \<Longrightarrow> ascii s"
  by (induction s) (auto simp: is_digit_def)

lemma ascii_fixed_digits [simp]: "ascii (fixed_digits k n)"
  by (rule ascii_digits [OF fixed_digits_digits])

lemma ascii_rev [simp]: "ascii (rev s) \<longleftrightarrow> ascii s"
  by (simp add: ascii_def)

lemma ascii_dropWhile: "ascii s \<Longrightarrow> ascii (dropWhile P s)"
  by (induction s) auto

lemma ascii_fraction [simp]: "ascii (fraction_text ns)"
  by (simp add: fraction_text_def ascii_dropWhile del: fixed_digits.simps)

lemma ascii_rfc3339: "ascii (rfc3339 t)"
  by (simp add: rfc3339_def Let_def del: fixed_digits.simps split: prod.split)

end
