(* ===== verification/JsonEncode.thy ===== *)
theory JsonEncode
  imports GoTime
begin

text \<open>
  How \<open>encoding/json\<close> turns structs into trees: the members of a struct in declaration order,
  with \<open>omitempty\<close>, and the types such trees have. A type lists the fields of a struct with their
  kind, so that \<open>typed\<close> says what a consumer of the output may rely on.
\<close>

subsection \<open>Members\<close>

type_synonym members = "(string \<times> json) list"

text \<open>A field that is always written, a string with \<open>omitempty\<close>, a pointer with \<open>omitempty\<close>.\<close>

definition always :: "string \<Rightarrow> json \<Rightarrow> members" where
  "always k v = [(k, v)]"

definition omit_empty :: "string \<Rightarrow> string \<Rightarrow> members" where
  "omit_empty k s = (if s = [] then [] else [(k, JStr s)])"

definition omit_nil :: "string \<Rightarrow> ('a \<Rightarrow> json) \<Rightarrow> 'a option \<Rightarrow> members" where
  "omit_nil k f p = (case p of None \<Rightarrow> [] | Some v \<Rightarrow> [(k, f v)])"

definition float_tree :: "float64 \<Rightarrow> json" where
  "float_tree x = JNum (json_float x)"

definition time_tree :: "instant \<Rightarrow> json" where
  "time_tree t = JStr (rfc3339 t)"

text \<open>The error of a timestamp that has no text.\<close>

definition year_error :: string where
  "year_error = ''json: error calling MarshalJSON for type time.Time: '' @
     ''Time.MarshalJSON: year outside of range [0,9999]''"

subsection \<open>Types of trees\<close>

datatype json_type =
    StringT
  | BoolT
  | NumberT
  | ListT json_type
  | StructT "(string \<times> bool \<times> json_type) list"

text \<open>
  The fields of a struct are present in the order of the type; the flag says which may be absent.
  Neither an unknown member nor a second one of the same name has a type.
\<close>

function typed :: "json_type \<Rightarrow> json \<Rightarrow> bool" and
  fields_typed :: "(string \<times> bool \<times> json_type) list \<Rightarrow> members \<Rightarrow> bool" where
  "typed StringT v = (case v of JStr s \<Rightarrow> True | _ \<Rightarrow> False)"
| "typed BoolT v = (case v of JBool b \<Rightarrow> True | _ \<Rightarrow> False)"
| "typed NumberT v = (case v of JNum lit \<Rightarrow> valid_number lit | _ \<Rightarrow> False)"
| "typed (ListT t) v = (case v of JArr vs \<Rightarrow> list_all (\<lambda>w. typed t w) vs | _ \<Rightarrow> False)"
| "typed (StructT fs) v = (case v of JObj ms \<Rightarrow> fields_typed fs ms | _ \<Rightarrow> False)"
| "fields_typed [] ms = (ms = [])"
| "fields_typed ((k, opt, t) # fs) [] = (opt \<and> fields_typed fs [])"
| "fields_typed ((k, opt, t) # fs) (m # ms) =
     (if fst m = k then typed t (snd m) \<and> fields_typed fs ms
      else opt \<and> fields_typed fs (m # ms))"
  by pat_completeness auto
termination
  by (relation "measure (\<lambda>x. case x of Inl (t, v) \<Rightarrow> 2 * size t
        | Inr (fs, ms) \<Rightarrow> Suc (2 * size_list (size_prod (\<lambda>x. 0) (size_prod (\<lambda>x. 0) size)) fs))")
    auto

lemma fields_typed_keys: "fields_typed fs ms \<Longrightarrow> fst ` set ms \<subseteq> fst ` set fs"
proof (induction fs arbitrary: ms)
  case (Cons f fs)
  obtain k opt t where f: "f = (k, opt, t)" by (cases f)
  show ?case
  proof (cases ms)
    case (Cons m ms')
    with Cons.prems Cons.IH [of ms'] Cons.IH [of "m # ms'"] show ?thesis
      by (auto simp: f split: if_splits)
  qed simp
qed simp

text \<open>A struct is typed field by field.\<close>

lemma typed_optional:
  assumes "fields_typed fs ms" "k \<notin> fst ` set fs" "\<And>v. (k, v) \<in> set seg \<Longrightarrow> typed t v"
    and "seg = [] \<and> opt \<or> (\<exists>v. seg = [(k, v)])"
  shows "fields_typed ((k, opt, t) # fs) (seg @ ms)"
proof (cases "seg = []")
  case True
  have "k \<notin> fst ` set ms" using fields_typed_keys [OF assms(1)] assms(2) by auto
  with True assms show ?thesis by (cases ms) auto
next
  case False
  with assms show ?thesis by auto
qed

lemma typed_always:
  "typed t v \<Longrightarrow> fields_typed fs ms \<Longrightarrow> fields_typed ((k, opt, t) # fs) (always k v @ ms)"
  by (simp add: always_def)

lemma typed_omit_empty:
  "fields_typed fs ms \<Longrightarrow> k \<notin> fst ` set fs \<Longrightarrow> fields_typed ((k, True, StringT) # fs) (omit_empty k s @ ms)"
  by (rule typed_optional) (auto simp: omit_empty_def split: if_splits)

lemma typed_omit_nil:
  "fields_typed fs ms \<Longrightarrow> k \<notin> fst ` set fs \<Longrightarrow> (\<And>v. p = Some v \<Longrightarrow> typed t (f v)) \<Longrightarrow>
     fields_typed ((k, True, t) # fs) (omit_nil k f p @ ms)"
  by (rule typed_optional) (auto simp: omit_nil_def split: option.splits)

lemmas typed_members = typed_always typed_omit_empty typed_omit_nil

text \<open>What has a type is a text of the library: its literals are numbers and its depth is bounded.\<close>

primrec type_depth :: "json_type \<Rightarrow> nat" where
  "type_depth StringT = 0"
| "type_depth BoolT = 0"
| "type_depth NumberT = 0"
| "type_depth (ListT t) = Suc (type_depth t)"
| "type_depth (StructT fs) = Suc (foldr (\<lambda>f. max (snd (snd f))) (map (map_prod id (map_prod id type_depth)) fs) 0)"

lemma fields_typed_member:
  "fields_typed fs ms \<Longrightarrow> m \<in> set ms \<Longrightarrow> \<exists>f \<in> set fs. fst f = fst m \<and> typed (snd (snd f)) (snd m)"
proof (induction fs arbitrary: ms)
  case (Cons f fs)
  obtain k opt t where f: "f = (k, opt, t)" by (cases f)
  show ?case
  proof (cases ms)
    case (Cons n ns)
    with Cons.prems Cons.IH [of ns] Cons.IH [of "n # ns"] show ?thesis
      by (auto simp: f split: if_splits)
  qed (use Cons.prems in simp)
qed simp

lemma typed_well_formed: "typed t v \<Longrightarrow> well_formed v \<and> depth v \<le> type_depth t"
proof (induction t arbitrary: v)
  case (ListT t)
  then obtain vs where vs: "v = JArr vs" "list_all (typed t) vs" by (cases v) auto
  with ListT.IH have "well_formed w \<and> depth w \<le> type_depth t" if "w \<in> set vs" for w
    using that by (auto simp: list_all_iff)
  then show ?case using foldr_max_le [of vs depth "type_depth t"]
    by (simp add: vs list_all_iff foldr_map comp_def)
next
  case (StructT fs)
  then obtain ms where ms: "v = JObj ms" "fields_typed fs ms" by (cases v) auto
  define n where "n = foldr (\<lambda>f. max (snd (snd f))) (map (map_prod id (map_prod id type_depth)) fs) 0"
  have n: "type_depth (snd (snd f)) \<le> n" if "f \<in> set fs" for f
    using foldr_max_le [of fs "\<lambda>f. type_depth (snd (snd f))" n] that
    by (simp add: n_def foldr_map comp_def)
  have "well_formed (snd m) \<and> depth (snd m) \<le> n" if m: "m \<in> set ms" for m
  proof -
    obtain f where f: "f \<in> set fs" "typed (snd (snd f)) (snd m)"
      using fields_typed_member [OF ms(2) m] by blast
    then have "well_formed (snd m) \<and> depth (snd m) \<le> type_depth (snd (snd f))"
      by (intro StructT.IH [of f "snd f" "snd (snd f)"]) (auto simp: prod_set_defs)
    with n [OF f(1)] show ?thesis by linarith
  qed
  then show ?case using foldr_max_le [of ms "\<lambda>m. depth (snd m)" n]
    by (simp add: ms list_all_iff foldr_map comp_def n_def)
qed (auto split: json.splits)

text \<open>Reading a text back keeps its type: the names of the fields are plain.\<close>

primrec names_valid :: "json_type \<Rightarrow> bool" where
  "names_valid StringT = True"
| "names_valid BoolT = True"
| "names_valid NumberT = True"
| "names_valid (ListT t) = names_valid t"
| "names_valid (StructT fs) =
     list_all (\<lambda>f. valid_utf8 (fst f) \<and> snd (snd f)) (map (map_prod id (map_prod id names_valid)) fs)"

lemma typed_cleaned_aux:
  "typed t v \<Longrightarrow> names_valid t \<Longrightarrow> typed t (cleaned v)"
  "fields_typed fs ms \<Longrightarrow> list_all (\<lambda>f. valid_utf8 (fst f) \<and> names_valid (snd (snd f))) fs \<Longrightarrow>
     fields_typed fs (map (\<lambda>m. (sanitize (fst m), cleaned (snd m))) ms)"
proof (induction t v and fs ms rule: typed_fields_typed.induct)
  case (4 t v)
  then show ?case by (cases v) (auto simp: list_all_iff)
next
  case (5 fs v)
  then show ?case by (cases v) (auto simp: list_all_iff case_prod_beta comp_def)
next
  case (8 k opt t fs m ms)
  show ?case
  proof (cases "fst m = k")
    case True
    with 8 show ?thesis by (simp add: sanitize_valid)
  next
    case False
    with "8.prems" have rest: "opt" "fields_typed fs (m # ms)" by simp_all
    then have "fst m \<in> fst ` set fs" using fields_typed_keys [OF rest(2)] by simp
    then have "sanitize (fst m) = fst m" using "8.prems"(2) by (auto simp: list_all_iff sanitize_valid)
    with False rest 8 show ?thesis by simp
  qed
qed (auto split: json.splits)

subsection \<open>Structs after sanitizing\<close>

definition clean_members :: "members \<Rightarrow> members" where
  "clean_members ms = map (\<lambda>m. (sanitize (fst m), cleaned (snd m))) ms"

lemma cleaned_JObj: "cleaned (JObj ms) = JObj (clean_members ms)"
  by (simp add: clean_members_def case_prod_beta comp_def)

declare cleaned.simps(6) [simp del]

lemma clean_member:
  "clean_members (a @ b) = clean_members a @ clean_members b"
  "clean_members (always k v) = always (sanitize k) (cleaned v)"
  "clean_members (omit_empty k s) = omit_empty (sanitize k) (sanitize s)"
  "clean_members (omit_nil k f p) = omit_nil (sanitize k) (\<lambda>v. cleaned (f v)) p"
  by (simp_all add: clean_members_def always_def omit_empty_def omit_nil_def split: option.split)

end
