(* ===== verification/Report.thy ===== *)
theory Report
  imports RunAll JsonEncode
begin

text \<open>
  The JSON report on standard output: the struct tags of \<open>Target\<close>, \<open>Result\<close> and \<open>phaseJSON\<close>
  (main.go), as \<open>json.NewEncoder(os.Stdout)\<close> with two-space indentation writes them, the type
  every report has, and that a reader gets back what was written.
\<close>

subsection \<open>The trees\<close>

text \<open>The embedded \<open>Target\<close> comes first, its fields flat in the object.\<close>

definition target_members :: "target \<Rightarrow> members" where
  "target_members t =
     always ''name'' (JStr (t_Name t)) @
     always ''addr'' (JStr (t_Addr t)) @
     always ''sni'' (JStr (t_SNI t)) @
     always ''region'' (JStr (t_Region t)) @
     omit_empty ''provider'' (t_Provider t) @
     omit_empty ''proto'' (t_Proto t) @
     omit_nil ''params'' id (t_Params t)"

definition phase_tree :: "phaseJSON \<Rightarrow> json" where
  "phase_tree p = JObj
     (always ''name'' (JStr (pj_Name p)) @
      always ''ok'' (JBool (pj_OK p)) @
      always ''seconds'' (float_tree (pj_Seconds p)) @
      omit_empty ''error'' (pj_Error p))"

definition omit_empty_list :: "string \<Rightarrow> json list \<Rightarrow> members" where
  "omit_empty_list k vs = (if vs = [] then [] else [(k, JArr vs)])"

definition result_tree :: "result \<Rightarrow> json" where
  "result_tree r = JObj
     (target_members (r_Target r) @
      always ''ok'' (JBool (r_OK r)) @
      omit_nil ''tcp_ok'' JBool (r_TCPOK r) @
      omit_nil ''tls_ok'' JBool (r_TLSOK r) @
      always ''ts'' (time_tree (r_Timestamp r)) @
      omit_nil ''tcp_seconds'' float_tree (r_TCPTime r) @
      omit_nil ''tls_seconds'' float_tree (r_TLSTime r) @
      omit_empty ''tls_version'' (r_TLSVer r) @
      omit_empty ''alpn'' (r_ALPN r) @
      omit_empty ''cert_cn'' (r_CertCN r) @
      omit_nil ''cert_match'' JBool (r_CertMatch r) @
      omit_empty ''error'' (r_Error r) @
      omit_empty_list ''phases'' (map phase_tree (r_Phases r)))"

definition report_tree :: "result list \<Rightarrow> json" where
  "report_tree results = JArr (map result_tree results)"

text \<open>\<open>Encode\<close> fails on the first timestamp that cannot be marshalled, and then writes nothing.\<close>

definition encodeResults :: "result list \<Rightarrow> string + string" where
  "encodeResults results =
     (if list_all (\<lambda>r. marshalable (r_Timestamp r)) results then Inr (indented (report_tree results))
      else Inl year_error)"

subsection \<open>The type of a report\<close>

definition phase_type :: json_type where
  "phase_type = StructT
     [(''name'', False, StringT), (''ok'', False, BoolT), (''seconds'', False, NumberT),
      (''error'', True, StringT)]"

definition result_type :: json_type where
  "result_type = StructT
     [(''name'', False, StringT), (''addr'', False, StringT), (''sni'', False, StringT),
      (''region'', False, StringT), (''provider'', True, StringT), (''proto'', True, StringT),
      (''ok'', False, BoolT), (''tcp_ok'', True, BoolT), (''tls_ok'', True, BoolT),
      (''ts'', False, StringT), (''tcp_seconds'', True, NumberT), (''tls_seconds'', True, NumberT),
      (''tls_version'', True, StringT), (''alpn'', True, StringT), (''cert_cn'', True, StringT),
      (''cert_match'', True, BoolT), (''error'', True, StringT), (''phases'', True, ListT phase_type)]"

definition report_type :: json_type where
  "report_type = ListT result_type"

text \<open>The numbers of a result are \<open>float64\<close> values, and it carries no parameters.\<close>

definition reportable :: "result \<Rightarrow> bool" where
  "reportable r \<longleftrightarrow>
     t_Params (r_Target r) = None \<and> pred_option float_ok (r_TCPTime r) \<and>
     pred_option float_ok (r_TLSTime r) \<and> list_all (\<lambda>p. float_ok (pj_Seconds p)) (r_Phases r)"

lemma typed_float: "float_ok x \<Longrightarrow> typed NumberT (float_tree x)"
  by (simp add: float_tree_def float_ok_def json_float_round_trip)

lemma typed_phase: "float_ok (pj_Seconds p) \<Longrightarrow> typed phase_type (phase_tree p)"
  using typed_omit_empty [of "[]" "[]" "''error''" "pj_Error p"]
  by (simp add: phase_type_def phase_tree_def always_def typed_float del: typed.simps(3))

lemma typed_phases:
  assumes "list_all (\<lambda>p. float_ok (pj_Seconds p)) ps"
  shows "fields_typed [(''phases'', True, ListT phase_type)] (omit_empty_list ''phases'' (map phase_tree ps))"
  using assms by (auto simp: omit_empty_list_def list_all_iff typed_phase)

lemma typed_result:
  assumes "reportable r"
  shows "typed result_type (result_tree r)"
proof -
  have floats: "r_TCPTime r = Some x \<Longrightarrow> float_ok x" "r_TLSTime r = Some x \<Longrightarrow> float_ok x" for x
    using assms by (simp_all add: reportable_def)
  have phases: "fields_typed [(''phases'', True, ListT phase_type)]
      (omit_empty_list ''phases'' (map phase_tree (r_Phases r)))"
    using assms by (intro typed_phases) (simp add: reportable_def)
  have params: "omit_nil ''params'' id (t_Params (r_Target r)) = []"
    using assms by (simp add: reportable_def omit_nil_def)
  show ?thesis
    unfolding result_type_def result_tree_def target_members_def typed.simps json.case append.assoc
      params append_Nil
    by (intro typed_always typed_omit_empty typed_omit_nil phases)
      (simp_all add: typed_float floats time_tree_def del: typed.simps(3))
qed

lemma typed_report: "list_all reportable results \<Longrightarrow> typed report_type (report_tree results)"
  by (simp add: report_type_def report_tree_def list_all_iff typed_result)

text \<open>Whatever a probe returns can be reported.\<close>

lemma float_ok_phase_value: "float_ok (phase_value 0 (seconds \<circ> ph_Duration) p)"
  by (cases p) (simp_all add: float_ok_values)

lemma reportable_toResult: "toResult t o' = Some r \<Longrightarrow> reportable r"
  by (cases "usesLegacyPhases o'")
    (auto simp: toResult_eq reportable_def result_simps list_all_iff to_phaseJSON_def float_ok_values
      float_ok_phase_value split: option.split)

lemma reportable_probe: "probe W t timeout h = Some (r, h') \<Longrightarrow> reportable r"
  by (auto simp: probe_def reportable_toResult split: sum.splits option.splits)
    (simp add: reportable_def newResult_def)

lemma reportable_runAll: "list_all reportable (runAll_results Ws targets timeout)"
proof -
  have "reportable (the (probe_job Ws targets timeout i))" for i
  proof -
    obtain r h where "probe (Ws i) (targets ! i) timeout [] = Some (r, h)"
      using probe_total [of "Ws i" "targets ! i" timeout "[]"] by auto
    with reportable_probe [OF this] show ?thesis
      by (simp add: probe_job_def sys_now_def reportable_def)
  qed
  then show ?thesis by (simp add: runAll_results_def list_all_iff)
qed

lemma runAll_report_typed: "typed report_type (report_tree (runAll_results Ws targets timeout))"
  by (rule typed_report [OF reportable_runAll])

subsection \<open>Reading a report back\<close>

lemma report_depth: "type_depth report_type \<le> max_depth"
  by (simp add: report_type_def result_type_def phase_type_def max_depth_def)

lemma parse_report:
  assumes "list_all reportable results" "encodeResults results = Inr text'"
  shows "parse_json text' = Some (cleaned (report_tree results))"
proof -
  have "well_formed (report_tree results)" "depth (report_tree results) \<le> max_depth"
    using typed_well_formed [OF typed_report [OF assms(1)]] report_depth by simp_all
  then show ?thesis
    using assms(2) parse_indented by (auto simp: encodeResults_def split: if_splits)
qed

lemma report_names: "names_valid report_type"
  by (simp add: report_type_def result_type_def phase_type_def ascii_valid ascii_def)

lemma parse_report_typed:
  assumes "list_all reportable results" "encodeResults results = Inr text'"
  shows "\<exists>v. parse_json text' = Some v \<and> typed report_type v"
  using parse_report [OF assms] typed_cleaned_aux(1) [OF typed_report [OF assms(1)] report_names] by simp

text \<open>The timestamp of a result in a report.\<close>

lemma map_of_members:
  "map_of (always k v @ ms) k' = (if k = k' then Some v else map_of ms k')"
  "k \<noteq> k' \<Longrightarrow> map_of (omit_empty k s @ ms) k' = map_of ms k'"
  "k \<noteq> k' \<Longrightarrow> map_of (omit_nil k f p @ ms) k' = map_of ms k'"
  by (auto simp: always_def omit_empty_def omit_nil_def split: option.split)

lemma ascii_name: "ascii k \<Longrightarrow> sanitize k = k"
  by (rule sanitize_valid [OF ascii_valid])

lemma report_timestamp:
  assumes "reportable r" "marshalable (r_Timestamp r)"
  shows "\<exists>text' s ms. encodeResults [r] = Inr text' \<and> parse_json text' = Some (JArr [JObj ms]) \<and>
    map_of ms ''ts'' = Some (JStr s) \<and> read_rfc3339 s = Some (r_Timestamp r)"
proof -
  obtain text' where t: "encodeResults [r] = Inr text'" using assms(2) by (simp add: encodeResults_def)
  obtain ms where ms: "result_tree r = JObj ms" by (simp add: result_tree_def)
  have "map_of (clean_members ms) ''ts'' = Some (JStr (rfc3339 (r_Timestamp r)))"
    using ms assms(1)
    by (auto simp: result_tree_def target_members_def clean_member map_of_members ascii_name
        time_tree_def ascii_rfc3339 simp del: map_of_append)
  then show ?thesis
    using parse_report [OF _ t] assms ms t
    by (auto simp: report_tree_def cleaned_JObj read_rfc3339_text)
qed

text \<open>A report on the results of \<open>runAll\<close> in any order.\<close>

lemma report_permuted:
  assumes perm: "mset results = mset (runAll_results Ws targets timeout)"
    and stamps: "list_all (\<lambda>r. marshalable (r_Timestamp r)) (runAll_results Ws targets timeout)"
  shows "\<exists>text'. encodeResults results = Inr text' \<and>
    parse_json text' = Some (cleaned (report_tree results)) \<and> typed report_type (cleaned (report_tree results))"
proof -
  have "list_all reportable results" "list_all (\<lambda>r. marshalable (r_Timestamp r)) results"
    using mset_eq_setD [OF perm] reportable_runAll stamps by (simp_all add: list_all_iff)
  then obtain text' where "encodeResults results = Inr text'" "list_all reportable results"
    by (simp add: encodeResults_def)
  then show ?thesis using parse_report parse_report_typed by fastforce
qed

end
