(* ===== verification/TargetsFile.thy ===== *)
theory TargetsFile
  imports LoadTargets Report
begin

text \<open>
  Targets files and the struct tags of \<open>Target\<close> belong together: a list of targets that is
  marshalled, compact or indented, is loaded back as that list. Provisioning scripts write such
  files, so this is what ties the decoder of \<open>loadTargets\<close> to the tags.
\<close>

definition target_tree :: "target \<Rightarrow> json" where
  "target_tree t = JObj (target_members t)"

definition targets_tree :: "target list \<Rightarrow> json" where
  "targets_tree ts = JArr (map target_tree ts)"

text \<open>What a reader gets: bytes that are no UTF-8 are replaced.\<close>

definition clean_target :: "target \<Rightarrow> target" where
  "clean_target t =
     \<lparr>t_Name = sanitize (t_Name t), t_Addr = sanitize (t_Addr t), t_SNI = sanitize (t_SNI t),
      t_Region = sanitize (t_Region t), t_Provider = sanitize (t_Provider t),
      t_Proto = sanitize (t_Proto t), t_Params = map_option cleaned (t_Params t)\<rparr>"

definition writable_target :: "target \<Rightarrow> bool" where
  "writable_target t \<longleftrightarrow> pred_option (\<lambda>j. well_formed j \<and> depth j + 2 \<le> max_depth) (t_Params t)"

lemma decode_append:
  "decode_members strict fs (a @ b) s saved =
     (case decode_members strict fs a s saved of (s1, saved1) \<Rightarrow> decode_members strict fs b s1 saved1)"
  by (induction a arbitrary: s saved) (auto split: option.split sum.split)

lemma decode_always:
  "find_field fs k = Some (store_string upd) \<Longrightarrow>
     decode_members strict fs (always k (JStr v)) s saved = (upd v s, saved)"
  by (simp add: always_def store_string_def)

lemma decode_omit_empty:
  "find_field fs k = Some (store_string upd) \<Longrightarrow>
     decode_members strict fs (omit_empty k v) s saved = (if v = [] then s else upd v s, saved)"
  by (simp add: omit_empty_def store_string_def)

lemma decode_omit_nil:
  "find_field fs k = Some (store_raw upd) \<Longrightarrow>
     decode_members strict fs (omit_nil k f p) s saved =
       (case p of None \<Rightarrow> s | Some v \<Rightarrow> upd (Some (f v)) s, saved)"
  by (simp add: omit_nil_def store_raw_def split: option.split)

lemma target_field:
  "find_field target_fields ''name'' = Some (store_string (\<lambda>v t. t\<lparr>t_Name := v\<rparr>))"
  "find_field target_fields ''addr'' = Some (store_string (\<lambda>v t. t\<lparr>t_Addr := v\<rparr>))"
  "find_field target_fields ''sni'' = Some (store_string (\<lambda>v t. t\<lparr>t_SNI := v\<rparr>))"
  "find_field target_fields ''region'' = Some (store_string (\<lambda>v t. t\<lparr>t_Region := v\<rparr>))"
  "find_field target_fields ''provider'' = Some (store_string (\<lambda>v t. t\<lparr>t_Provider := v\<rparr>))"
  "find_field target_fields ''proto'' = Some (store_string (\<lambda>v t. t\<lparr>t_Proto := v\<rparr>))"
  "find_field target_fields ''params'' = Some (store_raw (\<lambda>v t. t\<lparr>t_Params := v\<rparr>))"
  by (simp_all add: find_field_def target_fields_def fold_char_def)

lemma sanitize_target_names:
  "sanitize ''name'' = ''name''" "sanitize ''addr'' = ''addr''" "sanitize ''sni'' = ''sni''"
  "sanitize ''region'' = ''region''" "sanitize ''provider'' = ''provider''"
  "sanitize ''proto'' = ''proto''" "sanitize ''params'' = ''params''"
  by (simp_all add: sanitize_valid ascii_valid)

lemma cleaned_target_members:
  "clean_members (target_members t) =
     always ''name'' (JStr (sanitize (t_Name t))) @ always ''addr'' (JStr (sanitize (t_Addr t))) @
     always ''sni'' (JStr (sanitize (t_SNI t))) @ always ''region'' (JStr (sanitize (t_Region t))) @
     omit_empty ''provider'' (sanitize (t_Provider t)) @ omit_empty ''proto'' (sanitize (t_Proto t)) @
     omit_nil ''params'' cleaned (t_Params t)"
  by (simp add: target_members_def clean_member sanitize_target_names)

lemma decode_target:
  "decode_struct False target_fields zero_target (cleaned (target_tree t)) = Inr (clean_target t)"
  unfolding target_tree_def cleaned_JObj cleaned_target_members
  by (cases "t_Provider t = []"; cases "t_Proto t = []"; cases "t_Params t")
    (simp_all add: decode_struct_def decode_append decode_always decode_omit_empty decode_omit_nil
      target_field zero_target_def clean_target_def)

lemma unmarshal_targets_tree: "unmarshal_targets (cleaned (targets_tree ts)) = Inr (map clean_target ts)"
proof -
  have "decode_targets (map (\<lambda>t. cleaned (target_tree t)) ts) = Inr (map clean_target ts)"
    by (induction ts) (simp_all add: decode_target)
  then show ?thesis by (simp add: unmarshal_targets_def targets_tree_def comp_def)
qed

lemma target_tree_ok:
  assumes "list_all writable_target ts"
  shows "json_ok (targets_tree ts)"
proof -
  have t: "well_formed (target_tree t) \<and> depth (target_tree t) + 1 \<le> max_depth" if "t \<in> set ts" for t
  proof (cases "t_Params t")
    case None
    then show ?thesis
      by (auto simp: target_tree_def target_members_def always_def omit_empty_def omit_nil_def max_depth_def)
  next
    case (Some j)
    then have "well_formed j" "depth j + 2 \<le> max_depth"
      using assms that by (auto simp: list_all_iff writable_target_def)
    with Some show ?thesis
      by (auto simp: target_tree_def target_members_def always_def omit_empty_def omit_nil_def max_depth_def)
  qed
  then have "foldr (\<lambda>t. max (depth (target_tree t))) ts 0 \<le> max_depth - 1"
    using foldr_max_le [of ts "\<lambda>t. depth (target_tree t)" "max_depth - 1"] by fastforce
  moreover have "0 < max_depth" by (simp add: max_depth_def)
  ultimately show ?thesis
    using t by (simp add: json_ok_def targets_tree_def list_all_iff foldr_map comp_def)
qed

definition read_targets :: "json \<Rightarrow> target list option" where
  "read_targets j = (case unmarshal_targets j of Inl e \<Rightarrow> None | Inr ts \<Rightarrow> Some ts)"

interpretation compact_targets:
  struct_format compact parse_json json_ok cleaned targets_tree read_targets
    "list_all writable_target" "map clean_target"
  by unfold_locales (simp_all add: target_tree_ok read_targets_def unmarshal_targets_tree)

interpretation indented_targets:
  struct_format indented parse_json json_ok cleaned targets_tree read_targets
    "list_all writable_target" "map clean_target"
  by unfold_locales (simp_all add: target_tree_ok read_targets_def unmarshal_targets_tree)

text \<open>\<open>Unmarshal\<close> on a text, by way of the tree reader.\<close>

lemma unmarshal_text_reader:
  "Option.bind (parse_json data) read_targets = Some ts \<Longrightarrow> unmarshal_text data = Inr ts"
  by (cases "parse_json data"; cases "unmarshal_targets (the (parse_json data))")
    (auto simp: unmarshal_text_def read_targets_def)

lemma file_targets_written:
  assumes "list_all writable_target ts"
  shows "file_targets (Inr (compact (targets_tree ts))) = map clean_target ts"
    and "file_targets (Inr (indented (targets_tree ts))) = map clean_target ts"
  using unmarshal_text_reader [OF compact_targets.read_text [OF assms]]
    unmarshal_text_reader [OF indented_targets.read_text [OF assms]]
  by (simp_all add: file_targets_def)

end
