(* ===== verification/Push.thy ===== *)
theory Push
  imports World Codec JsonEncode
begin

text \<open>
  push.go: a batch of results is turned into the payload of probestore's ingest endpoint and
  posted, with retries of transient failures.

  The HTTP client, the timer and the context are oracles on the history of the calls made so far,
  newest first. The URL parser of \<open>http.NewRequest\<close> is an argument.
\<close>

subsection \<open>The run id\<close>

text \<open>Sixteen random bytes with the version and variant bits pinned, printed in five groups.\<close>

definition uuid_bits :: "bytes \<Rightarrow> bytes" where
  "uuid_bits b =
     (let b1 = b[6 := ((b ! 6) AND 0x0f) OR 0x40]
      in b1[8 := ((b1 ! 8) AND 0x3f) OR 0x80])"

definition format_uuid :: "bytes \<Rightarrow> string" where
  "format_uuid b =
     hex_bytes (take 4 b) @ ''-'' @ hex_bytes (take 2 (drop 4 b)) @ ''-'' @
     hex_bytes (take 2 (drop 6 b)) @ ''-'' @ hex_bytes (take 2 (drop 8 b)) @ ''-'' @
     hex_bytes (take 6 (drop 10 b))"

definition newUUIDv4 :: "world \<Rightarrow> trace \<Rightarrow> (string + string) \<times> trace" where
  "newUUIDv4 W h =
     (case sys_rand W 16 h of
        (Inl e, h1) \<Rightarrow> (Inl (''generating run id: '' @ lib_text (w_lib W) e), h1)
      | (Inr b, h1) \<Rightarrow> (Inr (format_uuid (uuid_bits b)), h1))"

subsection \<open>The payload\<close>

record pushNode =
  pn_Name :: string
  pn_Addr :: string
  pn_SNI :: string
  pn_Provider :: string

record pushResult =
  ps_Node :: pushNode
  ps_TS :: instant
  ps_TCPOK :: bool
  ps_TLSOK :: bool
  ps_LatencyMS :: "float64 option"
  ps_Error :: string
  ps_FailedPhase :: string

record pushPayload =
  pp_RunID :: string
  pp_Source :: string
  pp_StartedAt :: instant
  pp_Results :: "pushResult list"

definition failedPhase :: "result \<Rightarrow> string" where
  "failedPhase r =
     (if (case r_TCPOK r of None \<Rightarrow> True | Some ok \<Rightarrow> \<not> ok) then ''tcp''
      else if (case r_TLSOK r of None \<Rightarrow> True | Some ok \<Rightarrow> \<not> ok) then ''tls''
      else [])"

definition pushable :: "result \<Rightarrow> bool" where
  "pushable r \<longleftrightarrow> r_TCPOK r \<noteq> None \<and> r_TLSOK r \<noteq> None"

text \<open>The body of the loop of \<open>buildPayload\<close>; dereferencing a \<open>nil\<close> pointer is \<open>None\<close>.\<close>

definition push_result :: "result \<Rightarrow> pushResult option" where
  "push_result r =
     (case (r_TCPOK r, r_TLSOK r) of
        (Some tcp, Some tls) \<Rightarrow>
          Some \<lparr>ps_Node = \<lparr>pn_Name = t_Name (r_Target r), pn_Addr = t_Addr (r_Target r),
                           pn_SNI = t_SNI (r_Target r), pn_Provider = t_Provider (r_Target r)\<rparr>,
                ps_TS = r_Timestamp r, ps_TCPOK = tcp, ps_TLSOK = tls,
                ps_LatencyMS = (if tls then map_option (\<lambda>s. f64_mul s 1000) (r_TLSTime r) else None),
                ps_Error = r_Error r, ps_FailedPhase = failedPhase r\<rparr>
      | _ \<Rightarrow> None)"

fun push_results :: "result list \<Rightarrow> pushResult list option" where
  "push_results [] = Some []"
| "push_results (r # rs) =
     (if \<not> pushable r then push_results rs
      else (case push_result r of
              None \<Rightarrow> None
            | Some pr \<Rightarrow>
                (case push_results rs of None \<Rightarrow> None | Some prs \<Rightarrow> Some (pr # prs))))"

definition buildPayload :: "string \<Rightarrow> string \<Rightarrow> instant \<Rightarrow> result list \<Rightarrow> pushPayload option" where
  "buildPayload runID source startedAt results =
     (case push_results results of
        None \<Rightarrow> None
      | Some out \<Rightarrow>
          Some \<lparr>pp_RunID = runID, pp_Source = source, pp_StartedAt = startedAt, pp_Results = out\<rparr>)"

lemma push_result_pushable: "pushable r \<Longrightarrow> \<exists>pr. push_result r = Some pr"
  by (auto simp: pushable_def push_result_def)

lemma push_results_eq: "push_results rs = Some (map (\<lambda>r. the (push_result r)) (filter pushable rs))"
  by (induction rs) (auto dest: push_result_pushable)

text \<open>What an entry of the payload says of the result it stands for.\<close>

definition payload_entry :: "result \<Rightarrow> pushResult \<Rightarrow> bool" where
  "payload_entry r e \<longleftrightarrow>
     ps_Node e = \<lparr>pn_Name = t_Name (r_Target r), pn_Addr = t_Addr (r_Target r),
                  pn_SNI = t_SNI (r_Target r), pn_Provider = t_Provider (r_Target r)\<rparr> \<and>
     ps_TS e = r_Timestamp r \<and> Some (ps_TCPOK e) = r_TCPOK r \<and> Some (ps_TLSOK e) = r_TLSOK r \<and>
     ps_Error e = r_Error r \<and>
     ps_FailedPhase e = (if \<not> ps_TCPOK e then ''tcp'' else if \<not> ps_TLSOK e then ''tls'' else []) \<and>
     ps_LatencyMS e = (if ps_TLSOK e then map_option (\<lambda>s. f64_mul s 1000) (r_TLSTime r) else None)"

lemma push_result_entry: "pushable r \<Longrightarrow> payload_entry r (the (push_result r))"
  by (auto simp: pushable_def push_result_def payload_entry_def failedPhase_def)

lemma push_entries:
  "list_all2 payload_entry (filter pushable rs) (map (\<lambda>r. the (push_result r)) (filter pushable rs))"
  by (induction rs) (auto simp: push_result_entry)

subsection \<open>The body\<close>

definition node_tree :: "pushNode \<Rightarrow> json" where
  "node_tree n = JObj
     (always ''name'' (JStr (pn_Name n)) @
      always ''addr'' (JStr (pn_Addr n)) @
      always ''sni'' (JStr (pn_SNI n)) @
      omit_empty ''provider'' (pn_Provider n))"

definition push_result_tree :: "pushResult \<Rightarrow> json" where
  "push_result_tree r = JObj
     (always ''node'' (node_tree (ps_Node r)) @
      always ''ts'' (time_tree (ps_TS r)) @
      always ''tcp_ok'' (JBool (ps_TCPOK r)) @
      always ''tls_ok'' (JBool (ps_TLSOK r)) @
      omit_nil ''latency_ms'' float_tree (ps_LatencyMS r) @
      omit_empty ''error'' (ps_Error r) @
      omit_empty ''failed_phase'' (ps_FailedPhase r))"

definition payload_tree :: "pushPayload \<Rightarrow> json" where
  "payload_tree p = JObj
     (always ''run_id'' (JStr (pp_RunID p)) @
      always ''source'' (JStr (pp_Source p)) @
      always ''started_at'' (time_tree (pp_StartedAt p)) @
      always ''results'' (JArr (map push_result_tree (pp_Results p))))"

text \<open>\<open>json.Marshal\<close>: only a timestamp can fail.\<close>

definition marshalPayload :: "pushPayload \<Rightarrow> string + string" where
  "marshalPayload p =
     (if marshalable (pp_StartedAt p) \<and> list_all (\<lambda>r. marshalable (ps_TS r)) (pp_Results p)
      then Inr (compact (payload_tree p)) else Inl year_error)"

text \<open>\<open>bytes.TrimSpace\<close>: the runes \<open>unicode.IsSpace\<close> holds of, at both ends.\<close>

definition space_rune :: "string option \<Rightarrow> bool" where
  "space_rune r =
     (case r of
        None \<Rightarrow> False
      | Some bs \<Rightarrow>
          let ns = map of_char bs :: nat list
          in ns \<in> {[9], [10], [11], [12], [13], [32], [0xC2, 0x85], [0xC2, 0xA0], [0xE1, 0x9A, 0x80],
                  [0xE2, 0x80, 0xA8], [0xE2, 0x80, 0xA9], [0xE2, 0x80, 0xAF], [0xE2, 0x81, 0x9F],
                  [0xE3, 0x80, 0x80]} \<or>
             (length ns = 3 \<and> take 2 ns = [0xE2, 0x80] \<and> 0x80 \<le> ns ! 2 \<and> ns ! 2 \<le> 0x8A))"

fun runes_lengths :: "string option list \<Rightarrow> nat" where
  "runes_lengths [] = 0"
| "runes_lengths (r # rs) = (case r of None \<Rightarrow> 1 | Some bs \<Rightarrow> length bs) + runes_lengths rs"

definition trim_space :: "string \<Rightarrow> string" where
  "trim_space s =
     (let rs = runes s;
          i = runes_lengths (takeWhile space_rune rs);
          j = runes_lengths (takeWhile space_rune (rev rs))
      in take (length s - j - i) (drop i s))"

subsection \<open>Posting\<close>

record http_request =
  rq_url :: string
  rq_contentType :: string
  rq_authorization :: "string option"
  rq_body :: string

datatype http_answer = DoErr string | Response int string string

datatype push_event = Post http_request | Wait duration

record push_world =
  pw_bad_url :: "string \<Rightarrow> string option"
  pw_do :: "push_event list \<Rightarrow> http_answer"
  pw_wait :: "push_event list \<Rightarrow> string option"

datatype post_error = Permanent string | Transient string

datatype push_error = EncodingErr string | CtxDone string | Attempt nat post_error

definition postOnce ::
  "push_world \<Rightarrow> string \<Rightarrow> string \<Rightarrow> string \<Rightarrow> push_event list \<Rightarrow>
     post_error option \<times> push_event list" where
  "postOnce W url token body h =
     (case pw_bad_url W url of
        Some e \<Rightarrow> (Some (Permanent (''building request: '' @ e)), h)
      | None \<Rightarrow>
          (let req = \<lparr>rq_url = url, rq_contentType = ''application/json'',
                      rq_authorization = (if token \<noteq> [] then Some (''Bearer '' @ token) else None),
                      rq_body = body\<rparr>;
               h1 = Post req # h
           in (case pw_do W h1 of
                 DoErr e \<Rightarrow> (Some (Transient (''posting to '' @ url @ '': '' @ e)), h1)
               | Response code status snippet \<Rightarrow>
                   if 200 \<le> code \<and> code < 300 then (None, h1)
                   else if 400 \<le> code \<and> code < 500 then
                     (Some (Permanent (''server rejected the batch: '' @ status @ '': '' @
                        trim_space (take 512 snippet))), h1)
                   else (Some (Transient (''server error: '' @ status @ '': '' @ trim_space (take 512 snippet))), h1))))"

text \<open>The loop over the waits before each attempt; \<open>last\<close> is \<open>lastErr\<close>.\<close>

fun push_attempts ::
  "push_world \<Rightarrow> string \<Rightarrow> string \<Rightarrow> string \<Rightarrow> nat \<Rightarrow> duration list \<Rightarrow> push_error option \<Rightarrow>
     push_event list \<Rightarrow> push_error option \<times> push_event list" where
  "push_attempts W url token body attempt [] lastErr h = (lastErr, h)"
| "push_attempts W url token body attempt (wait # waits) lastErr h =
     (case (if wait > 0 then (pw_wait W (Wait wait # h), Wait wait # h) else (None, h)) of
        (Some e, h1) \<Rightarrow> (Some (CtxDone e), h1)
      | (None, h1) \<Rightarrow>
          (case postOnce W url token body h1 of
             (None, h2) \<Rightarrow> (None, h2)
           | (Some (Permanent m), h2) \<Rightarrow> (Some (Attempt (Suc attempt) (Permanent m)), h2)
           | (Some (Transient m), h2) \<Rightarrow>
               push_attempts W url token body (Suc attempt) waits
                 (Some (Attempt (Suc attempt) (Transient m))) h2))"

definition backoff :: "duration list" where
  "backoff = [0, 1000000000, 3 * 1000000000]"

definition pushResults ::
  "push_world \<Rightarrow> string \<Rightarrow> string \<Rightarrow> pushPayload \<Rightarrow> push_event list \<Rightarrow>
     push_error option \<times> push_event list" where
  "pushResults W url token payload h =
     (case marshalPayload payload of
        Inl e \<Rightarrow> (Some (EncodingErr (''encoding payload: '' @ e)), h)
      | Inr body \<Rightarrow> push_attempts W url token body 0 backoff None h)"

fun post_error_text :: "post_error \<Rightarrow> string" where
  "post_error_text (Permanent m) = m"
| "post_error_text (Transient m) = m"

fun push_error_text :: "push_error \<Rightarrow> string" where
  "push_error_text (EncodingErr m) = m"
| "push_error_text (CtxDone m) = m"
| "push_error_text (Attempt n e) = ''attempt '' @ show_nat n @ '': '' @ post_error_text e"

subsection \<open>What a push does\<close>

fun posts :: "push_event list \<Rightarrow> http_request list" where
  "posts [] = []"
| "posts (Post r # h) = r # posts h"
| "posts (Wait d # h) = posts h"

fun waited :: "push_event list \<Rightarrow> duration list" where
  "waited [] = []"
| "waited (Post r # h) = waited h"
| "waited (Wait d # h) = d # waited h"

definition success :: "http_answer \<Rightarrow> bool" where
  "success a = (case a of DoErr e \<Rightarrow> False | Response code status snippet \<Rightarrow> 200 \<le> code \<and> code < 300)"

definition rejected :: "http_answer \<Rightarrow> bool" where
  "rejected a = (case a of DoErr e \<Rightarrow> False | Response code status snippet \<Rightarrow> 400 \<le> code \<and> code < 500)"

definition push_request :: "string \<Rightarrow> string \<Rightarrow> string \<Rightarrow> http_request" where
  "push_request url token body =
     \<lparr>rq_url = url, rq_contentType = ''application/json'',
      rq_authorization = (if token \<noteq> [] then Some (''Bearer '' @ token) else None), rq_body = body\<rparr>"

lemma postOnce_cases:
  assumes "postOnce W url token body h = (r, h')"
  obtains (bad_url) e where "pw_bad_url W url = Some e" "r = Some (Permanent (''building request: '' @ e))"
      "h' = h"
    | (ok) "r = None" "h' = Post (push_request url token body) # h" "success (pw_do W h')"
    | (permanent) m where "r = Some (Permanent m)" "h' = Post (push_request url token body) # h"
      "rejected (pw_do W h')"
    | (transient) m where "r = Some (Transient m)" "h' = Post (push_request url token body) # h"
      "\<not> success (pw_do W h')" "\<not> rejected (pw_do W h')"
  using assms
  by (auto simp: postOnce_def push_request_def success_def rejected_def Let_def
      split: option.splits http_answer.splits if_splits)

text \<open>The answers to the posts of a piece of history, newest first.\<close>

fun post_answers :: "push_world \<Rightarrow> push_event list \<Rightarrow> push_event list \<Rightarrow> http_answer list" where
  "post_answers W [] h = []"
| "post_answers W (Post r # c) h = pw_do W (Post r # c @ h) # post_answers W c h"
| "post_answers W (Wait d # c) h = post_answers W c h"

lemma push_history_append [simp]:
  "posts (c @ d) = posts c @ posts d" "waited (c @ d) = waited c @ waited d"
  "post_answers W (c @ d) h = post_answers W c (d @ h) @ post_answers W d h"
  by (induction c rule: posts.induct) simp_all

lemma length_post_answers [simp]: "length (post_answers W c h) = length (posts c)"
  by (induction c rule: posts.induct) simp_all

definition push_effect ::
  "push_world \<Rightarrow> http_request \<Rightarrow> duration list \<Rightarrow> push_error option \<Rightarrow> push_event list \<Rightarrow>
     push_event list \<Rightarrow> bool" where
  "push_effect W req waits r c h \<longleftrightarrow>
     set (posts c) \<subseteq> {req} \<and> length (posts c) \<le> length waits \<and>
     rev (waited c) = take (length (waited c)) (filter (\<lambda>w. 0 < w) waits) \<and>
     (\<forall>a \<in> set (tl (post_answers W c h)). \<not> success a \<and> \<not> rejected a) \<and>
     (r = None \<longleftrightarrow> post_answers W c h \<noteq> [] \<and> success (hd (post_answers W c h))) \<and>
     (\<forall>n m. r = Some (Attempt n (Transient m)) \<longrightarrow> length (posts c) = length waits)"

lemma push_effect_step:
  assumes "push_effect W req waits r c (c1 @ h)"
    and "posts c1 = [req]" "waited c1 = (if 0 < wait then [wait] else [])"
    and "post_answers W c1 h = [a]" "\<not> success a" "\<not> rejected a"
  shows "push_effect W req (wait # waits) r (c @ c1) h"
  using assms by (cases "post_answers W c (c1 @ h)") (auto simp: push_effect_def)

lemma push_attempts_effect:
  assumes "push_attempts W url token body n waits prev h = (r, h')"
    and "waits \<noteq> [] \<or> prev \<noteq> None"
  shows "\<exists>c. h' = c @ h \<and> push_effect W (push_request url token body) waits r c h"
  using assms
proof (induction waits arbitrary: n prev h)
  case Nil
  then show ?case by (auto simp: push_effect_def)
next
  case (Cons wait waits)
  define w :: "push_event list" where "w = (if 0 < wait then [Wait wait] else [])"
  have w: "posts w = []" "waited w = (if 0 < wait then [wait] else [])" "post_answers W w h = []"
    by (simp_all add: w_def)
  define pre where "pre = (if wait > 0 then (pw_wait W (Wait wait # h), Wait wait # h) else (None, h))"
  have pre: "snd pre = w @ h" by (simp add: pre_def w_def)
  show ?case
  proof (cases "fst pre")
    case (Some e)
    then have "r = Some (CtxDone e)" "h' = w @ h"
      using Cons.prems(1) pre by (auto simp: pre_def split: if_splits)
    then show ?thesis using w by (intro exI [of _ w]) (simp add: push_effect_def)
  next
    case None
    obtain r1 h1 where p: "postOnce W url token body (w @ h) = (r1, h1)" by fastforce
    have pp: "pre = (None, w @ h)" using None pre by (cases pre) simp
    have "push_attempts W url token body n (wait # waits) prev h =
        (case (r1, h1) of
             (None, h2) \<Rightarrow> (None, h2)
           | (Some (Permanent m), h2) \<Rightarrow> (Some (Attempt (Suc n) (Permanent m)), h2)
           | (Some (Transient m), h2) \<Rightarrow>
               push_attempts W url token body (Suc n) waits (Some (Attempt (Suc n) (Transient m))) h2)"
      using pp p by (simp add: pre_def split: if_splits)
    note run = this [unfolded Cons.prems(1)]
    from p show ?thesis
    proof (cases rule: postOnce_cases)
      case (bad_url e)
      then show ?thesis using run w
        by (intro exI [of _ w]) (simp add: push_effect_def)
    next
      case ok
      then show ?thesis using run w
        by (intro exI [of _ "Post (push_request url token body) # w"]) (simp add: push_effect_def)
    next
      case (permanent m)
      then have "\<not> success (pw_do W h1)"
        by (auto simp: success_def rejected_def split: http_answer.splits)
      then show ?thesis using run w permanent
        by (intro exI [of _ "Post (push_request url token body) # w"]) (simp add: push_effect_def)
    next
      case (transient m)
      let ?c1 = "Post (push_request url token body) # w"
      have "push_attempts W url token body (Suc n) waits (Some (Attempt (Suc n) (Transient m))) (?c1 @ h) =
          (r, h')"
        using run transient by simp
      from Cons.IH [OF this] obtain c where
        c: "h' = c @ ?c1 @ h" "push_effect W (push_request url token body) waits r c (?c1 @ h)" by auto
      have "push_effect W (push_request url token body) (wait # waits) r (c @ ?c1) h"
        using transient w by (intro push_effect_step [OF c(2)]) simp_all
      then show ?thesis using c(1) by (intro exI [of _ "c @ ?c1"]) simp
    qed
  qed
qed

lemma push_effect_max: "push_effect W req backoff r c h \<Longrightarrow> length (posts c) \<le> 3"
  by (simp add: push_effect_def backoff_def)

lemma pushResults_effect:
  assumes "pushResults W url token payload h = (r, h')" "marshalPayload payload = Inr body"
  shows "\<exists>c. h' = c @ h \<and> push_effect W (push_request url token body) backoff r c h"
  using assms push_attempts_effect [of W url token body 0 backoff None h r h']
  by (simp add: pushResults_def backoff_def)

subsection \<open>The text of a run id\<close>

lemma high_nibble: "unat w div 16 = unat (drop_bit 4 w)" for w :: byte
  by (simp add: drop_bit_eq_div unat_div_distrib)

lemma version_nibble: "unat ((x AND 0x0f) OR 0x40 :: byte) div 16 = 4"
  unfolding high_nibble by (simp add: drop_bit_or drop_bit_and)

lemma variant_nibble: "unat ((x AND 0x3f) OR 0x80 :: byte) div 16 \<in> {8, 9, 10, 11}"
proof -
  let ?y = "drop_bit 4 x AND 3"
  have "drop_bit 4 ((x AND 0x3f) OR 0x80) = ?y OR 8"
    by (simp add: drop_bit_or drop_bit_and)
  moreover have "?y = take_bit 2 (drop_bit 4 x)"
    by (simp add: take_bit_eq_mask mask_eq_exp_minus_1)
  moreover have "take_bit 2 w \<in> {0, 1, 2, 3}" for w :: byte
  proof -
    have "unat (take_bit 2 w) < 4"
      by (simp add: take_bit_eq_mod unat_mod_distrib)
    then have "unat (take_bit 2 w) \<in> {0, 1, 2, 3}" by auto
    then show ?thesis by (auto simp: word_unat_eq_iff)
  qed
  ultimately have "drop_bit 4 ((x AND 0x3f) OR 0x80) \<in> (\<lambda>y. y OR 8) ` {0, 1, 2, 3}" by (metis imageI)
  then show ?thesis unfolding high_nibble by auto
qed
lemma uuid_bits_fields:
  assumes "length b = 16"
  shows "length (uuid_bits b) = 16" "unat (uuid_bits b ! 6) div 16 = 4"
    "unat (uuid_bits b ! 8) div 16 \<in> {8, 9, 10, 11}"
    "i < 16 \<Longrightarrow> i \<noteq> 6 \<Longrightarrow> i \<noteq> 8 \<Longrightarrow> uuid_bits b ! i = b ! i"
  using assms version_nibble variant_nibble by (simp_all add: uuid_bits_def Let_def)

lemma nth_hex_bytes:
  "i < length bs \<Longrightarrow> hex_bytes bs ! (2 * i) = hex_digit (unat (bs ! i) div 16)"
proof (induction bs arbitrary: i)
  case (Cons b bs)
  then show ?case by (cases i) (simp_all add: hex_byte_def nth_append)
qed simp

lemma format_uuid_shape:
  assumes "length b = 16"
  shows "length (format_uuid b) = 36" "format_uuid b ! 14 = hex_digit (unat (b ! 6) div 16)"
    "format_uuid b ! 19 = hex_digit (unat (b ! 8) div 16)"
    "format_uuid b ! 8 = CHR ''-''" "format_uuid b ! 13 = CHR ''-''" "format_uuid b ! 18 = CHR ''-''"
    "format_uuid b ! 23 = CHR ''-''"
  using assms nth_hex_bytes [of 0 "take 2 (drop 6 b)"] nth_hex_bytes [of 0 "take 2 (drop 8 b)"]
  by (simp_all add: format_uuid_def nth_append)

text \<open>The bytes can be read back from the text.\<close>

definition read_uuid :: "string \<Rightarrow> lib_err + bytes" where
  "read_uuid s = hex_decode (filter (\<lambda>c. c \<noteq> CHR ''-'') s)"

lemma hex_digit_not_dash: "d < 16 \<Longrightarrow> hex_digit d \<noteq> CHR ''-''"
proof
  assume "d < 16" "hex_digit d = CHR ''-''"
  then have "(of_char (hex_digit d) :: nat) = of_char CHR ''-''" by simp
  with \<open>d < 16\<close> show False by (simp add: hex_digit_def of_char_of split: if_splits)
qed

lemma hex_bytes_no_dash: "filter (\<lambda>c. c \<noteq> CHR ''-'') (hex_bytes bs) = hex_bytes bs"
proof (induction bs)
  case (Cons b bs)
  have "unat b div 16 < 16" using unsigned_less [of b, where 'a = nat] by simp
  with Cons show ?case by (simp add: hex_byte_def hex_digit_not_dash)
qed simp

lemma hex_bytes_append: "hex_bytes (as @ bs) = hex_bytes as @ hex_bytes bs"
  by (simp add: hex_bytes_def)

lemma read_format_uuid: "length b = 16 \<Longrightarrow> read_uuid (format_uuid b) = Inr b"
proof -
  assume len: "length b = 16"
  have "filter (\<lambda>c. c \<noteq> CHR ''-'') (format_uuid b) =
      hex_bytes (take 4 b @ take 2 (drop 4 b) @ take 2 (drop 6 b) @ take 2 (drop 8 b) @ take 6 (drop 10 b))"
    by (simp add: format_uuid_def hex_bytes_no_dash hex_bytes_append)
  also have "take 4 b @ take 2 (drop 4 b) @ take 2 (drop 6 b) @ take 2 (drop 8 b) @ take 6 (drop 10 b) = b"
    using len append_take_drop_id [of 4 b] append_take_drop_id [of 2 "drop 4 b"]
      append_take_drop_id [of 2 "drop 6 b"] append_take_drop_id [of 2 "drop 8 b"]
    by simp
  finally show ?thesis by (simp add: read_uuid_def codec_simps)
qed

text \<open>A run id is a version 4 UUID: 36 characters, the version digit 4, a variant digit from 8 to
  b, and sixteen bytes that can be read back from it.\<close>

lemma run_id_format:
  "case newUUIDv4 W h of
     (Inl e, h1) \<Rightarrow> h1 = Rand 16 # h
   | (Inr u, h1) \<Rightarrow>
       length u = 36 \<and> u ! 14 = CHR ''4'' \<and> u ! 19 \<in> set ''89ab'' \<and>
       (\<exists>b. length b = 16 \<and> read_uuid u = Inr b \<and> h1 = Rand 16 # h)"
proof (cases "sys_rand W 16 h")
  case (Pair r h1)
  have h1: "h1 = Rand 16 # h" by (rule sys_rand_trace [OF Pair])
  show ?thesis
  proof (cases r)
    case (Inl e)
    then show ?thesis using Pair h1 by (simp add: newUUIDv4_def)
  next
    case (Inr b)
    then have len: "length b = 16" using Pair sys_rand_length by blast
    note f = uuid_bits_fields(1-3) [OF len]
    note s = format_uuid_shape(1-3) [OF f(1)]
    have "hex_digit 4 = CHR ''4''" "hex_digit 8 = CHR ''8''" "hex_digit 9 = CHR ''9''"
      "hex_digit 10 = CHR ''a''" "hex_digit 11 = CHR ''b''"
      using digit_chars by (simp_all add: hex_digit_def digit_char_def) code_simp+
    then have "format_uuid (uuid_bits b) ! 14 = CHR ''4''" "format_uuid (uuid_bits b) ! 19 \<in> set ''89ab''"
      using f s by auto
    then show ?thesis
      using Pair Inr h1 s(1) f(1) read_format_uuid [OF f(1)] by (auto simp: newUUIDv4_def)
  qed
qed

text \<open>The payload holds, in order, one entry per result with both TCP and TLS verdicts, with the
  result's identity, timestamp, verdicts and error, the phase that failed (TCP before TLS, none if both
  passed), and a latency only for a completed handshake. No nil verdict is dereferenced.\<close>

lemma payload_built:
  "\<exists>p. buildPayload runID source startedAt rs = Some p \<and> pp_RunID p = runID \<and> pp_Source p = source \<and>
     pp_StartedAt p = startedAt \<and>
     list_all2 payload_entry (filter pushable rs) (pp_Results p)"
  using push_entries [of rs] by (simp add: buildPayload_def push_results_eq)

end
