(* ===== verification/Ingest.thy ===== *)
theory Ingest
  imports GoFloat JsonString "HOL-Library.AList"
begin

text \<open>
  probestore's ingest endpoint (probestore/app/routers/ingest.py) over the tables of
  app/models.py, with the constraints of app/schemas.py and the token check of app/security.py.

  A table is the list of its rows in insertion order; every table draws its primary keys from a
  sequence. What PostgreSQL does with a unique constraint is written out: a plain insert of a
  second row fails, \<open>ON CONFLICT DO NOTHING\<close> skips the row but not its sequence value, and no
  text holds a NUL. A request that fails is rolled back; the sequence values it drew are lost,
  which no row shows, and are not counted here.
\<close>

subsection \<open>The request (schemas.py)\<close>

type_synonym uuid = bytes

record node_ref =
  nr_name :: string
  nr_addr :: string
  nr_sni :: string
  nr_provider :: "string option"

record result_in =
  ri_node :: node_ref
  ri_ts :: instant
  ri_tcp_ok :: bool
  ri_tls_ok :: bool
  ri_latency_ms :: "float64 option"
  ri_error :: "string option"
  ri_failed_phase :: "string option"

record run_in =
  rn_run_id :: uuid
  rn_source :: string
  rn_started_at :: instant
  rn_results :: "result_in list"

text \<open>Python counts characters: of a UTF-8 string, the bytes that start one.\<close>

definition char_count :: "string \<Rightarrow> nat" where
  "char_count s = length (filter (\<lambda>c. (of_char c :: nat) div 64 \<noteq> 2) s)"

definition valid_node :: "node_ref \<Rightarrow> bool" where
  "valid_node n \<longleftrightarrow>
     char_count (nr_name n) \<le> 128 \<and> char_count (nr_addr n) \<le> 255 \<and> char_count (nr_sni n) \<le> 255 \<and>
     (case nr_provider n of None \<Rightarrow> True | Some p \<Rightarrow> char_count p \<le> 128)"

definition valid_result :: "result_in \<Rightarrow> bool" where
  "valid_result r \<longleftrightarrow>
     valid_node (ri_node r) \<and>
     (case ri_failed_phase r of None \<Rightarrow> True | Some p \<Rightarrow> p = ''tcp'' \<or> p = ''tls'')"

definition valid_run :: "run_in \<Rightarrow> bool" where
  "valid_run p \<longleftrightarrow>
     char_count (rn_source p) \<le> 128 \<and> 1 \<le> length (rn_results p) \<and> list_all valid_result (rn_results p)"

subsection \<open>The tables (models.py)\<close>

record node_row =
  nd_id :: nat
  nd_name :: string
  nd_addr :: string
  nd_sni :: string
  nd_provider :: "string option"

record run_row =
  run_id :: nat
  run_external_id :: uuid
  run_source :: string
  run_started_at :: instant

record result_row =
  res_id :: nat
  res_node_id :: nat
  res_run_id :: nat
  res_ts :: instant
  res_tcp_ok :: bool
  res_tls_ok :: bool
  res_latency_ms :: "float64 option"
  res_error :: "string option"
  res_failed_phase :: "string option"

record database =
  db_nodes :: "node_row list"
  db_runs :: "run_row list"
  db_results :: "result_row list"
  db_next_node :: nat
  db_next_run :: nat
  db_next_result :: nat

definition empty_db :: database where
  "empty_db = \<lparr>db_nodes = [], db_runs = [], db_results = [], db_next_node = 1, db_next_run = 1,
     db_next_result = 1\<rparr>"

definition node_key :: "node_row \<Rightarrow> string \<times> string" where
  "node_key n = (nd_addr n, nd_sni n)"

definition ref_key :: "node_ref \<Rightarrow> string \<times> string" where
  "ref_key n = (nr_addr n, nr_sni n)"

subsection \<open>Resolving nodes\<close>

text \<open>
  The dictionary comprehension: a repeated key keeps its place and takes the later value.
\<close>

definition seen_nodes :: "result_in list \<Rightarrow> ((string \<times> string) \<times> node_ref) list" where
  "seen_nodes rs = fold (\<lambda>r d. AList.update (ref_key (ri_node r)) (ri_node r) d) rs []"

definition new_node :: "node_ref \<Rightarrow> database \<Rightarrow> node_row" where
  "new_node n d =
     \<lparr>nd_id = db_next_node d, nd_name = nr_name n, nd_addr = nr_addr n, nd_sni = nr_sni n,
      nd_provider = nr_provider n\<rparr>"

definition insert_node :: "node_ref \<Rightarrow> database \<Rightarrow> database" where
  "insert_node n d =
     (let d' = d\<lparr>db_next_node := Suc (db_next_node d)\<rparr>
      in if ref_key n \<in> set (map node_key (db_nodes d)) then d'
         else d'\<lparr>db_nodes := db_nodes d @ [new_node n d]\<rparr>)"

text \<open>The \<open>SELECT\<close> for the keys of the batch.\<close>

definition node_ids :: "result_in list \<Rightarrow> node_row list \<Rightarrow> ((string \<times> string) \<times> nat) list" where
  "node_ids rs nodes =
     map (\<lambda>n. (node_key n, nd_id n)) (filter (\<lambda>n. node_key n \<in> set (map fst (seen_nodes rs))) nodes)"

definition resolve_nodes ::
  "result_in list \<Rightarrow> database \<Rightarrow> ((string \<times> string) \<times> nat) list \<times> database" where
  "resolve_nodes rs d =
     (let d1 = fold insert_node (map snd (seen_nodes rs)) d in (node_ids rs (db_nodes d1), d1))"

subsection \<open>What the tables can hold\<close>

text \<open>
  PostgreSQL has no text with a NUL; the driver fails on one. Of the nodes of a batch only those
  that are left in the dictionary reach the database.
\<close>

definition storable :: "string \<Rightarrow> bool" where
  "storable s \<longleftrightarrow> CHR 0x00 \<notin> set s"

definition storable_node :: "node_ref \<Rightarrow> bool" where
  "storable_node n \<longleftrightarrow>
     storable (nr_name n) \<and> storable (nr_addr n) \<and> storable (nr_sni n) \<and>
     pred_option storable (nr_provider n)"

definition storable_result :: "result_in \<Rightarrow> bool" where
  "storable_result r \<longleftrightarrow> pred_option storable (ri_error r) \<and> pred_option storable (ri_failed_phase r)"

definition storable_run :: "run_in \<Rightarrow> bool" where
  "storable_run p \<longleftrightarrow>
     storable (rn_source p) \<and> list_all storable_node (map snd (seen_nodes (rn_results p))) \<and>
     list_all storable_result (rn_results p)"

subsection \<open>The handler\<close>

record run_accepted =
  ra_run_id :: uuid
  ra_stored_results :: nat
  ra_duplicate :: bool

datatype http_reply = Created run_accepted | Unauthorized | Unprocessable | ServerError

text \<open>\<open>node_ids[(addr, sni)]\<close> raises \<open>KeyError\<close> for a missing key; here that is \<open>None\<close>.\<close>

definition new_result_row :: "nat \<Rightarrow> nat \<Rightarrow> nat \<Rightarrow> result_in \<Rightarrow> result_row" where
  "new_result_row run nid i r =
     \<lparr>res_id = i, res_node_id = nid, res_run_id = run, res_ts = ri_ts r,
      res_tcp_ok = ri_tcp_ok r, res_tls_ok = ri_tls_ok r, res_latency_ms = ri_latency_ms r,
      res_error = ri_error r, res_failed_phase = ri_failed_phase r\<rparr>"

fun result_rows ::
  "nat \<Rightarrow> ((string \<times> string) \<times> nat) list \<Rightarrow> nat \<Rightarrow> result_in list \<Rightarrow> result_row list option" where
  "result_rows run ids i [] = Some []"
| "result_rows run ids i (r # rs) =
     (case map_of ids (ref_key (ri_node r)) of
        None \<Rightarrow> None
      | Some nid \<Rightarrow>
          (case result_rows run ids (Suc i) rs of
             None \<Rightarrow> None
           | Some rows \<Rightarrow> Some (new_result_row run nid i r # rows)))"

definition store_rows :: "result_row list \<Rightarrow> database \<Rightarrow> database" where
  "store_rows rows d =
     d\<lparr>db_results := db_results d @ rows, db_next_result := db_next_result d + length rows\<rparr>"

definition find_run :: "uuid \<Rightarrow> database \<Rightarrow> run_row option" where
  "find_run u d = find (\<lambda>r. run_external_id r = u) (db_runs d)"

definition ingest_run :: "run_in \<Rightarrow> database \<Rightarrow> http_reply \<times> database" where
  "ingest_run p d =
     (case find_run (rn_run_id p) d of
        Some existing \<Rightarrow>
          (Created \<lparr>ra_run_id = rn_run_id p,
                    ra_stored_results =
                      length (filter (\<lambda>r. res_run_id r = run_id existing) (db_results d)),
                    ra_duplicate = True\<rparr>, d)
      | None \<Rightarrow>
          if \<not> storable_run p then (ServerError, d)
          else
          (let run = \<lparr>run_id = db_next_run d, run_external_id = rn_run_id p,
                      run_source = rn_source p, run_started_at = rn_started_at p\<rparr>;
               d1 = d\<lparr>db_runs := db_runs d @ [run], db_next_run := Suc (db_next_run d)\<rparr>;
               (ids, d2) = resolve_nodes (rn_results p) d1
           in (case result_rows (run_id run) ids (db_next_result d2) (rn_results p) of
                 None \<Rightarrow> (ServerError, d)
               | Some rows \<Rightarrow>
                   (Created \<lparr>ra_run_id = rn_run_id p, ra_stored_results = length (rn_results p),
                             ra_duplicate = False\<rparr>,
                    store_rows rows d2))))"

text \<open>\<open>secrets.compare_digest\<close> raises \<open>TypeError\<close> for texts that are not ASCII; here that is \<open>None\<close>.\<close>

definition compare_digest :: "string \<Rightarrow> string \<Rightarrow> bool option" where
  "compare_digest a b = (if ascii a \<and> ascii b then Some (a = b) else None)"

text \<open>The reply of a refused request, if it is refused: 401, or 500 for the uncaught \<open>TypeError\<close>.\<close>

definition require_token :: "string \<Rightarrow> string option \<Rightarrow> http_reply option" where
  "require_token api_token credentials =
     (case credentials of
        None \<Rightarrow> Some Unauthorized
      | Some c \<Rightarrow>
          (case compare_digest c api_token of
             None \<Rightarrow> Some ServerError
           | Some same \<Rightarrow> if same then None else Some Unauthorized))"

lemma require_token_simps [simp]:
  "require_token tok None = Some Unauthorized"
  "ascii tok \<Longrightarrow> require_token tok (Some tok) = None"
  by (simp_all add: require_token_def compare_digest_def)

lemma require_token_refuses: "require_token tok cred \<noteq> Some (Created a)"
  by (auto simp: require_token_def split: option.splits if_splits)

text \<open>The route: the bearer token first, then the constraints of the schema.\<close>

definition post_runs ::
  "string \<Rightarrow> string option \<Rightarrow> run_in \<Rightarrow> database \<Rightarrow> http_reply \<times> database" where
  "post_runs api_token credentials p d =
     (case require_token api_token credentials of
        Some refusal \<Rightarrow> (refusal, d)
      | None \<Rightarrow> if \<not> valid_run p then (Unprocessable, d) else ingest_run p d)"

definition status_code :: "http_reply \<Rightarrow> int" where
  "status_code r =
     (case r of Created _ \<Rightarrow> 201 | Unauthorized \<Rightarrow> 401 | Unprocessable \<Rightarrow> 422 | ServerError \<Rightarrow> 500)"

subsection \<open>The invariant of the database\<close>

definition db_inv :: "database \<Rightarrow> bool" where
  "db_inv d \<longleftrightarrow>
     distinct (map nd_id (db_nodes d)) \<and> distinct (map node_key (db_nodes d)) \<and>
     distinct (map run_id (db_runs d)) \<and> distinct (map run_external_id (db_runs d)) \<and>
     distinct (map res_id (db_results d)) \<and>
     (\<forall>n \<in> set (db_nodes d). nd_id n < db_next_node d) \<and>
     (\<forall>r \<in> set (db_runs d). run_id r < db_next_run d) \<and>
     (\<forall>r \<in> set (db_results d). res_id r < db_next_result d \<and>
        res_node_id r \<in> nd_id ` set (db_nodes d) \<and> res_run_id r \<in> run_id ` set (db_runs d))"

lemma db_inv_empty: "db_inv empty_db"
  by (simp add: db_inv_def empty_db_def)

lemma new_node_simps [simp]:
  "nd_id (new_node n d) = db_next_node d" "node_key (new_node n d) = ref_key n"
  by (simp_all add: new_node_def node_key_def ref_key_def)

lemma insert_node_inv: "db_inv d \<Longrightarrow> db_inv (insert_node n d)"
  by (auto simp: db_inv_def insert_node_def Let_def less_Suc_eq)

lemma insert_node_effect:
  "ref_key n \<in> set (map node_key (db_nodes (insert_node n d)))"
  "set (db_nodes d) \<subseteq> set (db_nodes (insert_node n d))"
  "db_runs (insert_node n d) = db_runs d" "db_results (insert_node n d) = db_results d"
  "db_next_run (insert_node n d) = db_next_run d" "db_next_result (insert_node n d) = db_next_result d"
  by (auto simp: insert_node_def Let_def)

lemma insert_nodes_effect:
  "set (map ref_key ns) \<union> set (map node_key (db_nodes d)) \<subseteq> set (map node_key (db_nodes (fold insert_node ns d)))"
  "set (db_nodes d) \<subseteq> set (db_nodes (fold insert_node ns d))"
  "db_runs (fold insert_node ns d) = db_runs d" "db_results (fold insert_node ns d) = db_results d"
  "db_next_run (fold insert_node ns d) = db_next_run d"
  "db_next_result (fold insert_node ns d) = db_next_result d"
  "db_inv d \<Longrightarrow> db_inv (fold insert_node ns d)"
proof (induction ns arbitrary: d)
  case (Cons n ns)
  { case 1
    let ?B = "set (map node_key (db_nodes d))" and ?B' = "set (map node_key (db_nodes (insert_node n d)))"
    have "ref_key n \<in> ?B'" by (rule insert_node_effect(1))
    moreover have "?B \<subseteq> ?B'" using insert_node_effect(2) [of d n] by auto
    moreover note Cons(1) [of "insert_node n d"]
    ultimately show ?case by (simp only: fold_simps list.simps) blast }
  { case 2 show ?case using Cons(2) [of "insert_node n d"] insert_node_effect(2) [of d n] by auto }
qed (simp_all add: insert_node_effect insert_node_inv)

subsection \<open>Every result finds its node\<close>

lemma seen_nodes_keys:
  "fst ` set (fold (\<lambda>r d. AList.update (ref_key (ri_node r)) (ri_node r) d) rs al) =
     fst ` set al \<union> (\<lambda>r. ref_key (ri_node r)) ` set rs"
proof (induction rs arbitrary: al)
  case (Cons r rs)
  have "fst ` set (AList.update k v al) = insert k (fst ` set al)" for k :: "string \<times> string" and v :: node_ref
    using dom_update [of k v al] by simp
  then show ?case by (simp add: Cons.IH)
qed simp

lemma seen_nodes_entries:
  "\<forall>e \<in> set al. fst e = ref_key (snd e) \<Longrightarrow>
   \<forall>e \<in> set (fold (\<lambda>r d. AList.update (ref_key (ri_node r)) (ri_node r) d) rs al). fst e = ref_key (snd e)"
proof (induction rs arbitrary: al)
  case (Cons r rs)
  have "\<forall>e \<in> set (AList.update (ref_key (ri_node r)) (ri_node r) al). fst e = ref_key (snd e)"
    using Cons.prems by (induction al) auto
  then show ?case by (simp add: Cons.IH)
qed simp

text \<open>The nodes a batch asks for, and what the lookup finds of them.\<close>

lemma wanted_keys:
  "fst ` set (seen_nodes rs) = (\<lambda>r. ref_key (ri_node r)) ` set rs"
  "ref_key ` set (map snd (seen_nodes rs)) = (\<lambda>r. ref_key (ri_node r)) ` set rs"
proof -
  show keys: "fst ` set (seen_nodes rs) = (\<lambda>r. ref_key (ri_node r)) ` set rs"
    unfolding seen_nodes_def using seen_nodes_keys [of rs "[]"] by simp
  have "\<forall>e \<in> set (seen_nodes rs). fst e = ref_key (snd e)"
    unfolding seen_nodes_def using seen_nodes_entries [of "[]" rs] by simp
  then have "ref_key ` set (map snd (seen_nodes rs)) = fst ` set (seen_nodes rs)" by force
  then show "ref_key ` set (map snd (seen_nodes rs)) = (\<lambda>r. ref_key (ri_node r)) ` set rs"
    using keys by simp
qed

lemma node_ids_complete:
  assumes "r \<in> set rs" "ref_key (ri_node r) \<in> node_key ` set nodes"
  shows "\<exists>nid. map_of (node_ids rs nodes) (ref_key (ri_node r)) = Some nid"
proof -
  have "ref_key (ri_node r) \<in> fst ` set (seen_nodes rs)" using wanted_keys(1) assms(1) by blast
  then have "ref_key (ri_node r) \<in> fst ` set (node_ids rs nodes)"
    using assms(2) by (force simp: node_ids_def)
  then show ?thesis by (metis map_of_eq_None_iff not_None_eq)
qed

text \<open>A lookup table names nodes of the list.\<close>

definition ids_stored :: "((string \<times> string) \<times> nat) list \<Rightarrow> node_row list \<Rightarrow> bool" where
  "ids_stored ids nodes \<longleftrightarrow> (\<forall>(k, nid) \<in> set ids. \<exists>n \<in> set nodes. nd_id n = nid \<and> node_key n = k)"

lemma ids_storedD:
  "ids_stored ids nodes \<Longrightarrow> (k, nid) \<in> set ids \<Longrightarrow> \<exists>n \<in> set nodes. nd_id n = nid \<and> node_key n = k"
  by (auto simp: ids_stored_def)

lemma node_ids_stored: "ids_stored (node_ids rs nodes) nodes"
  by (auto simp: ids_stored_def node_ids_def)

lemma ids_stored_mono: "ids_stored ids nodes \<Longrightarrow> set nodes \<subseteq> set nodes' \<Longrightarrow> ids_stored ids nodes'"
  unfolding ids_stored_def by fast

lemma resolve_nodes_complete:
  assumes "resolve_nodes rs d = (ids, d')" "r \<in> set rs"
  shows "\<exists>nid. map_of ids (ref_key (ri_node r)) = Some nid"
proof -
  have "ref_key (ri_node r) \<in> set (map ref_key (map snd (seen_nodes rs)))"
    using wanted_keys(2) [of rs] assms(2) by auto
  then have "ref_key (ri_node r) \<in> node_key ` set (db_nodes (fold insert_node (map snd (seen_nodes rs)) d))"
    using insert_nodes_effect(1) [of "map snd (seen_nodes rs)" d] by auto
  from node_ids_complete [OF assms(2) this] show ?thesis
    using assms(1) by (auto simp: resolve_nodes_def Let_def)
qed

lemma resolve_nodes_effect:
  assumes "resolve_nodes rs d = (ids, d')"
  shows "db_runs d' = db_runs d" "db_results d' = db_results d" "db_next_run d' = db_next_run d"
    "db_next_result d' = db_next_result d" "set (db_nodes d) \<subseteq> set (db_nodes d')"
    "db_inv d \<Longrightarrow> db_inv d'" "ids_stored ids (db_nodes d')"
  using assms insert_nodes_effect(2-7) [where d = d and ns = "map snd (seen_nodes rs)"] node_ids_stored
  by (auto simp: resolve_nodes_def Let_def)

lemma result_rows_total:
  "\<forall>r \<in> set rs. \<exists>nid. map_of ids (ref_key (ri_node r)) = Some nid \<Longrightarrow>
     \<exists>rows. result_rows run ids i rs = Some rows"
proof (induction rs arbitrary: i)
  case (Cons r rs)
  then obtain nid rows where "map_of ids (ref_key (ri_node r)) = Some nid"
    "result_rows run ids (Suc i) rs = Some rows" by fastforce
  then show ?case by simp
qed simp

definition stored_as :: "((string \<times> string) \<times> nat) list \<Rightarrow> nat \<Rightarrow> result_in \<Rightarrow> result_row \<Rightarrow> bool" where
  "stored_as ids run r x \<longleftrightarrow>
     (\<exists>nid. map_of ids (ref_key (ri_node r)) = Some nid \<and> x = new_result_row run nid (res_id x) r)"

lemma result_rows_map:
  "result_rows run ids i rs = Some rows \<Longrightarrow>
     map res_id rows = [i..<i + length rs] \<and> list_all2 (stored_as ids run) rs rows"
proof (induction rs arbitrary: i rows)
  case (Cons r rs)
  then obtain nid rest where nid: "map_of ids (ref_key (ri_node r)) = Some nid"
    and rest: "result_rows run ids (Suc i) rs = Some rest" and rows: "rows = new_result_row run nid i r # rest"
    by (auto split: option.splits)
  have "res_id (new_result_row run nid i r) = i" by (simp add: new_result_row_def)
  then show ?case using Cons.IH [OF rest] nid
    by (simp add: rows stored_as_def upt_conv_Cons del: upt_Suc)
qed simp

lemma result_rows_links:
  assumes "result_rows run ids i rs = Some rows" "x \<in> set rows"
  shows "res_run_id x = run" "res_node_id x \<in> snd ` set ids" "i \<le> res_id x" "res_id x < i + length rs"
proof -
  note rm = result_rows_map [OF assms(1)]
  obtain r where "stored_as ids run r x"
    using rm assms(2) by (metis in_set_conv_nth list_all2_conv_all_nth)
  then obtain nid where "map_of ids (ref_key (ri_node r)) = Some nid" "x = new_result_row run nid (res_id x) r"
    by (auto simp: stored_as_def)
  then show "res_run_id x = run" "res_node_id x \<in> snd ` set ids"
    by (metis result_row.select_convs(3) new_result_row_def, metis map_of_SomeD imageI snd_conv result_row.select_convs(2) new_result_row_def)
  have "res_id x \<in> set [i..<i + length rs]" using rm assms(2) by (metis imageI list.set_map)
  then show "i \<le> res_id x" "res_id x < i + length rs" by auto
qed

text \<open>The rows a run has: as many as it had results, in their order.\<close>

definition run_results :: "uuid \<Rightarrow> database \<Rightarrow> result_row list" where
  "run_results u d =
     (case find_run u d of
        None \<Rightarrow> []
      | Some r \<Rightarrow> filter (\<lambda>x. res_run_id x = run_id r) (db_results d))"

definition row_matches :: "database \<Rightarrow> result_in \<Rightarrow> result_row \<Rightarrow> bool" where
  "row_matches d r x \<longleftrightarrow>
     (\<exists>n \<in> set (db_nodes d). nd_id n = res_node_id x \<and> node_key n = ref_key (ri_node r)) \<and>
     x = new_result_row (res_run_id x) (res_node_id x) (res_id x) r"

subsection \<open>Storing the rows of a run\<close>

lemma store_rows_simps [simp]:
  "db_nodes (store_rows rows d) = db_nodes d" "db_runs (store_rows rows d) = db_runs d"
  "db_results (store_rows rows d) = db_results d @ rows"
  "db_next_node (store_rows rows d) = db_next_node d" "db_next_run (store_rows rows d) = db_next_run d"
  "db_next_result (store_rows rows d) = db_next_result d + length rows"
  by (simp_all add: store_rows_def)

lemma find_run_store [simp]: "find_run u (store_rows rows d) = find_run u d"
  by (simp add: find_run_def)

lemma store_rows_inv:
  assumes "db_inv d" "result_rows (run_id run) ids (db_next_result d) rs = Some rows"
    and "run \<in> set (db_runs d)" "ids_stored ids (db_nodes d)"
  shows "db_inv (store_rows rows d)"
proof -
  note links = result_rows_links [OF assms(2)]
  have len: "length rows = length rs" using result_rows_map [OF assms(2)] by (auto dest: list_all2_lengthD)
  then have ids: "map res_id rows = [db_next_result d..<db_next_result d + length rows]"
    using result_rows_map [OF assms(2)] by simp
  have "distinct (map res_id rows)" by (simp add: ids)
  moreover have "res_id x < db_next_result d + length rows" if "x \<in> set rows" for x
    using links(4) [OF that] len by simp
  moreover have "res_run_id x \<in> run_id ` set (db_runs d)" if "x \<in> set rows" for x
    using links(1) [OF that] assms(3) by simp
  moreover have "res_node_id x \<in> nd_id ` set (db_nodes d)" if "x \<in> set rows" for x
  proof -
    from links(2) [OF that] obtain k where "(k, res_node_id x) \<in> set ids" by auto
    from ids_storedD [OF assms(4) this] show ?thesis by (metis imageI)
  qed
  moreover have "set (map res_id (db_results d)) \<inter> set (map res_id rows) = {}"
    using assms(1) links(3) by (fastforce simp: db_inv_def)
  ultimately show ?thesis
    using assms(1) by (auto simp: db_inv_def trans_less_add1)
qed

lemma store_rows_results:
  assumes "result_rows (run_id run) ids i rs = Some rows" "find_run u d = Some run"
    and "\<forall>x \<in> set (db_results d). res_run_id x \<noteq> run_id run" "ids_stored ids (db_nodes d)"
  shows "run_results u (store_rows rows d) = rows" "list_all2 (row_matches (store_rows rows d)) rs rows"
proof -
  show "run_results u (store_rows rows d) = rows"
    using assms(2,3) result_rows_links(1) [OF assms(1)]
    by (simp add: run_results_def filter_id_conv filter_empty_conv)
  show "list_all2 (row_matches (store_rows rows d)) rs rows"
  proof (rule list_all2_mono [OF conjunct2 [OF result_rows_map [OF assms(1)]]])
    fix q x assume "stored_as ids (run_id run) q x"
    then obtain nid where nid: "map_of ids (ref_key (ri_node q)) = Some nid"
      and x: "x = new_result_row (run_id run) nid (res_id x) q" by (auto simp: stored_as_def)
    obtain n where "n \<in> set (db_nodes d)" "nd_id n = nid" "node_key n = ref_key (ri_node q)"
      using ids_storedD [OF assms(4) map_of_SomeD [OF nid]] by blast
    moreover have "res_node_id x = nid" "res_run_id x = run_id run"
      by (subst x, simp add: new_result_row_def)+
    ultimately show "row_matches (store_rows rows d) q x"
      using x unfolding row_matches_def by auto
  qed
qed

subsection \<open>A new run, a replayed run\<close>

lemma find_run_None: "find_run u d = None \<longleftrightarrow> u \<notin> run_external_id ` set (db_runs d)"
  by (auto simp: find_run_def find_None_iff)

lemma find_run_Some:
  "find_run u d = Some r \<Longrightarrow> r \<in> set (db_runs d) \<and> run_external_id r = u"
  by (auto simp: find_run_def find_Some_iff)

lemma find_skip: "\<forall>x \<in> set xs. \<not> P x \<Longrightarrow> find P (xs @ ys) = find P ys"
  by (induction xs) auto

definition new_run :: "run_in \<Rightarrow> database \<Rightarrow> run_row" where
  "new_run p d =
     \<lparr>run_id = db_next_run d, run_external_id = rn_run_id p, run_source = rn_source p,
      run_started_at = rn_started_at p\<rparr>"

definition add_run :: "run_in \<Rightarrow> database \<Rightarrow> database" where
  "add_run p d = d\<lparr>db_runs := db_runs d @ [new_run p d], db_next_run := Suc (db_next_run d)\<rparr>"

text \<open>A run id that is not there yet: the run, its nodes and all of its results are stored.\<close>

lemma ingest_new:
  assumes "find_run (rn_run_id p) d = None" "storable_run p"
  obtains ids d2 rows where "resolve_nodes (rn_results p) (add_run p d) = (ids, d2)"
    "result_rows (db_next_run d) ids (db_next_result d2) (rn_results p) = Some rows"
    "ingest_run p d =
       (Created \<lparr>ra_run_id = rn_run_id p, ra_stored_results = length (rn_results p),
                 ra_duplicate = False\<rparr>,
        store_rows rows d2)"
proof -
  obtain ids d2 where res: "resolve_nodes (rn_results p) (add_run p d) = (ids, d2)" by fastforce
  obtain rows where rows: "result_rows (db_next_run d) ids (db_next_result d2) (rn_results p) = Some rows"
    using result_rows_total resolve_nodes_complete [OF res] by blast
  show thesis
    using that [OF res rows] assms res rows
    by (simp add: ingest_run_def Let_def add_run_def new_run_def)
qed

lemma add_run_inv:
  "db_inv d \<Longrightarrow> find_run (rn_run_id p) d = None \<Longrightarrow> db_inv (add_run p d)"
  by (auto simp: db_inv_def add_run_def new_run_def find_run_None less_Suc_eq)

lemma ingest_new_inv:
  assumes "db_inv d" "find_run (rn_run_id p) d = None" "storable_run p"
  shows "db_inv (snd (ingest_run p d))"
proof -
  obtain ids d2 rows where r: "resolve_nodes (rn_results p) (add_run p d) = (ids, d2)"
    "result_rows (db_next_run d) ids (db_next_result d2) (rn_results p) = Some rows"
    "ingest_run p d =
       (Created \<lparr>ra_run_id = rn_run_id p, ra_stored_results = length (rn_results p),
                 ra_duplicate = False\<rparr>,
        store_rows rows d2)"
    by (rule ingest_new [OF assms(2,3)])
  note eff = resolve_nodes_effect [OF r(1)]
  have "db_inv d2" by (rule eff(6)) (rule add_run_inv [OF assms(1,2)])
  moreover have "new_run p d \<in> set (db_runs d2)" using eff(1) by (simp add: add_run_def)
  moreover have "run_id (new_run p d) = db_next_run d" by (simp add: new_run_def)
  ultimately show ?thesis using eff(7) store_rows_inv [of d2 "new_run p d"] r(2,3) by simp
qed

text \<open>A run id that is there already: nothing changes.\<close>

lemma ingest_replay:
  "find_run (rn_run_id p) d = Some existing \<Longrightarrow>
     ingest_run p d =
       (Created \<lparr>ra_run_id = rn_run_id p,
          ra_stored_results = length (filter (\<lambda>r. res_run_id r = run_id existing) (db_results d)),
          ra_duplicate = True\<rparr>, d)"
  by (simp add: ingest_run_def)

text \<open>A new run with a text that cannot be stored: an error, and nothing changes.\<close>

lemma ingest_unstorable:
  "find_run (rn_run_id p) d = None \<Longrightarrow> \<not> storable_run p \<Longrightarrow> ingest_run p d = (ServerError, d)"
  by (simp add: ingest_run_def)

lemma ingest_cases:
  obtains (replay) e where "find_run (rn_run_id p) d = Some e"
    "ingest_run p d =
       (Created \<lparr>ra_run_id = rn_run_id p,
          ra_stored_results = length (filter (\<lambda>r. res_run_id r = run_id e) (db_results d)),
          ra_duplicate = True\<rparr>, d)"
  | (fail) "find_run (rn_run_id p) d = None" "\<not> storable_run p" "ingest_run p d = (ServerError, d)"
  | (new) "find_run (rn_run_id p) d = None" "storable_run p"
  using ingest_replay [of p d] ingest_unstorable [of p d] by (cases "find_run (rn_run_id p) d") auto

lemma ingest_run_inv: "db_inv d \<Longrightarrow> db_inv (snd (ingest_run p d))"
  by (cases rule: ingest_cases [of p d]) (simp_all add: ingest_new_inv)

lemma ingest_created:
  "(\<exists>a. fst (ingest_run p d) = Created a) \<longleftrightarrow> storable_run p \<or> find_run (rn_run_id p) d \<noteq> None"
proof (cases rule: ingest_cases [of p d])
  case new
  then obtain a where "fst (ingest_run p d) = Created a" by (metis ingest_new fst_conv)
  then show ?thesis using new(2) by simp
qed simp_all

lemma ingest_finds:
  assumes "fst (ingest_run p d) = Created a"
  shows "find_run (rn_run_id p) (snd (ingest_run p d)) \<noteq> None"
proof (cases rule: ingest_cases [of p d])
  case new
  then obtain ids d2 rows where r: "resolve_nodes (rn_results p) (add_run p d) = (ids, d2)"
    "ingest_run p d =
       (Created \<lparr>ra_run_id = rn_run_id p, ra_stored_results = length (rn_results p),
                 ra_duplicate = False\<rparr>,
        store_rows rows d2)"
    by (rule ingest_new)
  then show ?thesis using resolve_nodes_effect(1) [OF r(1)]
    by (simp add: find_run_None add_run_def new_run_def)
qed (use assms in simp_all)

lemma ingest_failed:
  assumes "\<nexists>a. fst (ingest_run p d) = Created a"
  shows "snd (ingest_run p d) = d"
  using assms ingest_created [of p d] by (cases rule: ingest_cases [of p d]) auto

lemma ingest_twice:
  assumes "fst (ingest_run p d) = Created a"
  shows "\<exists>a'. ingest_run p (snd (ingest_run p d)) = (Created a', snd (ingest_run p d))"
proof -
  obtain e where "find_run (rn_run_id p) (snd (ingest_run p d)) = Some e"
    using ingest_finds [OF assms] by blast
  then show ?thesis by (simp add: ingest_replay)
qed

lemma ingest_new_results:
  assumes "db_inv d" "find_run (rn_run_id p) d = None" "storable_run p"
  shows "list_all2 (row_matches (snd (ingest_run p d))) (rn_results p)
      (run_results (rn_run_id p) (snd (ingest_run p d)))"
    and "db_results (snd (ingest_run p d)) = db_results d @ run_results (rn_run_id p) (snd (ingest_run p d))"
proof -
  obtain ids d2 rows where r: "resolve_nodes (rn_results p) (add_run p d) = (ids, d2)"
    "result_rows (db_next_run d) ids (db_next_result d2) (rn_results p) = Some rows"
    "ingest_run p d =
       (Created \<lparr>ra_run_id = rn_run_id p, ra_stored_results = length (rn_results p),
                 ra_duplicate = False\<rparr>,
        store_rows rows d2)"
    by (rule ingest_new [OF assms(2,3)])
  note eff = resolve_nodes_effect [OF r(1)]
  have runs: "db_runs d2 = db_runs d @ [new_run p d]" using eff(1) by (simp add: add_run_def)
  have "\<forall>x \<in> set (db_runs d). run_external_id x \<noteq> rn_run_id p"
    using assms(2) unfolding find_run_None by (metis imageI)
  then have found: "find_run (rn_run_id p) d2 = Some (new_run p d)"
    by (simp add: find_run_def runs find_skip) (simp add: new_run_def)
  have old: "\<forall>x \<in> set (db_results d2). res_run_id x \<noteq> run_id (new_run p d)"
  proof
    fix x assume "x \<in> set (db_results d2)"
    then obtain q where "q \<in> set (db_runs d)" "res_run_id x = run_id q"
      using assms(1) eff(2) unfolding db_inv_def by (auto simp: add_run_def)
    then show "res_run_id x \<noteq> run_id (new_run p d)"
      using assms(1) unfolding db_inv_def new_run_def by fastforce
  qed
  have "result_rows (run_id (new_run p d)) ids (db_next_result d2) (rn_results p) = Some rows"
    using r(2) by (simp add: new_run_def)
  note stored = store_rows_results [OF this found old eff(7)]
  then show "list_all2 (row_matches (snd (ingest_run p d))) (rn_results p)
      (run_results (rn_run_id p) (snd (ingest_run p d)))"
    by (simp add: r(3))
  show "db_results (snd (ingest_run p d)) = db_results d @ run_results (rn_run_id p) (snd (ingest_run p d))"
    using stored(1) eff(2) by (simp add: r(3) add_run_def)
qed

subsection \<open>The contract of an idempotent store\<close>

text \<open>
  What a client that retries needs of the service: a request that is accepted once may be
  delivered again without effect, and a refused one has none.
\<close>

locale idempotent_store =
  fixes inv :: "'db \<Rightarrow> bool"
    and apply_msg :: "'msg \<Rightarrow> 'db \<Rightarrow> 'resp \<times> 'db"
    and accepted :: "'resp \<Rightarrow> bool"
  assumes inv_apply: "inv d \<Longrightarrow> inv (snd (apply_msg m d))"
    and replay: "inv d \<Longrightarrow> accepted (fst (apply_msg m d)) \<Longrightarrow>
      accepted (fst (apply_msg m (snd (apply_msg m d)))) \<and>
      snd (apply_msg m (snd (apply_msg m d))) = snd (apply_msg m d)"
    and refused: "\<not> accepted (fst (apply_msg m d)) \<Longrightarrow> snd (apply_msg m d) = d"
begin

text \<open>Any number of deliveries, at least one, leaves what one delivery leaves.\<close>

lemma deliver_again:
  "inv d \<Longrightarrow> snd (apply_msg m (snd (apply_msg m d))) = snd (apply_msg m d)"
  using replay refused by (cases "accepted (fst (apply_msg m d))") auto

lemma deliver_many:
  assumes "inv d"
  shows "((\<lambda>d. snd (apply_msg m d)) ^^ Suc k) d = snd (apply_msg m d)"
proof (induction k)
  case (Suc k)
  then show ?case using deliver_again [OF assms] by simp
qed simp

lemma accepted_again:
  assumes "inv d" "accepted (fst (apply_msg m d))"
  shows "accepted (fst (apply_msg m (((\<lambda>d. snd (apply_msg m d)) ^^ k) d)))"
proof (cases k)
  case (Suc j)
  then show ?thesis unfolding Suc deliver_many [OF assms(1)] using replay [OF assms] by blast
qed (use assms in simp)

end

definition created :: "http_reply \<Rightarrow> bool" where
  "created r = (case r of Created a \<Rightarrow> True | _ \<Rightarrow> False)"

lemma created_storable: "created (fst (ingest_run p d)) \<Longrightarrow> find_run (rn_run_id p) d = None \<Longrightarrow> storable_run p"
  using ingest_created [of p d] by (auto simp: created_def split: http_reply.splits)

definition runs_endpoint ::
  "string \<Rightarrow> (string option \<times> run_in) \<Rightarrow> database \<Rightarrow> http_reply \<times> database" where
  "runs_endpoint api_token req d = post_runs api_token (fst req) (snd req) d"

lemma post_runs_inv: "db_inv d \<Longrightarrow> db_inv (snd (runs_endpoint tok m d))"
  by (simp add: runs_endpoint_def post_runs_def ingest_run_inv split: option.split)

lemma post_runs_created:
  "created (fst (runs_endpoint tok m d)) \<Longrightarrow>
     require_token tok (fst m) = None \<and> valid_run (snd m) \<and> runs_endpoint tok m d = ingest_run (snd m) d"
  by (auto simp: runs_endpoint_def post_runs_def created_def require_token_refuses
      split: if_splits option.splits http_reply.splits)

interpretation runs: idempotent_store db_inv "runs_endpoint tok" created
proof
  fix d m assume "db_inv d"
  then show "db_inv (snd (runs_endpoint tok m d))" by (rule post_runs_inv)
next
  fix d m assume a: "created (fst (runs_endpoint tok m d))"
  note c = post_runs_created [OF a]
  have eq: "runs_endpoint tok m d' = ingest_run (snd m) d'" for d'
    using c by (simp add: runs_endpoint_def post_runs_def)
  obtain acc where "fst (ingest_run (snd m) d) = Created acc"
    using a by (auto simp: eq created_def split: http_reply.splits)
  from ingest_twice [OF this] show "created (fst (runs_endpoint tok m (snd (runs_endpoint tok m d)))) \<and>
      snd (runs_endpoint tok m (snd (runs_endpoint tok m d))) = snd (runs_endpoint tok m d)"
    by (auto simp: eq created_def)
next
  fix d m assume "\<not> created (fst (runs_endpoint tok m d))"
  then show "snd (runs_endpoint tok m d) = d"
    using ingest_failed [of "snd m" d]
    by (cases "fst (ingest_run (snd m) d)")
      (auto simp: runs_endpoint_def post_runs_def created_def split: if_splits option.splits)
qed

end
