(* ===== verification/Wire.thy ===== *)
theory Wire
  imports Push Ingest
begin

text \<open>
  The body of a push, from the client's structs to the models of schemas.py: what \<open>nodecheck\<close>
  marshals is what the service validates, field by field.

  The service reads the text with a JSON parser and hands the tree to pydantic. How pydantic
  reads a scalar is an argument; \<open>py_ok\<close> states its documented behaviour on the scalars the
  client writes. A \<open>datetime\<close> keeps microseconds, further digits are cut off.
\<close>

subsection \<open>The models\<close>

record pydantic =
  py_str :: "json \<Rightarrow> string option"
  py_bool :: "json \<Rightarrow> bool option"
  py_float :: "json \<Rightarrow> float64 option"
  py_datetime :: "json \<Rightarrow> instant option"
  py_uuid :: "json \<Rightarrow> uuid option"

text \<open>The value of a member; of several members of one name the last counts.\<close>

definition member :: "string \<Rightarrow> members \<Rightarrow> json option" where
  "member k ms = map_of (rev ms) k"

definition required :: "(json \<Rightarrow> 'a option) \<Rightarrow> string \<Rightarrow> members \<Rightarrow> 'a option" where
  "required f k ms = Option.bind (member k ms) f"

definition optional :: "(json \<Rightarrow> 'a option) \<Rightarrow> string \<Rightarrow> members \<Rightarrow> 'a option option" where
  "optional f k ms =
     (case member k ms of
        None \<Rightarrow> Some None
      | Some JNull \<Rightarrow> Some None
      | Some v \<Rightarrow> map_option Some (f v))"

fun traverse :: "('a \<Rightarrow> 'b option) \<Rightarrow> 'a list \<Rightarrow> 'b list option" where
  "traverse f [] = Some []"
| "traverse f (x # xs) =
     (case f x of
        None \<Rightarrow> None
      | Some y \<Rightarrow> (case traverse f xs of None \<Rightarrow> None | Some ys \<Rightarrow> Some (y # ys)))"

definition read_object :: "(members \<Rightarrow> 'a option) \<Rightarrow> json \<Rightarrow> 'a option" where
  "read_object f j = (case j of JObj ms \<Rightarrow> f ms | _ \<Rightarrow> None)"

definition read_list :: "(json \<Rightarrow> 'a option) \<Rightarrow> json \<Rightarrow> 'a list option" where
  "read_list f j = (case j of JArr vs \<Rightarrow> traverse f vs | _ \<Rightarrow> None)"

definition read_node :: "pydantic \<Rightarrow> members \<Rightarrow> node_ref option" where
  "read_node P ms = do {
     name \<leftarrow> required (py_str P) ''name'' ms;
     addr \<leftarrow> required (py_str P) ''addr'' ms;
     sni \<leftarrow> required (py_str P) ''sni'' ms;
     provider \<leftarrow> optional (py_str P) ''provider'' ms;
     Some \<lparr>nr_name = name, nr_addr = addr, nr_sni = sni, nr_provider = provider\<rparr> }"

definition read_result :: "pydantic \<Rightarrow> members \<Rightarrow> result_in option" where
  "read_result P ms = do {
     node \<leftarrow> required (read_object (read_node P)) ''node'' ms;
     ts \<leftarrow> required (py_datetime P) ''ts'' ms;
     tcp_ok \<leftarrow> required (py_bool P) ''tcp_ok'' ms;
     tls_ok \<leftarrow> required (py_bool P) ''tls_ok'' ms;
     latency_ms \<leftarrow> optional (py_float P) ''latency_ms'' ms;
     error \<leftarrow> optional (py_str P) ''error'' ms;
     failed_phase \<leftarrow> optional (py_str P) ''failed_phase'' ms;
     Some \<lparr>ri_node = node, ri_ts = ts, ri_tcp_ok = tcp_ok, ri_tls_ok = tls_ok,
           ri_latency_ms = latency_ms, ri_error = error, ri_failed_phase = failed_phase\<rparr> }"

text \<open>A run without an id is given a fresh one.\<close>

definition read_run :: "pydantic \<Rightarrow> uuid \<Rightarrow> members \<Rightarrow> run_in option" where
  "read_run P fresh ms = do {
     run_id \<leftarrow> (case member ''run_id'' ms of None \<Rightarrow> Some fresh | Some v \<Rightarrow> py_uuid P v);
     source \<leftarrow> required (py_str P) ''source'' ms;
     started_at \<leftarrow> required (py_datetime P) ''started_at'' ms;
     results \<leftarrow> required (read_list (read_object (read_result P))) ''results'' ms;
     Some \<lparr>rn_run_id = run_id, rn_source = source, rn_started_at = started_at, rn_results = results\<rparr> }"

text \<open>
  The body of a request with a JSON content type: \<open>None\<close> for a text that is no JSON,
  \<open>Some None\<close> for one that the model refuses. An empty body is no text at all.
\<close>

definition read_body :: "pydantic \<Rightarrow> uuid \<Rightarrow> string \<Rightarrow> run_in option option" where
  "read_body P fresh body =
     (if body = [] then Some None
      else map_option (read_object (read_run P fresh)) (parse_json body))"

subsection \<open>The documented behaviour of pydantic\<close>

definition micros :: "instant \<Rightarrow> instant" where
  "micros t = t - t mod 1000"

text \<open>A Python \<open>datetime\<close> has no year 0.\<close>

definition py_range :: "instant \<Rightarrow> bool" where
  "py_range t \<longleftrightarrow> marshalable t \<and> fst (civil (t div 1000000000 div 86400)) \<noteq> 0"

definition py_ok :: "pydantic \<Rightarrow> bool" where
  "py_ok P \<longleftrightarrow>
     (\<forall>s. py_str P (JStr s) = Some s) \<and> (\<forall>b. py_bool P (JBool b) = Some b) \<and>
     (\<forall>lit. valid_number lit \<longrightarrow> py_float P (JNum lit) = parse_float lit) \<and>
     (\<forall>t. py_range t \<longrightarrow> py_datetime P (JStr (rfc3339 t)) = Some (micros t)) \<and>
     (\<forall>b. length b = 16 \<longrightarrow> py_uuid P (JStr (format_uuid b)) = Some b)"

text \<open>A concrete reader with that behaviour.\<close>

definition parse_uuid :: "string \<Rightarrow> uuid option" where
  "parse_uuid s = (case read_uuid s of Inl e \<Rightarrow> None | Inr b \<Rightarrow> if length b = 16 then Some b else None)"

definition plain_pydantic :: pydantic where
  "plain_pydantic =
     \<lparr>py_str = (\<lambda>j. case j of JStr s \<Rightarrow> Some s | _ \<Rightarrow> None),
      py_bool = (\<lambda>j. case j of JBool b \<Rightarrow> Some b | _ \<Rightarrow> None),
      py_float = (\<lambda>j. case j of JNum lit \<Rightarrow> parse_float lit | _ \<Rightarrow> None),
      py_datetime = (\<lambda>j. case j of JStr s \<Rightarrow> map_option micros (read_rfc3339 s) | _ \<Rightarrow> None),
      py_uuid = (\<lambda>j. case j of JStr s \<Rightarrow> parse_uuid s | _ \<Rightarrow> None)\<rparr>"

lemma parse_format_uuid: "length b = 16 \<Longrightarrow> parse_uuid (format_uuid b) = Some b"
  by (simp add: parse_uuid_def read_format_uuid)

lemma plain_pydantic_ok: "py_ok plain_pydantic"
  by (simp add: py_ok_def plain_pydantic_def py_range_def read_rfc3339_text parse_format_uuid)

subsection \<open>What the service makes of a payload\<close>

text \<open>
  Fields tagged \<open>omitempty\<close> are absent when empty, and absent fields default to \<open>None\<close>. Bytes
  that are no UTF-8 arrive as U+FFFD.
\<close>

definition omitempty :: "string \<Rightarrow> string option" where
  "omitempty s = (if s = [] then None else Some (sanitize s))"

definition node_of_push :: "pushNode \<Rightarrow> node_ref" where
  "node_of_push n =
     \<lparr>nr_name = sanitize (pn_Name n), nr_addr = sanitize (pn_Addr n), nr_sni = sanitize (pn_SNI n),
      nr_provider = omitempty (pn_Provider n)\<rparr>"

definition result_of_push :: "pushResult \<Rightarrow> result_in" where
  "result_of_push r =
     \<lparr>ri_node = node_of_push (ps_Node r), ri_ts = micros (ps_TS r), ri_tcp_ok = ps_TCPOK r,
      ri_tls_ok = ps_TLSOK r, ri_latency_ms = ps_LatencyMS r, ri_error = omitempty (ps_Error r),
      ri_failed_phase = omitempty (ps_FailedPhase r)\<rparr>"

definition run_of_payload :: "uuid \<Rightarrow> pushPayload \<Rightarrow> run_in" where
  "run_of_payload u p =
     \<lparr>rn_run_id = u, rn_source = sanitize (pp_Source p), rn_started_at = micros (pp_StartedAt p),
      rn_results = map result_of_push (pp_Results p)\<rparr>"

subsection \<open>Both sides agree\<close>

lemma member_append: "member k (a @ b) = (case member k b of Some v \<Rightarrow> Some v | None \<Rightarrow> member k a)"
  by (simp add: member_def map_add_def split: option.split)

lemma sanitize_uuid: "sanitize (format_uuid u) = format_uuid u"
proof -
  have digit: "(of_char (hex_digit d) :: nat) < 128" if "d < 16" for d
    using that by (auto simp: hex_digit_def of_char_of)
  have "ascii (hex_bytes bs)" for bs
  proof (induction bs)
    case (Cons b bs)
    have "unat b < 256" using unsigned_less [of b, where 'a = nat] by simp
    then have "unat b div 16 < 16" "unat b mod 16 < 16" by simp_all
    with Cons show ?case by (simp add: hex_byte_def digit)
  qed simp
  then have "ascii (format_uuid u)" by (simp add: format_uuid_def)
  then show ?thesis by (intro sanitize_valid ascii_valid)
qed

named_theorems wire_simps \<open>looking up the members of a written struct\<close>

lemma member_simps [wire_simps]:
  "member k (always k' v) = (if k = k' then Some v else None)"
  "member k (omit_empty k' s) = (if k = k' \<and> s \<noteq> [] then Some (JStr s) else None)"
  "member k (omit_nil k' f p) = (if k = k' then map_option f p else None)"
  by (auto simp: member_def always_def omit_empty_def omit_nil_def split: option.split)

lemma member_names [wire_simps]:
  "sanitize ''name'' = ''name''" "sanitize ''addr'' = ''addr''" "sanitize ''sni'' = ''sni''"
  "sanitize ''provider'' = ''provider''" "sanitize ''node'' = ''node''" "sanitize ''ts'' = ''ts''"
  "sanitize ''tcp_ok'' = ''tcp_ok''" "sanitize ''tls_ok'' = ''tls_ok''"
  "sanitize ''latency_ms'' = ''latency_ms''" "sanitize ''error'' = ''error''"
  "sanitize ''failed_phase'' = ''failed_phase''" "sanitize ''run_id'' = ''run_id''"
  "sanitize ''source'' = ''source''" "sanitize ''started_at'' = ''started_at''"
  "sanitize ''results'' = ''results''" "sanitize (rfc3339 t) = rfc3339 t"
  by (simp_all add: sanitize_valid ascii_valid ascii_rfc3339)

lemmas read_simps = wire_simps clean_member member_append required_def optional_def read_object_def cleaned_JObj

lemma py_okD:
  assumes "py_ok P"
  shows "py_str P (JStr s) = Some s" "py_bool P (JBool b) = Some b"
    "float_ok x \<Longrightarrow> py_float P (JNum (json_float x)) = Some x"
    "py_range t \<Longrightarrow> py_datetime P (JStr (rfc3339 t)) = Some (micros t)"
    "length u = 16 \<Longrightarrow> py_uuid P (JStr (format_uuid u)) = Some u"
  using assms by (simp_all add: py_ok_def float_ok_def json_float_round_trip)

lemma read_node_tree:
  assumes "py_ok P"
  shows "read_object (read_node P) (cleaned (node_tree n)) = Some (node_of_push n)"
  by (cases "pn_Provider n = []")
    (simp_all add: node_tree_def read_simps read_node_def node_of_push_def omitempty_def py_okD [OF assms])

text \<open>What the client's struct must satisfy: its numbers and timestamps have texts.\<close>

definition sendable :: "pushResult \<Rightarrow> bool" where
  "sendable r \<longleftrightarrow> py_range (ps_TS r) \<and> pred_option float_ok (ps_LatencyMS r)"

lemma read_result_tree:
  assumes "py_ok P" "sendable r"
  shows "read_object (read_result P) (cleaned (push_result_tree r)) = Some (result_of_push r)"
proof -
  note simps = push_result_tree_def read_simps read_result_def result_of_push_def omitempty_def time_tree_def
    float_tree_def py_okD [OF assms(1)] read_node_tree [OF assms(1), unfolded read_object_def]
  have "py_range (ps_TS r)" "\<And>x. ps_LatencyMS r = Some x \<Longrightarrow> float_ok x"
    using assms(2) by (simp_all add: sendable_def)
  then show ?thesis
    by (cases "ps_LatencyMS r"; cases "ps_Error r = []"; cases "ps_FailedPhase r = []") (simp_all add: simps)
qed

lemma traverse_map: "list_all (\<lambda>x. f (g x) = Some (h x)) xs \<Longrightarrow> traverse f (map g xs) = Some (map h xs)"
  by (induction xs) auto

lemma read_run_tree:
  assumes "py_ok P" "length u = 16" "pp_RunID p = format_uuid u" "py_range (pp_StartedAt p)"
    "list_all sendable (pp_Results p)"
  shows "read_object (read_run P fresh) (cleaned (payload_tree p)) = Some (run_of_payload u p)"
proof -
  have "traverse (read_object (read_result P)) (map (\<lambda>r. cleaned (push_result_tree r)) (pp_Results p)) =
      Some (map result_of_push (pp_Results p))"
    using assms(5) by (intro traverse_map) (auto simp: list_all_iff read_result_tree [OF assms(1)])
  then show ?thesis
    using assms py_okD [OF assms(1)]
    by (simp add: payload_tree_def read_simps read_run_def run_of_payload_def time_tree_def read_list_def
        comp_def sanitize_uuid)
qed

subsection \<open>The type of a body\<close>

definition node_type :: json_type where
  "node_type = StructT
     [(''name'', False, StringT), (''addr'', False, StringT), (''sni'', False, StringT),
      (''provider'', True, StringT)]"

definition push_result_type :: json_type where
  "push_result_type = StructT
     [(''node'', False, node_type), (''ts'', False, StringT), (''tcp_ok'', False, BoolT),
      (''tls_ok'', False, BoolT), (''latency_ms'', True, NumberT), (''error'', True, StringT),
      (''failed_phase'', True, StringT)]"

definition payload_type :: json_type where
  "payload_type = StructT
     [(''run_id'', False, StringT), (''source'', False, StringT), (''started_at'', False, StringT),
      (''results'', False, ListT push_result_type)]"

lemma typed_node: "typed node_type (node_tree n)"
  using typed_omit_empty [of "[]" "[]" "''provider''" "pn_Provider n"]
  by (simp add: node_type_def node_tree_def always_def)

lemma typed_push_result:
  assumes "pred_option float_ok (ps_LatencyMS r)"
  shows "typed push_result_type (push_result_tree r)"
proof -
  have phase: "fields_typed [(''failed_phase'', True, StringT)] (omit_empty ''failed_phase'' (ps_FailedPhase r))"
    using typed_omit_empty [of "[]" "[]" "''failed_phase''" "ps_FailedPhase r"] by simp
  show ?thesis
    unfolding push_result_type_def push_result_tree_def typed.simps json.case
    using assms
    by (intro typed_always typed_omit_empty typed_omit_nil phase)
      (auto simp: typed_node time_tree_def float_tree_def float_ok_def json_float_round_trip)
qed

lemma typed_payload:
  "list_all (\<lambda>r. pred_option float_ok (ps_LatencyMS r)) (pp_Results p) \<Longrightarrow> typed payload_type (payload_tree p)"
  by (simp add: payload_type_def payload_tree_def always_def time_tree_def list_all_iff typed_push_result)

lemma payload_depth: "type_depth payload_type \<le> max_depth"
  by (simp add: payload_type_def push_result_type_def node_type_def max_depth_def)

subsection \<open>The service reads what the client sent\<close>

definition sendable_payload :: "uuid \<Rightarrow> pushPayload \<Rightarrow> bool" where
  "sendable_payload u p \<longleftrightarrow>
     length u = 16 \<and> pp_RunID p = format_uuid u \<and> py_range (pp_StartedAt p) \<and>
     list_all sendable (pp_Results p)"

interpretation push_format:
  struct_format compact parse_json json_ok cleaned payload_tree "read_object (read_run P fresh)"
    "\<lambda>p. py_ok P \<and> sendable_payload u p" "run_of_payload u"
proof
  fix p assume p: "py_ok P \<and> sendable_payload u p"
  then have "typed payload_type (payload_tree p)"
    by (intro typed_payload) (auto simp: sendable_payload_def sendable_def list_all_iff)
  then show "json_ok (payload_tree p)"
    using typed_well_formed payload_depth by (fastforce simp: json_ok_def)
  show "read_object (read_run P fresh) (cleaned (payload_tree p)) = Some (run_of_payload u p)"
    using p by (intro read_run_tree) (simp_all add: sendable_payload_def)
qed

lemma read_body_payload:
  assumes "py_ok P" "sendable_payload u p" "marshalPayload p = Inr body"
  shows "read_body P fresh body = Some (Some (run_of_payload u p))"
proof -
  have "parse_json [] = None" by code_simp
  then show ?thesis
    using push_format.read_text [of P u p fresh] assms
    by (cases "body = []") (auto simp: read_body_def marshalPayload_def bind_eq_Some_conv split: if_splits)
qed

text \<open>A payload the client built is sendable, as far as its clock shows years Python knows.\<close>

lemma built_sendable:
  assumes "buildPayload (format_uuid u) source startedAt results = Some p" "length u = 16"
    and "py_range startedAt" "list_all (\<lambda>r. py_range (r_Timestamp r)) results"
  shows "sendable_payload u p" "\<exists>body. marshalPayload p = Inr body"
proof -
  have p: "p = \<lparr>pp_RunID = format_uuid u, pp_Source = source, pp_StartedAt = startedAt,
      pp_Results = map (\<lambda>r. the (push_result r)) (filter pushable results)\<rparr>"
    using assms(1) by (simp add: buildPayload_def push_results_eq)
  have "sendable (the (push_result r))" if "r \<in> set results" "pushable r" for r
    using push_result_entry [OF that(2)] assms(4) that(1)
    by (cases "r_TLSTime r") (auto simp: payload_entry_def sendable_def list_all_iff float_ok_values)
  then have "list_all sendable (pp_Results p)" by (simp add: p list_all_iff)
  with assms(2,3) show "sendable_payload u p" by (simp add: sendable_payload_def p)
  then show "\<exists>body. marshalPayload p = Inr body"
    by (auto simp: marshalPayload_def sendable_payload_def sendable_def py_range_def list_all_iff)
qed

end
