(* ===== verification/PushIngest.thy ===== *)
theory PushIngest
  imports Wire
begin

text \<open>
  push.go against probestore: the retry loop of the client and the run id of the service are one
  design. The network between them may lose a request or its answer; \<open>reached\<close> says which
  requests arrive, and a client is told of success only by the service.
\<close>

subsection \<open>The service as seen from the wire\<close>

text \<open>
  The service as seen from the wire. \<open>bearer\<close> is the framework's \<open>HTTPBearer\<close>, which takes the
  credentials out of the authorization header, and \<open>decode\<close> parses a request body. The framework
  refuses a body that is no JSON before it looks at the dependencies of the route, and one that
  does not fit the model after them.
\<close>

definition serve ::
  "(string option \<Rightarrow> string option) \<Rightarrow> string \<Rightarrow> (string \<Rightarrow> run_in option option) \<Rightarrow> http_request \<Rightarrow>
     database \<Rightarrow> http_reply \<times> database" where
  "serve bearer api_token decode req d =
     (case decode (rq_body req) of
        None \<Rightarrow> (Unprocessable, d)
      | Some None \<Rightarrow>
          (case require_token api_token (bearer (rq_authorization req)) of
             Some refusal \<Rightarrow> (refusal, d)
           | None \<Rightarrow> (Unprocessable, d))
      | Some (Some run) \<Rightarrow> runs_endpoint api_token (bearer (rq_authorization req), run) d)"

subsection \<open>The service behind an unreliable network\<close>

fun db_after ::
  "(http_request \<Rightarrow> 'db \<Rightarrow> 'resp \<times> 'db) \<Rightarrow> (push_event list \<Rightarrow> bool) \<Rightarrow> push_event list \<Rightarrow>
     push_event list \<Rightarrow> 'db \<Rightarrow> 'db" where
  "db_after srv reached [] h d = d"
| "db_after srv reached (Wait w # c) h d = db_after srv reached c h d"
| "db_after srv reached (Post r # c) h d =
     (if reached (Post r # c @ h) then snd (srv r (db_after srv reached c h d))
      else db_after srv reached c h d)"

definition honest ::
  "push_world \<Rightarrow> (http_request \<Rightarrow> 'db \<Rightarrow> 'resp \<times> 'db) \<Rightarrow> ('resp \<Rightarrow> bool) \<Rightarrow>
     (push_event list \<Rightarrow> bool) \<Rightarrow> push_event list \<Rightarrow> 'db \<Rightarrow> bool" where
  "honest W srv accepted reached h d \<longleftrightarrow>
     (\<forall>r c. success (pw_do W (Post r # c @ h)) \<longrightarrow>
        reached (Post r # c @ h) \<and> accepted (fst (srv r (db_after srv reached c h d))))"

text \<open>An idempotent store whose messages are the requests of the push client.\<close>

locale pushed_store = idempotent_store inv apply_msg accepted
  for inv :: "'db \<Rightarrow> bool"
    and apply_msg :: "http_request \<Rightarrow> 'db \<Rightarrow> 'resp \<times> 'db"
    and accepted :: "'resp \<Rightarrow> bool"
begin

text \<open>However often one request is sent and arrives, it takes effect at most once.\<close>

lemma at_most_once:
  assumes "inv d" "set (posts c) \<subseteq> {req}"
  shows "db_after apply_msg reached c h d = d \<or> db_after apply_msg reached c h d = snd (apply_msg req d)"
  using assms
proof (induction c)
  case (Cons e c)
  show ?case
  proof (cases e)
    case (Post r)
    with Cons show ?thesis using deliver_again by auto
  next
    case (Wait w)
    with Cons show ?thesis by simp
  qed
qed simp

lemma accepted_once:
  assumes "inv d" "d' = d \<or> d' = snd (apply_msg req d)" "accepted (fst (apply_msg req d'))"
  shows "accepted (fst (apply_msg req d)) \<and> snd (apply_msg req d') = snd (apply_msg req d)"
  using assms(2)
proof
  assume d': "d' = snd (apply_msg req d)"
  show ?thesis
  proof (cases "accepted (fst (apply_msg req d))")
    case True
    then show ?thesis using deliver_again [OF assms(1)] by (simp add: d')
  next
    case False
    then have "d' = d" using refused d' by simp
    then show ?thesis using False assms(3) by simp
  qed
qed (use assms in simp)

text \<open>A push that reports success has had its effect exactly once.\<close>

lemma push_exactly_once:
  assumes "inv d" "honest W apply_msg accepted reached h d"
    and "push_effect W req waits None c h"
  shows "accepted (fst (apply_msg req d)) \<and> db_after apply_msg reached c h d = snd (apply_msg req d)"
proof -
  have eff: "set (posts c) \<subseteq> {req}" "post_answers W c h \<noteq> []" "success (hd (post_answers W c h))"
    using assms(3) by (simp_all add: push_effect_def)
  from eff show ?thesis
  proof (induction c)
    case (Cons e c)
    show ?case
    proof (cases e)
      case (Post r)
      then have r: "r = req" "set (posts c) \<subseteq> {req}" "success (pw_do W (Post r # c @ h))"
        using Cons.prems by auto
      let ?d' = "db_after apply_msg reached c h d"
      have hon: "reached (Post req # c @ h)" "accepted (fst (apply_msg req ?d'))"
        using assms(2) r(3) unfolding honest_def r(1) by blast+
      have "?d' = d \<or> ?d' = snd (apply_msg req d)" by (rule at_most_once [OF assms(1) r(2)])
      from accepted_once [OF assms(1) this hon(2)] show ?thesis
        using hon(1) by (simp add: Post r(1))
    next
      case (Wait w)
      with Cons show ?thesis by simp
    qed
  qed simp
qed

end

subsection \<open>The two programs together\<close>

lemma serve_cases:
  obtains (refused) reply where "\<not> created reply" "serve bearer tok decode m = (\<lambda>d. (reply, d))"
  | (endpoint) run where "decode (rq_body m) = Some (Some run)"
    "serve bearer tok decode m = runs_endpoint tok (bearer (rq_authorization m), run)"
proof (cases "decode (rq_body m)")
  case None
  then show thesis using refused [of Unprocessable] by (simp add: serve_def created_def fun_eq_iff)
next
  case (Some parsed)
  show thesis
  proof (cases parsed)
    case (Some run)
    then show thesis using endpoint [of run] \<open>decode _ = _\<close> by (simp add: serve_def fun_eq_iff)
  next
    case None
    let ?refusal = "case require_token tok (bearer (rq_authorization m)) of
      Some refusal \<Rightarrow> refusal | None \<Rightarrow> Unprocessable"
    have "\<not> created ?refusal"
      using require_token_refuses [of tok "bearer (rq_authorization m)"]
      by (auto simp: created_def split: option.splits http_reply.splits)
    then show thesis using refused [of ?refusal] None \<open>decode _ = _\<close>
      by (simp add: serve_def fun_eq_iff split: option.split)
  qed
qed

interpretation wire: pushed_store db_inv "serve bearer tok decode" created
proof
  fix d and m :: "http_request" assume "db_inv d"
  then show "db_inv (snd (serve bearer tok decode m d))"
    using runs.inv_apply by (cases rule: serve_cases [of bearer tok decode m]) simp_all
next
  fix d and m :: "http_request" assume "db_inv d" "created (fst (serve bearer tok decode m d))"
  then show "created (fst (serve bearer tok decode m (snd (serve bearer tok decode m d)))) \<and>
      snd (serve bearer tok decode m (snd (serve bearer tok decode m d))) = snd (serve bearer tok decode m d)"
    using runs.replay by (cases rule: serve_cases [of bearer tok decode m]) simp_all
next
  fix d and m :: "http_request" assume "\<not> created (fst (serve bearer tok decode m d))"
  then show "snd (serve bearer tok decode m d) = d"
    using runs.refused by (cases rule: serve_cases [of bearer tok decode m]) simp_all
qed

lemma pushResults_stored:
  assumes "db_inv d" "marshalPayload payload = Inr body" "decode body = Some (Some run)"
    and "honest W (serve bearer api_token decode) created reached h d"
    and "pushResults W url token payload h = (None, h')"
  shows "\<exists>c. h' = c @ h \<and> valid_run run \<and> created (fst (ingest_run run d)) \<and>
    db_after (serve bearer api_token decode) reached c h d = snd (ingest_run run d)"
proof -
  obtain c where c: "h' = c @ h" "push_effect W (push_request url token body) backoff None c h"
    using pushResults_effect [OF assms(5,2)] by blast
  note once = wire.push_exactly_once [OF assms(1,4) c(2)]
  have eq: "serve bearer api_token decode (push_request url token body) d =
      runs_endpoint api_token (bearer (rq_authorization (push_request url token body)), run) d"
    by (simp add: serve_def push_request_def assms(3))
  have "valid_run run"
    "runs_endpoint api_token (bearer (rq_authorization (push_request url token body)), run) d =
      ingest_run run d"
    using post_runs_created [of api_token "(bearer (rq_authorization (push_request url token body)), run)" d]
      once eq by simp_all
  then show ?thesis using once eq c(1) by auto
qed

text \<open>What a stored row shows of the probe result it comes from.\<close>

definition row_shows :: "database \<Rightarrow> result \<Rightarrow> result_row \<Rightarrow> bool" where
  "row_shows d r x \<longleftrightarrow>
     (\<exists>n \<in> set (db_nodes d). nd_id n = res_node_id x \<and>
        nd_addr n = sanitize (t_Addr (r_Target r)) \<and> nd_sni n = sanitize (t_SNI (r_Target r))) \<and>
     res_ts x = micros (r_Timestamp r) \<and>
     r_TCPOK r = Some (res_tcp_ok x) \<and> r_TLSOK r = Some (res_tls_ok x) \<and>
     res_error x = omitempty (r_Error r) \<and>
     res_failed_phase x =
       (if \<not> res_tcp_ok x then Some ''tcp'' else if \<not> res_tls_ok x then Some ''tls'' else None) \<and>
     res_latency_ms x = (if res_tls_ok x then map_option (\<lambda>s. f64_mul s 1000) (r_TLSTime r) else None)"

lemma row_matches_shows:
  assumes "payload_entry r e" "row_matches d (result_of_push e) x"
  shows "row_shows d r x"
proof -
  obtain n where n: "n \<in> set (db_nodes d)" "nd_id n = res_node_id x" "node_key n = ref_key (node_of_push (ps_Node e))"
    using assms(2) by (auto simp: row_matches_def result_of_push_def)
  have key: "nd_addr n = sanitize (t_Addr (r_Target r))" "nd_sni n = sanitize (t_SNI (r_Target r))"
    using n(3) assms(1) by (simp_all add: node_key_def ref_key_def node_of_push_def payload_entry_def)
  obtain run nid i where x: "x = new_result_row run nid i (result_of_push e)"
    using assms(2) by (auto simp: row_matches_def)
  have "sanitize ''tcp'' = ''tcp''" "sanitize ''tls'' = ''tls''"
    by (simp_all add: sanitize_valid ascii_valid)
  then show ?thesis
    using n(1,2) key assms(1)
    by (auto simp: row_shows_def x new_result_row_def result_of_push_def payload_entry_def omitempty_def)
qed

lemma payload_rows:
  assumes "buildPayload i source startedAt results = Some payload"
    and "list_all2 (row_matches d) (map result_of_push (pp_Results payload)) rows"
  shows "list_all2 (row_shows d) (filter pushable results) rows"
proof -
  have "list_all2 payload_entry (filter pushable results) (pp_Results payload)"
    using assms(1) push_entries [of results] by (auto simp: buildPayload_def push_results_eq)
  then show ?thesis
    using assms(2) row_matches_shows
    by (auto simp: list_all2_conv_all_nth)
qed

text \<open>The whole way of a push that reports success, from the results to the rows.\<close>

lemma pushResults_rows:
  assumes "db_inv d" "find_run u d = None" "py_ok P" "length u = 16"
    and "py_range startedAt" "list_all (\<lambda>r. py_range (r_Timestamp r)) results"
    and "buildPayload (format_uuid u) source startedAt results = Some payload"
    and "honest W (serve bearer api_token (read_body P fresh)) created reached h d"
    and "pushResults W url token payload h = (None, h')"
  shows "\<exists>c. h' = c @ h \<and> db_inv (db_after (serve bearer api_token (read_body P fresh)) reached c h d) \<and>
    list_all2 (row_shows (db_after (serve bearer api_token (read_body P fresh)) reached c h d))
      (filter pushable results)
      (run_results u (db_after (serve bearer api_token (read_body P fresh)) reached c h d))"
proof -
  let ?run = "run_of_payload u payload"
  note send = built_sendable [OF assms(7,4,5,6)]
  obtain body where m: "marshalPayload payload = Inr body" using send(2) by blast
  have "read_body P fresh body = Some (Some ?run)" by (rule read_body_payload [OF assms(3) send(1) m])
  then obtain c where c: "h' = c @ h" "created (fst (ingest_run ?run d))"
    "db_after (serve bearer api_token (read_body P fresh)) reached c h d = snd (ingest_run ?run d)"
    using pushResults_stored [OF assms(1) m _ assms(8,9)] by blast
  have run: "rn_run_id ?run = u" "rn_results ?run = map result_of_push (pp_Results payload)"
    by (simp_all add: run_of_payload_def)
  show ?thesis
    using c(1,3) ingest_run_inv [OF assms(1)] payload_rows [OF assms(7)]
      ingest_new_results(1) [OF assms(1), of ?run] created_storable [OF c(2)] assms(2)
    by (auto simp: run)
qed

text \<open>
  A batch without a single TCP+TLS result is empty, and the service refuses an empty batch: the
  first request that is answered ends the push with a permanent error.
\<close>

lemma empty_batch_served:
  assumes "buildPayload (format_uuid u) source startedAt results = Some payload" "\<forall>r \<in> set results. \<not> pushable r"
    and "py_ok P" "length u = 16" "py_range startedAt" "ascii tok"
  shows "\<exists>body. marshalPayload payload = Inr body \<and>
    (\<forall>req. rq_body req = body \<longrightarrow> bearer (rq_authorization req) = Some tok \<longrightarrow>
       serve bearer tok (read_body P fresh) req d = (Unprocessable, d))"
proof -
  have p: "payload = \<lparr>pp_RunID = format_uuid u, pp_Source = source, pp_StartedAt = startedAt, pp_Results = []\<rparr>"
    using assms(1,2) by (simp add: buildPayload_def push_results_eq filter_False)
  then have sendable: "sendable_payload u payload" using assms(4,5) by (simp add: sendable_payload_def)
  then obtain body where m: "marshalPayload payload = Inr body"
    by (auto simp: marshalPayload_def sendable_payload_def py_range_def p)
  have "\<not> valid_run (run_of_payload u payload)" by (simp add: p run_of_payload_def valid_run_def)
  then show ?thesis
    using m read_body_payload [OF assms(3) sendable m] assms(6)
    by (auto simp: serve_def runs_endpoint_def post_runs_def)
qed

lemma pushResults_rejected:
  assumes "marshalPayload payload = Inr body" "pw_bad_url W url = None"
    and "rejected (pw_do W (Post (push_request url token body) # h))"
  shows "\<exists>m. pushResults W url token payload h =
    (Some (Attempt 1 (Permanent m)), Post (push_request url token body) # h)"
proof -
  obtain r h' where p: "postOnce W url token body h = (r, h')" by fastforce
  have "\<exists>m. r = Some (Permanent m) \<and> h' = Post (push_request url token body) # h"
    using p
  proof (cases rule: postOnce_cases)
    case ok
    then show ?thesis using assms(3) by (auto simp: success_def rejected_def split: http_answer.splits)
  qed (use assms(2,3) in auto)
  then show ?thesis using p assms(1) by (auto simp: pushResults_def backoff_def)
qed

text \<open>Every request to the ingest endpoint keeps the tables consistent: primary keys, (address,
  SNI) pairs and external run ids stay unique, and every result refers to a stored node and run.\<close>

lemma ingest_keeps_invariant:
  assumes "db_inv d"
  shows "db_inv (snd (post_runs api_token auth p d))"
  using assms by (simp add: post_runs_def ingest_run_inv split: option.split)

end
