(* ===== verification/Prom.thy ===== *)
theory Prom
  imports Prober
begin

text \<open>
  The Prometheus exporter of main.go: \<open>escapeLabel\<close>, \<open>labels\<close>, \<open>writeProm\<close>. What is written to
  the \<open>io.Writer\<close> is the value of \<open>writeProm\<close>, one string.

  Beside it stands what a scraper does with the text: splitting it into lines and reading a label
  set back.
\<close>

abbreviation (input) nl :: char where "nl \<equiv> CHR 0x0A"
abbreviation (input) quote_char :: char where "quote_char \<equiv> CHR 0x22"
abbreviation (input) backslash :: char where "backslash \<equiv> CHR 0x5C"

subsection \<open>Labels\<close>

text \<open>\<open>strings.ReplaceAll\<close> with an old string of one byte.\<close>

definition replace_all :: "char \<Rightarrow> string \<Rightarrow> string \<Rightarrow> string" where
  "replace_all c new s = concat (map (\<lambda>x. if x = c then new else [x]) s)"

definition escapeLabel :: "string \<Rightarrow> string" where
  "escapeLabel s =
     (let s1 = replace_all backslash [backslash, backslash] s;
          s2 = replace_all quote_char [backslash, quote_char] s1
      in replace_all nl (backslash # ''n'') s2)"

definition labels :: "string \<Rightarrow> string \<Rightarrow> string" where
  "labels name region =
     ''node='' @ [quote_char] @ escapeLabel name @ [quote_char] @ '',region='' @ [quote_char] @
     escapeLabel region @ [quote_char]"

definition result_labels :: "result \<Rightarrow> string" where
  "result_labels r = labels (t_Name (r_Target r)) (t_Region (r_Target r))"

definition boolToInt :: "bool \<Rightarrow> nat" where
  "boolToInt b = (if b then 1 else 0)"

lemma replace_all_simps [simp]:
  "replace_all c new [] = []"
  "replace_all c new (x # s) = (if x = c then new else [x]) @ replace_all c new s"
  by (simp_all add: replace_all_def)

lemma replace_all_append [simp]: "replace_all c new (s @ t) = replace_all c new s @ replace_all c new t"
  by (simp add: replace_all_def)

text \<open>The three passes do not disturb each other: they amount to one, byte by byte.\<close>

definition escape_char :: "char \<Rightarrow> string" where
  "escape_char c =
     (if c = backslash then [backslash, backslash]
      else if c = quote_char then [backslash, quote_char]
      else if c = nl then backslash # ''n''
      else [c])"

lemma escapeLabel_single_pass: "escapeLabel s = concat (map escape_char s)"
  unfolding escapeLabel_def Let_def by (induction s) (simp_all add: escape_char_def)

text \<open>
  Reading a quoted label value: up to the first quote that is not escaped, resolving the three
  escapes of the text format.
\<close>

fun read_value :: "string \<Rightarrow> (string \<times> string) option" where
  "read_value [] = None"
| "read_value (c # s) =
     (if c = quote_char then Some ([], s)
      else if c = backslash then
        (case s of
           [] \<Rightarrow> None
         | e # s' \<Rightarrow>
             (case read_value s' of
                None \<Rightarrow> None
              | Some (v, rest) \<Rightarrow>
                  if e = CHR ''n'' then Some (nl # v, rest)
                  else if e = backslash \<or> e = quote_char then Some (e # v, rest)
                  else None))
      else (case read_value s of None \<Rightarrow> None | Some (v, rest) \<Rightarrow> Some (c # v, rest)))"

lemma read_value_escaped: "read_value (escapeLabel s @ quote_char # rest) = Some (s, rest)"
  unfolding escapeLabel_single_pass by (induction s) (simp_all add: escape_char_def)

definition strip_prefix :: "string \<Rightarrow> string \<Rightarrow> string option" where
  "strip_prefix p s = (if take (length p) s = p then Some (drop (length p) s) else None)"

definition read_labels :: "string \<Rightarrow> (string \<times> string \<times> string) option" where
  "read_labels s =
     (case strip_prefix (''node='' @ [quote_char]) s of
        None \<Rightarrow> None
      | Some s1 \<Rightarrow>
          (case read_value s1 of
             None \<Rightarrow> None
           | Some (name, s2) \<Rightarrow>
               (case strip_prefix ('',region='' @ [quote_char]) s2 of
                  None \<Rightarrow> None
                | Some s3 \<Rightarrow>
                    (case read_value s3 of
                       None \<Rightarrow> None
                     | Some (region, rest) \<Rightarrow> Some (name, region, rest)))))"

lemma strip_prefix_append [simp]: "strip_prefix p (p @ s) = Some s"
  by (simp add: strip_prefix_def)

lemma read_labels_labels: "read_labels (labels name region @ rest) = Some (name, region, rest)"
proof -
  have "labels name region @ rest =
      (''node='' @ [quote_char]) @ escapeLabel name @ quote_char # ('',region='' @ [quote_char]) @
      escapeLabel region @ quote_char # rest"
    by (simp add: labels_def)
  then show ?thesis
    unfolding read_labels_def by (simp only: strip_prefix_append option.case read_value_escaped prod.case)
qed

lemma escapeLabel_no_newline: "nl \<notin> set (escapeLabel s)"
  unfolding escapeLabel_single_pass by (induction s) (simp_all add: escape_char_def)

lemma labels_no_newline: "nl \<notin> set (labels name region)"
  by (simp add: labels_def escapeLabel_no_newline)

subsection \<open>The exporter\<close>

definition family :: "string \<Rightarrow> string \<Rightarrow> string" where
  "family metric help_text =
     ''# HELP '' @ metric @ '' '' @ help_text @ [nl] @ ''# TYPE '' @ metric @ '' gauge'' @ [nl]"

definition sample :: "string \<Rightarrow> result \<Rightarrow> string \<Rightarrow> string" where
  "sample metric r v = metric @ ''{'' @ result_labels r @ ''} '' @ v @ [nl]"

text \<open>One loop over the results; the option is the test that lets a result be skipped.\<close>

definition samples :: "string \<Rightarrow> (result \<Rightarrow> string option) \<Rightarrow> result list \<Rightarrow> string" where
  "samples metric val rs =
     concat (map (\<lambda>r. case val r of None \<Rightarrow> [] | Some v \<Rightarrow> sample metric r v) rs)"

definition up_value :: "result \<Rightarrow> string option" where
  "up_value r = (if r_noLivenessClaim r then None else Some (show_nat (boolToInt (r_OK r))))"

definition tcp_value :: "result \<Rightarrow> string option" where
  "tcp_value r = map_option fmt_f4 (r_TCPTime r)"

definition tls_value :: "result \<Rightarrow> string option" where
  "tls_value r = map_option fmt_f4 (r_TLSTime r)"

definition cert_value :: "result \<Rightarrow> string option" where
  "cert_value r = map_option (\<lambda>b. show_nat (boolToInt b)) (r_CertMatch r)"

definition initiation_value :: "result \<Rightarrow> string option" where
  "initiation_value r = (if r_noLivenessClaim r then Some (show_nat (boolToInt (r_OK r))) else None)"

definition writeProm :: "result list \<Rightarrow> string" where
  "writeProm rs =
     family ''vpnnode_up'' ''Node is reachable (both TCP and TLS succeeded)'' @
     samples ''vpnnode_up'' up_value rs @
     family ''vpnnode_tcp_connect_seconds'' ''Time spent on the TCP connect phase'' @
     samples ''vpnnode_tcp_connect_seconds'' tcp_value rs @
     family ''vpnnode_tls_handshake_seconds'' ''Time spent on the TLS handshake phase'' @
     samples ''vpnnode_tls_handshake_seconds'' tls_value rs @
     family ''vpnnode_cert_match'' ''Presented certificate matches the expected SNI'' @
     samples ''vpnnode_cert_match'' cert_value rs @
     family ''vpnnode_initiation_sent''
       ''A valid protocol initiation was sent and not contradicted; not a liveness signal'' @
     samples ''vpnnode_initiation_sent'' initiation_value rs"

subsection \<open>The text, line by line\<close>

fun split_lines :: "string \<Rightarrow> string \<Rightarrow> string list" where
  "split_lines acc [] = (if acc = [] then [] else [acc])"
| "split_lines acc (c # s) = (if c = nl then acc # split_lines [] s else split_lines (acc @ [c]) s)"

definition text_lines :: "string \<Rightarrow> string list" where
  "text_lines s = split_lines [] s"

definition unlines :: "string list \<Rightarrow> string" where
  "unlines ls = concat (map (\<lambda>l. l @ [nl]) ls)"

lemma split_lines_line: "nl \<notin> set l \<Longrightarrow> split_lines acc (l @ nl # s) = (acc @ l) # split_lines [] s"
  by (induction l arbitrary: acc) auto

lemma text_lines_unlines: "\<forall>l \<in> set ls. nl \<notin> set l \<Longrightarrow> text_lines (unlines ls) = ls"
  unfolding text_lines_def unlines_def by (induction ls) (auto simp: split_lines_line)

lemma unlines_append: "unlines (ls @ ms) = unlines ls @ unlines ms"
  by (simp add: unlines_def)

definition sample_line :: "string \<Rightarrow> (result \<Rightarrow> string option) \<Rightarrow> result \<Rightarrow> string" where
  "sample_line metric val r = metric @ ''{'' @ result_labels r @ ''} '' @ the (val r)"

definition sample_lines :: "string \<Rightarrow> (result \<Rightarrow> string option) \<Rightarrow> result list \<Rightarrow> string list" where
  "sample_lines metric val rs = map (sample_line metric val) (filter (\<lambda>r. val r \<noteq> None) rs)"

definition family_lines :: "string \<Rightarrow> string \<Rightarrow> string list" where
  "family_lines metric help_text =
     [''# HELP '' @ metric @ '' '' @ help_text, ''# TYPE '' @ metric @ '' gauge'']"

lemma family_unlines: "family m t = unlines (family_lines m t)"
  by (simp add: family_def family_lines_def unlines_def)

lemma samples_unlines: "samples m val rs = unlines (sample_lines m val rs)"
  by (induction rs) (auto simp: samples_def sample_lines_def sample_line_def sample_def unlines_def)

definition prom_lines :: "result list \<Rightarrow> string list" where
  "prom_lines rs =
     family_lines ''vpnnode_up'' ''Node is reachable (both TCP and TLS succeeded)'' @
     sample_lines ''vpnnode_up'' up_value rs @
     family_lines ''vpnnode_tcp_connect_seconds'' ''Time spent on the TCP connect phase'' @
     sample_lines ''vpnnode_tcp_connect_seconds'' tcp_value rs @
     family_lines ''vpnnode_tls_handshake_seconds'' ''Time spent on the TLS handshake phase'' @
     sample_lines ''vpnnode_tls_handshake_seconds'' tls_value rs @
     family_lines ''vpnnode_cert_match'' ''Presented certificate matches the expected SNI'' @
     sample_lines ''vpnnode_cert_match'' cert_value rs @
     family_lines ''vpnnode_initiation_sent''
       ''A valid protocol initiation was sent and not contradicted; not a liveness signal'' @
     sample_lines ''vpnnode_initiation_sent'' initiation_value rs"

lemma writeProm_unlines: "writeProm rs = unlines (prom_lines rs)"
  by (simp add: writeProm_def prom_lines_def family_unlines samples_unlines unlines_append)

lemma digit_char_not_nl: "d < 10 \<Longrightarrow> digit_char d \<noteq> nl"
proof
  assume "d < 10" "digit_char d = nl"
  then have "(of_char (digit_char d) :: nat) = of_char nl" by simp
  then show False using \<open>d < 10\<close> by (simp add: of_char_digit)
qed

lemma show_nat_no_newline: "nl \<notin> set (show_nat n)"
proof (induction n rule: show_nat.induct)
  case (1 n)
  then show ?case
    using digit_char_not_nl [of n] digit_char_not_nl [of "n mod 10"] by (subst show_nat.simps) auto
qed

lemma digits_no_newline: "\<forall>d \<in> set ds. d < 10 \<Longrightarrow> nl \<notin> set (map digit_char ds)"
  using digit_char_not_nl by (induction ds) fastforce+

lemma pad4_no_newline: "nl \<notin> set (pad4 n)"
  unfolding pad4_def by (rule digits_no_newline) simp

lemma fmt_f4_no_newline: "nl \<notin> set (fmt_f4 x)"
  by (simp add: fmt_f4_def Let_def show_nat_no_newline pad4_no_newline)

lemma values_no_newline:
  "up_value r = Some v \<Longrightarrow> nl \<notin> set v" "tcp_value r = Some v \<Longrightarrow> nl \<notin> set v"
  "tls_value r = Some v \<Longrightarrow> nl \<notin> set v" "cert_value r = Some v \<Longrightarrow> nl \<notin> set v"
  "initiation_value r = Some v \<Longrightarrow> nl \<notin> set v"
  by (auto simp: up_value_def tcp_value_def tls_value_def cert_value_def initiation_value_def
      show_nat_no_newline fmt_f4_no_newline split: if_splits)

lemma sample_lines_no_newline:
  assumes "\<And>r v. val r = Some v \<Longrightarrow> nl \<notin> set v" "nl \<notin> set metric"
  shows "\<forall>l \<in> set (sample_lines metric val rs). nl \<notin> set l"
  using assms by (fastforce simp: sample_lines_def sample_line_def result_labels_def labels_no_newline)

lemma prom_lines_no_newline: "\<forall>l \<in> set (prom_lines rs). nl \<notin> set l"
  unfolding prom_lines_def set_append ball_Un
  by (intro conjI sample_lines_no_newline) (simp_all add: family_lines_def values_no_newline)

lemma text_lines_writeProm: "text_lines (writeProm rs) = prom_lines rs"
  by (simp add: writeProm_unlines text_lines_unlines prom_lines_no_newline)

text \<open>The samples of a metric in the text: the lines that carry its name before a brace.\<close>

definition line_metric :: "string \<Rightarrow> string" where
  "line_metric l = takeWhile (\<lambda>c. c \<noteq> CHR ''{'') l"

definition metric_lines :: "string \<Rightarrow> string \<Rightarrow> string list" where
  "metric_lines metric text' = filter (\<lambda>l. line_metric l = metric) (text_lines text')"

lemma line_metric_sample: "CHR ''{'' \<notin> set m \<Longrightarrow> line_metric (sample_line m val r) = m"
  by (simp add: line_metric_def sample_line_def takeWhile_append)

lemma filter_sample_lines:
  "CHR ''{'' \<notin> set m' \<Longrightarrow>
     filter (\<lambda>l. line_metric l = m) (sample_lines m' val rs) =
       (if m = m' then sample_lines m' val rs else [])"
  by (auto simp: sample_lines_def line_metric_sample filter_id_conv filter_empty_conv)

lemma filter_family_lines:
  assumes "hd m \<noteq> CHR ''#''"
  shows "filter (\<lambda>l. line_metric l = m) (family_lines m' t) = []"
  using assms by (auto simp: family_lines_def line_metric_def)

lemma metric_lines_writeProm:
  "metric_lines ''vpnnode_up'' (writeProm rs) = sample_lines ''vpnnode_up'' up_value rs"
  "metric_lines ''vpnnode_tcp_connect_seconds'' (writeProm rs) =
     sample_lines ''vpnnode_tcp_connect_seconds'' tcp_value rs"
  "metric_lines ''vpnnode_tls_handshake_seconds'' (writeProm rs) =
     sample_lines ''vpnnode_tls_handshake_seconds'' tls_value rs"
  "metric_lines ''vpnnode_cert_match'' (writeProm rs) = sample_lines ''vpnnode_cert_match'' cert_value rs"
  "metric_lines ''vpnnode_initiation_sent'' (writeProm rs) =
     sample_lines ''vpnnode_initiation_sent'' initiation_value rs"
  unfolding metric_lines_def text_lines_writeProm prom_lines_def filter_append
  by (simp_all add: filter_sample_lines filter_family_lines)

text \<open>Reading a sample line back gives the identity and the value of the result it came from.\<close>

definition read_sample :: "string \<Rightarrow> (string \<times> string \<times> string) option" where
  "read_sample l =
     (case read_labels (drop (Suc (length (line_metric l))) l) of
        None \<Rightarrow> None
      | Some (name, region, rest) \<Rightarrow> Some (name, region, drop 2 rest))"

lemma read_sample_line:
  assumes "CHR ''{'' \<notin> set m"
  shows "read_sample (sample_line m val r) =
    Some (t_Name (r_Target r), t_Region (r_Target r), the (val r))"
proof -
  have "drop (Suc (length m)) (sample_line m val r) = result_labels r @ ''} '' @ the (val r)"
    by (simp add: sample_line_def)
  then show ?thesis
    unfolding read_sample_def line_metric_sample [OF assms] by (simp add: result_labels_def read_labels_labels)
qed

lemma read_sample_lines:
  assumes "CHR ''{'' \<notin> set m"
  shows "map read_sample (sample_lines m val rs) =
    map (\<lambda>r. Some (t_Name (r_Target r), t_Region (r_Target r), the (val r))) (filter (\<lambda>r. val r \<noteq> None) rs)"
  by (simp add: sample_lines_def read_sample_line [OF assms])

text \<open>The timing metrics carry a sample for exactly the results that have the phase, with the
  duration in seconds to four decimals.\<close>

lemma timing_families:
  "map read_sample (metric_lines ''vpnnode_tcp_connect_seconds'' (writeProm rs)) =
     map (\<lambda>r. Some (t_Name (r_Target r), t_Region (r_Target r), fmt_f4 (the (r_TCPTime r))))
       (filter (\<lambda>r. r_TCPTime r \<noteq> None) rs) \<and>
   map read_sample (metric_lines ''vpnnode_tls_handshake_seconds'' (writeProm rs)) =
     map (\<lambda>r. Some (t_Name (r_Target r), t_Region (r_Target r), fmt_f4 (the (r_TLSTime r))))
       (filter (\<lambda>r. r_TLSTime r \<noteq> None) rs)"
  unfolding metric_lines_writeProm
  by (simp add: read_sample_lines) (auto simp: tcp_value_def tls_value_def)

subsection \<open>Scraping the whole text\<close>

text \<open>A scraper takes every line that is no comment for a sample: a metric, labels and a value.\<close>

definition scrape_prom :: "string \<Rightarrow> (string \<times> (string \<times> string \<times> string) option) list" where
  "scrape_prom text' =
     map (\<lambda>l. (line_metric l, read_sample l)) (filter (\<lambda>l. take 1 l \<noteq> ''#'') (text_lines text'))"

text \<open>What it should find: a value under the name and region of a result.\<close>

definition reading :: "string \<Rightarrow> result \<Rightarrow> string \<Rightarrow> string \<times> (string \<times> string \<times> string) option" where
  "reading metric r v = (metric, Some (t_Name (r_Target r), t_Region (r_Target r), v))"

lemma scrape_samples:
  assumes "CHR ''{'' \<notin> set m" "take 1 m \<noteq> ''#''" "m \<noteq> []"
  shows "map (\<lambda>l. (line_metric l, read_sample l)) (filter (\<lambda>l. take 1 l \<noteq> ''#'') (sample_lines m val rs)) =
    List.map_filter (\<lambda>r. map_option (reading m r) (val r)) rs"
proof -
  have "take 1 (sample_line m val r) \<noteq> ''#''" for r
    using assms(2,3) by (cases m) (simp_all add: sample_line_def)
  then have "filter (\<lambda>l. take 1 l \<noteq> ''#'') (sample_lines m val rs) = sample_lines m val rs"
    by (auto simp: sample_lines_def filter_id_conv)
  moreover have "(line_metric (sample_line m val r), read_sample (sample_line m val r)) = reading m r (the (val r))" for r
    by (simp add: line_metric_sample read_sample_line assms(1) reading_def)
  ultimately show ?thesis
    by (simp add: sample_lines_def map_filter_def comp_def) (simp add: option.map_sel)
qed

lemma scrape_writeProm:
  "scrape_prom (writeProm rs) =
     List.map_filter (\<lambda>r. map_option (reading ''vpnnode_up'' r) (up_value r)) rs @
     List.map_filter (\<lambda>r. map_option (reading ''vpnnode_tcp_connect_seconds'' r) (tcp_value r)) rs @
     List.map_filter (\<lambda>r. map_option (reading ''vpnnode_tls_handshake_seconds'' r) (tls_value r)) rs @
     List.map_filter (\<lambda>r. map_option (reading ''vpnnode_cert_match'' r) (cert_value r)) rs @
     List.map_filter (\<lambda>r. map_option (reading ''vpnnode_initiation_sent'' r) (initiation_value r)) rs"
  unfolding scrape_prom_def text_lines_writeProm prom_lines_def filter_append map_append
  by (simp add: scrape_samples [unfolded One_nat_def] family_lines_def)

end
