(* ===== verification/GoStrconv.thy ===== *)
theory GoStrconv
  imports GoNumber
begin

text \<open>
  How the flag package reads values: \<open>strconv.ParseBool\<close>, \<open>strconv.ParseInt\<close> with base 0 (prefixes
  and digit separators) and \<open>time.ParseDuration\<close> with its 64-bit overflow checks and its
  fractions in \<open>float64\<close>.
\<close>

subsection \<open>Booleans\<close>

definition parse_bool :: "string \<Rightarrow> bool option" where
  "parse_bool s =
     (if s \<in> {''1'', ''t'', ''T'', ''TRUE'', ''true'', ''True''} then Some True
      else if s \<in> {''0'', ''f'', ''F'', ''FALSE'', ''false'', ''False''} then Some False
      else None)"

subsection \<open>Integers\<close>

datatype num_err = Syntax_Err | Range_Err

definition lower_letter :: "char \<Rightarrow> char" where
  "lower_letter c = (let n = (of_char c :: nat) in if 65 \<le> n \<and> n < 91 then char_of (n + 32) else c)"

text \<open>A digit or letter as a digit; the caller compares it with the base.\<close>

definition any_digit :: "char \<Rightarrow> nat option" where
  "any_digit c =
     (let n = (of_char c :: nat)
      in if 48 \<le> n \<and> n < 58 then Some (n - 48)
         else if 97 \<le> n \<and> n < 123 then Some (n - 87)
         else if 65 \<le> n \<and> n < 91 then Some (n - 55)
         else None)"

fun uint_digits :: "nat \<Rightarrow> nat \<Rightarrow> string \<Rightarrow> num_err + nat" where
  "uint_digits base n [] = Inr n"
| "uint_digits base n (c # s) =
     (if c = CHR ''_'' then uint_digits base n s
      else (case any_digit c of
              None \<Rightarrow> Inl Syntax_Err
            | Some d \<Rightarrow>
                if base \<le> d then Inl Syntax_Err
                else if 2 ^ 64 \<le> n * base + d then Inl Range_Err
                else uint_digits base (n * base + d) s))"

definition base_prefix :: "string \<Rightarrow> nat \<times> string" where
  "base_prefix s =
     (case s of
        c0 # c1 # rest \<Rightarrow>
          if c0 \<noteq> CHR ''0'' then (10, s)
          else if rest \<noteq> [] \<and> lower_letter c1 = CHR ''b'' then (2, rest)
          else if rest \<noteq> [] \<and> lower_letter c1 = CHR ''o'' then (8, rest)
          else if rest \<noteq> [] \<and> lower_letter c1 = CHR ''x'' then (16, rest)
          else (8, c1 # rest)
      | [c0] \<Rightarrow> if c0 = CHR ''0'' then (8, []) else (10, s)
      | [] \<Rightarrow> (10, s))"

text \<open>\<open>underscoreOK\<close>: a separator stands between digits, a base prefix counting as one.\<close>

datatype seen = Beginning | Digit_Seen | Underscore_Seen | Other_Seen

fun underscores :: "bool \<Rightarrow> seen \<Rightarrow> string \<Rightarrow> bool" where
  "underscores hex saw [] = (saw \<noteq> Underscore_Seen)"
| "underscores hex saw (c # s) =
     (let n = (of_char c :: nat); l = (of_char (lower_letter c) :: nat)
      in if 48 \<le> n \<and> n < 58 \<or> hex \<and> 97 \<le> l \<and> l < 103 then underscores hex Digit_Seen s
         else if c = CHR ''_'' then saw = Digit_Seen \<and> underscores hex Underscore_Seen s
         else saw \<noteq> Underscore_Seen \<and> underscores hex Other_Seen s)"

definition underscore_ok :: "string \<Rightarrow> bool" where
  "underscore_ok s0 =
     (let s = (case s0 of c # r \<Rightarrow> if c = CHR ''-'' \<or> c = CHR ''+'' then r else s0 | [] \<Rightarrow> [])
      in (case s of
            c0 # c1 # rest \<Rightarrow>
              if c0 = CHR ''0'' \<and> lower_letter c1 \<in> {CHR ''b'', CHR ''o'', CHR ''x''}
              then underscores (lower_letter c1 = CHR ''x'') Digit_Seen rest
              else underscores False Beginning s
          | _ \<Rightarrow> underscores False Beginning s))"

definition parse_uint0 :: "string \<Rightarrow> num_err + nat" where
  "parse_uint0 s =
     (if s = [] then Inl Syntax_Err
      else (case base_prefix s of
              (base, digits) \<Rightarrow>
                (case uint_digits base 0 digits of
                   Inl e \<Rightarrow> Inl e
                 | Inr n \<Rightarrow> if CHR ''_'' \<in> set digits \<and> \<not> underscore_ok s then Inl Syntax_Err else Inr n)))"

definition split_sign :: "string \<Rightarrow> bool \<times> string" where
  "split_sign s =
     (case s of
        [] \<Rightarrow> (False, [])
      | c # r \<Rightarrow> if c = CHR ''+'' then (False, r) else if c = CHR ''-'' then (True, r) else (False, s))"

definition parse_int0 :: "string \<Rightarrow> num_err + int" where
  "parse_int0 s =
     (case split_sign s of
        (neg, digits) \<Rightarrow>
          (case parse_uint0 digits of
             Inl e \<Rightarrow> Inl e
           | Inr n \<Rightarrow>
               if \<not> neg \<and> 2 ^ 63 \<le> n then Inl Range_Err
               else if neg \<and> 2 ^ 63 < n then Inl Range_Err
               else Inr (if neg then - int n else int n)))"

subsection \<open>Durations\<close>

definition unit_of :: "string \<Rightarrow> nat option" where
  "unit_of u =
     (if u = ''ns'' then Some 1
      else if u = ''us'' \<or> u = [CHR 0xC2, CHR 0xB5, CHR ''s''] \<or> u = [CHR 0xCE, CHR 0xBC, CHR ''s''] then Some 1000
      else if u = ''ms'' then Some 1000000
      else if u = ''s'' then Some 1000000000
      else if u = ''m'' then Some 60000000000
      else if u = ''h'' then Some 3600000000000
      else None)"

text \<open>\<open>leadingInt\<close>: the digits in front, or an overflow.\<close>

fun leading_int :: "nat \<Rightarrow> string \<Rightarrow> (nat \<times> string) option" where
  "leading_int x [] = Some (x, [])"
| "leading_int x (c # s) =
     (case digit_val c of
        None \<Rightarrow> Some (x, c # s)
      | Some d \<Rightarrow>
          if 2 ^ 63 div 10 < x then None
          else if 2 ^ 63 < 10 * x + d then None
          else leading_int (10 * x + d) s)"

text \<open>\<open>leadingFraction\<close>: digits that do not fit any more are dropped.\<close>

fun leading_fraction :: "nat \<Rightarrow> nat \<Rightarrow> bool \<Rightarrow> string \<Rightarrow> nat \<times> nat \<times> string" where
  "leading_fraction x scale overflow [] = (x, scale, [])"
| "leading_fraction x scale overflow (c # s) =
     (case digit_val c of
        None \<Rightarrow> (x, scale, c # s)
      | Some d \<Rightarrow>
          if overflow \<or> (2 ^ 63 - 1) div 10 < x \<or> 2 ^ 63 < 10 * x + d then leading_fraction x scale True s
          else leading_fraction (10 * x + d) (10 * scale) False s)"

text \<open>
  One number and its unit; \<open>None\<close> is an error. The fraction is multiplied in \<open>float64\<close> and
  truncated.
\<close>

definition unit_char :: "char \<Rightarrow> bool" where
  "unit_char c \<longleftrightarrow> c \<noteq> CHR ''.'' \<and> digit_val c = None"

definition duration_part :: "string \<Rightarrow> (nat \<times> string) option" where
  "duration_part s =
     (case s of
        [] \<Rightarrow> None
      | c # _ \<Rightarrow>
          if unit_char c then None
          else (case leading_int 0 s of
                  None \<Rightarrow> None
                | Some (v, s1) \<Rightarrow>
                    (let pre = (length s1 \<noteq> length s);
                         (f, scale, s2) =
                           (if s1 \<noteq> [] \<and> hd s1 = CHR ''.'' then leading_fraction 0 1 False (tl s1)
                            else (0, 1, s1));
                         post = (s1 \<noteq> [] \<and> hd s1 = CHR ''.'' \<and> length s2 \<noteq> length (tl s1));
                         u = takeWhile unit_char s2
                     in if \<not> pre \<and> \<not> post then None
                        else if u = [] then None
                        else (case unit_of u of
                                None \<Rightarrow> None
                              | Some unit \<Rightarrow>
                                  if 2 ^ 63 div unit < v then None
                                  else
                                    (let w = v * unit +
                                           (if 0 < f
                                            then nat \<lfloor>fl (fl (of_nat f) * fl (of_nat unit / of_nat scale))\<rfloor>
                                            else 0)
                                     in if 0 < f \<and> 2 ^ 63 < w then None
                                        else Some (w, drop (length u) s2))))))"

lemma leading_int_length: "leading_int x s = Some (v, s1) \<Longrightarrow> length s1 \<le> length s"
  by (induction x s rule: leading_int.induct) (auto split: option.splits if_splits)

lemma leading_fraction_length: "leading_fraction x sc ov s = (f, sc', s2) \<Longrightarrow> length s2 \<le> length s"
  by (induction x sc ov s rule: leading_fraction.induct) (auto split: option.splits if_splits)

lemma duration_part_shorter:
  assumes "duration_part s = Some (w, rest)"
  shows "length rest < length s"
proof -
  obtain v s1 where i: "leading_int 0 s = Some (v, s1)"
    using assms by (auto simp: duration_part_def split: list.splits if_splits option.splits)
  obtain f scale s2 where fr: "(if s1 \<noteq> [] \<and> hd s1 = CHR ''.'' then leading_fraction 0 1 False (tl s1)
      else (0, 1, s1)) = (f, scale, s2)" by (metis prod_cases3)
  have "length s2 \<le> length s1"
    using fr leading_fraction_length [of 0 1 False "tl s1"] by (cases s1) (auto split: if_splits)
  then have "length s2 \<le> length s" using leading_int_length [OF i] by linarith
  moreover have "rest = drop (length (takeWhile unit_char s2)) s2" "takeWhile unit_char s2 \<noteq> []"
    using assms i fr by (auto simp: duration_part_def Let_def split: list.splits if_splits option.splits prod.splits)
  ultimately show ?thesis
    using length_takeWhile_le [of unit_char s2] by (cases s2) (auto split: if_splits)
qed

function duration_parts :: "nat \<Rightarrow> string \<Rightarrow> nat option" where
  "duration_parts d s =
     (if s = [] then Some d
      else (case duration_part s of
              None \<Rightarrow> None
            | Some (w, rest) \<Rightarrow>
                (let d' = (d + w) mod 2 ^ 64 in if 2 ^ 63 < d' then None else duration_parts d' rest)))"
  by pat_completeness auto
termination
  by (relation "measure (\<lambda>(d, s). length s)") (auto dest: duration_part_shorter)

declare duration_parts.simps [simp del]

text \<open>The sum is a \<open>uint64\<close>: two parts of 2^63 ns each wrap around to nothing.\<close>

definition parse_duration :: "string \<Rightarrow> duration option" where
  "parse_duration orig =
     (case split_sign orig of
        (neg, s) \<Rightarrow>
          if s = ''0'' then Some 0
          else if s = [] then None
          else (case duration_parts 0 s of
                  None \<Rightarrow> None
                | Some d \<Rightarrow>
                    if neg then Some (- int d)
                    else if 2 ^ 63 - 1 < d then None
                    else Some (int d)))"

subsection \<open>Printed values are read back\<close>

lemma any_digit_char: "d < 10 \<Longrightarrow> any_digit (digit_char d) = Some d"
  by (simp add: any_digit_def of_char_digit)

lemma digit_not_underscore: "d < 10 \<Longrightarrow> digit_char d \<noteq> CHR ''_''"
proof
  assume "d < 10" "digit_char d = CHR ''_''"
  then have "(of_char (digit_char d) :: nat) = of_char (CHR ''_'')" by simp
  then show False using \<open>d < 10\<close> by (simp add: of_char_digit)
qed

lemma uint_digits_append:
  "uint_digits base n (xs @ ys) =
     (case uint_digits base n xs of Inl e \<Rightarrow> Inl e | Inr m \<Rightarrow> uint_digits base m ys)"
  by (induction base n xs rule: uint_digits.induct) (auto split: option.split)

lemma uint_show_nat: "n < 2 ^ 64 \<Longrightarrow> uint_digits 10 0 (show_nat n) = Inr n"
proof (induction n rule: show_nat.induct)
  case (1 n)
  show ?case
  proof (cases "n < 10")
    case True
    then show ?thesis
      by (subst show_nat.simps) (simp add: any_digit_char digit_not_underscore)
  next
    case False
    have "uint_digits 10 0 (show_nat (n div 10)) = Inr (n div 10)" using 1 False by simp
    moreover have "n div 10 * 10 + n mod 10 = n" by simp
    ultimately show ?thesis using 1(2) False
      by (subst show_nat.simps) (simp add: uint_digits_append any_digit_char digit_not_underscore)
  qed
qed

lemma show_nat_no_underscore: "CHR ''_'' \<notin> set (show_nat n)"
proof (induction n rule: show_nat.induct)
  case (1 n)
  then show ?case
    using digit_not_underscore [of n] digit_not_underscore [of "n mod 10"] by (subst show_nat.simps) auto
qed

lemma base_prefix_show: "base_prefix (show_nat n) = (if n = 0 then (8, []) else (10, show_nat n))"
proof (cases "n = 0")
  case True
  then show ?thesis by (simp add: base_prefix_def show_nat.simps digit_chars)
next
  case False
  then show ?thesis using show_nat_hd [of n] by (auto simp: base_prefix_def split: list.splits)
qed

lemma parse_uint_show: "n < 2 ^ 64 \<Longrightarrow> parse_uint0 (show_nat n) = Inr n"
  by (simp add: parse_uint0_def base_prefix_show uint_show_nat show_nat_no_underscore)

lemma show_nat_hd_plus: "hd (show_nat n) \<noteq> CHR ''+''"
proof (induction n rule: show_nat.induct)
  case (1 n)
  have "(of_char (digit_char n) :: nat) \<noteq> of_char CHR ''+''" if "n < 10"
    using that by (simp add: of_char_digit)
  with 1 show ?case by (subst show_nat.simps) auto
qed

lemma split_sign_show: "split_sign (show_nat n @ s) = (False, show_nat n @ s)"
  using show_nat_hd_plus [of n] show_nat_hd_digit [of n] by (cases "show_nat n") (auto simp: split_sign_def)

lemma parse_int0_show:
  assumes "- (2 ^ 63) \<le> i" "i < 2 ^ 63"
  shows "parse_int0 (show_int i) = Inr i"
proof (cases "i < 0")
  case True
  then show ?thesis using assms
    by (simp add: parse_int0_def show_int_def split_sign_def parse_uint_show)
next
  case False
  then show ?thesis using assms split_sign_show [of "nat i" "[]"]
    by (simp add: parse_int0_def show_int_def parse_uint_show)
qed

text \<open>A duration written in nanoseconds.\<close>

lemma leading_int_append:
  "leading_int x (xs @ ys) =
     (case leading_int x xs of
        None \<Rightarrow> None
      | Some (v, rest) \<Rightarrow> if rest = [] then leading_int v ys else Some (v, rest @ ys))"
  by (induction x xs rule: leading_int.induct) (auto split: option.split)

lemma leading_int_show: "n \<le> 2 ^ 63 \<Longrightarrow> leading_int 0 (show_nat n) = Some (n, [])"
proof (induction n rule: show_nat.induct)
  case (1 n)
  show ?case
  proof (cases "n < 10")
    case True
    then show ?thesis by (subst show_nat.simps) (simp add: digit_val_digit_char)
  next
    case False
    have "leading_int 0 (show_nat (n div 10)) = Some (n div 10, [])" using 1 False by simp
    moreover have "10 * (n div 10) + n mod 10 = n" by simp
    ultimately show ?thesis using 1(2) False
      by (subst show_nat.simps) (simp add: leading_int_append digit_val_digit_char div_le_mono)
  qed
qed

definition show_nanoseconds :: "duration \<Rightarrow> string" where
  "show_nanoseconds d = show_int d @ ''ns''"

lemma duration_part_show:
  assumes "n \<le> 2 ^ 63"
  shows "duration_part (show_nat n @ ''ns'') = Some (n, [])"
proof -
  have n: "digit_val CHR ''n'' = None" "digit_val CHR ''s'' = None" by (simp_all add: digit_val_def)
  have i: "leading_int 0 (show_nat n @ ''ns'') = Some (n, ''ns'')"
    using leading_int_show [OF assms] by (simp add: leading_int_append n)
  have hd: "\<not> unit_char (hd (show_nat n @ ''ns''))"
    using list.set_sel(1) [OF show_nat_nonempty [of n]] show_nat_digits [of n]
    by (auto simp: unit_char_def list_all_iff is_digit_def digit_val_def)
  have len: "length (show_nat n @ ''ns'') \<noteq> 2" by simp
  obtain c r where s: "show_nat n @ ''ns'' = c # r" by (cases "show_nat n") simp_all
  have "\<not> unit_char c" "leading_int 0 (c # r) = Some (n, ''ns'')" "length r \<noteq> 1"
    using hd i len unfolding s by simp_all
  moreover have "unit_char CHR ''n''" "unit_char CHR ''s''" by (simp_all add: unit_char_def n)
  ultimately show ?thesis using assms
    unfolding s duration_part_def list.case by (simp add: unit_of_def)
qed

lemma parse_duration_show:
  assumes "- (2 ^ 63) \<le> d" "d < 2 ^ 63"
  shows "parse_duration (show_nanoseconds d) = Some d"
proof -
  have parts: "duration_parts 0 (show_nat n @ ''ns'') = Some n" if "n \<le> 2 ^ 63" for n
  proof -
    have "n mod 2 ^ 64 = n" using that by simp
    then show ?thesis using that
      by (subst duration_parts.simps) (simp add: duration_part_show Let_def, subst duration_parts.simps, simp)
  qed
  have zero: "show_nat n @ ''ns'' \<noteq> ''0''" for n
    by (auto dest: arg_cong [where f = length])
  show ?thesis
  proof (cases "d < 0")
    case True
    then have "nat (- d) \<le> 2 ^ 63" using assms by simp
    then show ?thesis using True zero
      by (simp add: parse_duration_def show_nanoseconds_def show_int_def split_sign_def parts)
  next
    case False
    then have "nat d \<le> 2 ^ 63 - 1" using assms by simp
    then show ?thesis using False zero split_sign_show [of "nat d" "''ns''"]
      by (simp add: parse_duration_def show_nanoseconds_def show_int_def parts)
  qed
qed

end
