(* ===== verification/Flags.thy ===== *)
theory Flags
  imports GoStrconv
begin

text \<open>
  The command line of \<open>nodecheck\<close>: the flags \<open>main\<close> defines, and \<open>flag.Parse\<close> on them as the
  package's \<open>parseOne\<close> goes about it: one or two dashes, a value after \<open>=\<close> or in the next
  argument, boolean flags without one, \<open>--\<close> or the first other argument as the end.
\<close>

record options =
  op_targets :: string
  op_timeout :: duration
  op_conc :: int
  op_format :: string
  op_version :: bool
  op_pushURL :: string
  op_pushTimeout :: duration
  op_pushSource :: string

definition default_options :: options where
  "default_options =
     \<lparr>op_targets = ''targets.json'', op_timeout = 5 * 1000000000, op_conc = 32, op_format = ''json'',
      op_version = False, op_pushURL = [], op_pushTimeout = 10 * 1000000000, op_pushSource = []\<rparr>"

datatype setter =
    String_Flag "string \<Rightarrow> options \<Rightarrow> options"
  | Duration_Flag "duration \<Rightarrow> options \<Rightarrow> options"
  | Int_Flag "int \<Rightarrow> options \<Rightarrow> options"
  | Bool_Flag "bool \<Rightarrow> options \<Rightarrow> options"

definition formal_flags :: "(string \<times> setter) list" where
  "formal_flags =
     [(''targets'', String_Flag (\<lambda>v opts. opts\<lparr>op_targets := v\<rparr>)),
      (''timeout'', Duration_Flag (\<lambda>v opts. opts\<lparr>op_timeout := v\<rparr>)),
      (''concurrency'', Int_Flag (\<lambda>v opts. opts\<lparr>op_conc := v\<rparr>)),
      (''format'', String_Flag (\<lambda>v opts. opts\<lparr>op_format := v\<rparr>)),
      (''version'', Bool_Flag (\<lambda>v opts. opts\<lparr>op_version := v\<rparr>)),
      (''push-url'', String_Flag (\<lambda>v opts. opts\<lparr>op_pushURL := v\<rparr>)),
      (''push-timeout'', Duration_Flag (\<lambda>v opts. opts\<lparr>op_pushTimeout := v\<rparr>)),
      (''push-source'', String_Flag (\<lambda>v opts. opts\<lparr>op_pushSource := v\<rparr>))]"

datatype flag_err =
    Help_Wanted
  | Bad_Syntax string
  | Undefined_Flag string
  | Needs_Argument string
  | Invalid_Bool string string
  | Invalid_Value string string num_err

text \<open>\<open>Value.Set\<close> of the four kinds.\<close>

definition set_flag :: "setter \<Rightarrow> string \<Rightarrow> options \<Rightarrow> num_err + options" where
  "set_flag st v opts =
     (case st of
        String_Flag f \<Rightarrow> Inr (f v opts)
      | Duration_Flag f \<Rightarrow>
          (case parse_duration v of None \<Rightarrow> Inl Syntax_Err | Some d \<Rightarrow> Inr (f d opts))
      | Int_Flag f \<Rightarrow> (case parse_int0 v of Inl e \<Rightarrow> Inl e | Inr i \<Rightarrow> Inr (f i opts))
      | Bool_Flag f \<Rightarrow> (case parse_bool v of None \<Rightarrow> Inl Syntax_Err | Some b \<Rightarrow> Inr (f b opts)))"

definition is_bool_flag :: "setter \<Rightarrow> bool" where
  "is_bool_flag st = (case st of Bool_Flag f \<Rightarrow> True | _ \<Rightarrow> False)"

text \<open>What one argument is: the end of the flags, an error, or a flag with perhaps a value.\<close>

datatype flag_arg = Not_A_Flag | End_Of_Flags | Malformed | Flag string "string option"

definition flag_arg_of :: "string \<Rightarrow> flag_arg" where
  "flag_arg_of s =
     (if length s < 2 \<or> hd s \<noteq> CHR ''-'' then Not_A_Flag
      else if s = ''--'' then End_Of_Flags
      else
        (let body = (if s ! 1 = CHR ''-'' then drop 2 s else drop 1 s);
             name = takeWhile (\<lambda>c. c \<noteq> CHR ''='') body
         in if body = [] \<or> hd body = CHR ''-'' \<or> hd body = CHR ''='' then Malformed
            else Flag name (if name = body then None else Some (drop (length name + 1) body))))"

fun parse_flags :: "options \<Rightarrow> string list \<Rightarrow> flag_err + (options \<times> string list)" where
  "parse_flags opts [] = Inr (opts, [])"
| "parse_flags opts (s # args) =
     (case flag_arg_of s of
        Not_A_Flag \<Rightarrow> Inr (opts, s # args)
      | End_Of_Flags \<Rightarrow> Inr (opts, args)
      | Malformed \<Rightarrow> Inl (Bad_Syntax s)
      | Flag name value \<Rightarrow>
          (case map_of formal_flags name of
             None \<Rightarrow>
               if name = ''help'' \<or> name = ''h'' then Inl Help_Wanted else Inl (Undefined_Flag name)
           | Some st \<Rightarrow>
               if is_bool_flag st then
                 (case set_flag st (case value of None \<Rightarrow> ''true'' | Some v \<Rightarrow> v) opts of
                    Inl e \<Rightarrow> Inl (Invalid_Bool (case value of None \<Rightarrow> [] | Some v \<Rightarrow> v) name)
                  | Inr opts1 \<Rightarrow> parse_flags opts1 args)
               else
                 (case value of
                    Some v \<Rightarrow>
                      (case set_flag st v opts of
                         Inl e \<Rightarrow> Inl (Invalid_Value v name e)
                       | Inr opts1 \<Rightarrow> parse_flags opts1 args)
                  | None \<Rightarrow>
                      (case args of
                         [] \<Rightarrow> Inl (Needs_Argument name)
                       | v # args1 \<Rightarrow>
                           (case set_flag st v opts of
                              Inl e \<Rightarrow> Inl (Invalid_Value v name e)
                            | Inr opts1 \<Rightarrow> parse_flags opts1 args1)))))"

definition num_err_text :: "num_err \<Rightarrow> string" where
  "num_err_text e = (case e of Syntax_Err \<Rightarrow> ''parse error'' | Range_Err \<Rightarrow> ''value out of range'')"

text \<open>\<open>quoted\<close> is \<open>%q\<close>.\<close>

definition flag_err_text :: "(string \<Rightarrow> string) \<Rightarrow> flag_err \<Rightarrow> string" where
  "flag_err_text quoted e =
     (case e of
        Help_Wanted \<Rightarrow> ''flag: help requested''
      | Bad_Syntax s \<Rightarrow> ''bad flag syntax: '' @ s
      | Undefined_Flag name \<Rightarrow> ''flag provided but not defined: -'' @ name
      | Needs_Argument name \<Rightarrow> ''flag needs an argument: -'' @ name
      | Invalid_Bool v name \<Rightarrow>
          ''invalid boolean value '' @ quoted v @ '' for -'' @ name @ '': parse error''
      | Invalid_Value v name err \<Rightarrow>
          ''invalid value '' @ quoted v @ '' for flag -'' @ name @ '': '' @ num_err_text err)"

subsection \<open>Ways to write a flag\<close>

lemma flag_arg_value:
  assumes "name \<noteq> []" "CHR ''='' \<notin> set name" "hd name \<noteq> CHR ''-''"
  shows "flag_arg_of (CHR ''-'' # name @ CHR ''='' # v) = Flag name (Some v)"
    and "flag_arg_of (CHR ''-'' # CHR ''-'' # name @ CHR ''='' # v) = Flag name (Some v)"
    and "flag_arg_of (CHR ''-'' # name) = Flag name None"
    and "flag_arg_of (CHR ''-'' # CHR ''-'' # name) = Flag name None"
proof -
  obtain c r where name: "name = c # r" using assms(1) by (cases name) auto
  have tw: "takeWhile (\<lambda>c. c \<noteq> CHR ''='') (name @ CHR ''='' # v) = name"
    "takeWhile (\<lambda>c. c \<noteq> CHR ''='') name = name"
    using assms(2) by (induction name) auto
  show "flag_arg_of (CHR ''-'' # name @ CHR ''='' # v) = Flag name (Some v)"
    "flag_arg_of (CHR ''-'' # CHR ''-'' # name @ CHR ''='' # v) = Flag name (Some v)"
    "flag_arg_of (CHR ''-'' # name) = Flag name None"
    "flag_arg_of (CHR ''-'' # CHR ''-'' # name) = Flag name None"
    using tw assms(2,3) by (auto simp: flag_arg_of_def name Let_def)
qed

lemma formal_names: "map_of formal_flags name = Some st \<Longrightarrow> name \<noteq> [] \<and> CHR ''='' \<notin> set name \<and> hd name \<noteq> CHR ''-''"
  by (auto simp: formal_flags_def split: if_splits)

text \<open>
  A flag with its value after \<open>=\<close> or, unless it is boolean, in the next argument, with one dash or
  two: all mean the same.
\<close>

lemma flag_forms:
  assumes "map_of formal_flags name = Some st"
  shows "parse_flags opts ((CHR ''-'' # CHR ''-'' # name @ CHR ''='' # v) # args) =
      parse_flags opts ((CHR ''-'' # name @ CHR ''='' # v) # args)"
    and "\<not> is_bool_flag st \<Longrightarrow> parse_flags opts ((CHR ''-'' # name) # v # args) =
      parse_flags opts ((CHR ''-'' # name @ CHR ''='' # v) # args)"
    and "\<not> is_bool_flag st \<Longrightarrow> parse_flags opts ((CHR ''-'' # CHR ''-'' # name) # v # args) =
      parse_flags opts ((CHR ''-'' # name @ CHR ''='' # v) # args)"
  using flag_arg_value [where name = name] formal_names [OF assms] assms by simp_all

lemma parse_flag_value:
  assumes "map_of formal_flags name = Some st" "set_flag st v opts = Inr opts1"
  shows "parse_flags opts ((CHR ''-'' # name @ CHR ''='' # v) # args) = parse_flags opts1 args"
  using flag_arg_value(1) [of name v] formal_names [OF assms(1)] assms by simp

subsection \<open>Options written as arguments are read back\<close>

definition args_of :: "options \<Rightarrow> string list" where
  "args_of opts =
     [''-targets='' @ op_targets opts,
      ''-timeout='' @ show_nanoseconds (op_timeout opts),
      ''-concurrency='' @ show_int (op_conc opts),
      ''-format='' @ op_format opts,
      ''-version='' @ (if op_version opts then ''true'' else ''false''),
      ''-push-url='' @ op_pushURL opts,
      ''-push-timeout='' @ show_nanoseconds (op_pushTimeout opts),
      ''-push-source='' @ op_pushSource opts]"

definition int64 :: "int \<Rightarrow> bool" where
  "int64 i \<longleftrightarrow> - (2 ^ 63) \<le> i \<and> i < 2 ^ 63"

lemma flag_steps:
  "parse_flags opts ((''-targets='' @ v) # args) = parse_flags (opts\<lparr>op_targets := v\<rparr>) args"
  "parse_flags opts ((''-format='' @ v) # args) = parse_flags (opts\<lparr>op_format := v\<rparr>) args"
  "parse_flags opts ((''-push-url='' @ v) # args) = parse_flags (opts\<lparr>op_pushURL := v\<rparr>) args"
  "parse_flags opts ((''-push-source='' @ v) # args) = parse_flags (opts\<lparr>op_pushSource := v\<rparr>) args"
  "parse_duration v = Some d \<Longrightarrow>
     parse_flags opts ((''-timeout='' @ v) # args) = parse_flags (opts\<lparr>op_timeout := d\<rparr>) args"
  "parse_duration v = Some d \<Longrightarrow>
     parse_flags opts ((''-push-timeout='' @ v) # args) = parse_flags (opts\<lparr>op_pushTimeout := d\<rparr>) args"
  "parse_int0 v = Inr i \<Longrightarrow>
     parse_flags opts ((''-concurrency='' @ v) # args) = parse_flags (opts\<lparr>op_conc := i\<rparr>) args"
  "parse_bool v = Some b \<Longrightarrow>
     parse_flags opts ((''-version='' @ v) # args) = parse_flags (opts\<lparr>op_version := b\<rparr>) args"
  using parse_flag_value [of "''targets''" _ v opts _ args] parse_flag_value [of "''format''" _ v opts _ args]
    parse_flag_value [of "''push-url''" _ v opts _ args] parse_flag_value [of "''push-source''" _ v opts _ args]
    parse_flag_value [of "''timeout''" _ v opts _ args] parse_flag_value [of "''push-timeout''" _ v opts _ args]
    parse_flag_value [of "''concurrency''" _ v opts _ args] parse_flag_value [of "''version''" _ v opts _ args]
  by (simp_all add: formal_flags_def set_flag_def del: parse_flags.simps)

lemma parse_args_of:
  assumes "int64 (op_timeout opts)" "int64 (op_conc opts)" "int64 (op_pushTimeout opts)"
  shows "parse_flags any (args_of opts @ args) = parse_flags opts args"
proof -
  have d: "parse_duration (show_nanoseconds (op_timeout opts)) = Some (op_timeout opts)"
    "parse_duration (show_nanoseconds (op_pushTimeout opts)) = Some (op_pushTimeout opts)"
    "parse_int0 (show_int (op_conc opts)) = Inr (op_conc opts)"
    "parse_bool (if op_version opts then ''true'' else ''false'') = Some (op_version opts)"
    using assms parse_duration_show parse_int0_show by (simp_all add: int64_def parse_bool_def)
  have split: "args_of opts @ args = a # b # c # e # f # g # h # i # args"
    if "args_of opts = [a, b, c, e, f, g, h, i]" for a b c e f g h i
    using that by simp
  have "any\<lparr>op_targets := op_targets opts, op_timeout := op_timeout opts, op_conc := op_conc opts,
      op_format := op_format opts, op_version := op_version opts, op_pushURL := op_pushURL opts,
      op_pushTimeout := op_pushTimeout opts, op_pushSource := op_pushSource opts\<rparr> = opts"
    by (rule options.equality) simp_all
  then show ?thesis
    by (simp only: split [OF args_of_def] flag_steps(1-4) flag_steps(5,6) [OF d(1)] flag_steps(5,6) [OF d(2)]
        flag_steps(7) [OF d(3)] flag_steps(8) [OF d(4)])
qed

end
