(* ===== verification/MainCmd.thy ===== *)
theory MainCmd
  imports LoadTargets RunAll Prom Report Push Flags
begin

text \<open>
  \<open>main\<close> (main.go): flags, load, probe, sort, print, push, exit. The value is what the process
  leaves: exit code, standard output and standard error.

  \<open>sort.Slice\<close> is not stable and the order of equal names is unspecified, so it is an argument,
  as are the version the linker sets, the usage text of the flag package, and the list that
  \<open>runAll\<close> returns; writing to standard output succeeds.
\<close>

record environment =
  ev_version :: string
  ev_usage :: string
  ev_world :: world
  ev_file :: "string \<Rightarrow> file_answer"
  ev_sort :: "(result \<Rightarrow> result \<Rightarrow> bool) \<Rightarrow> result list \<Rightarrow> result list"
  ev_hostname :: "string + string"
  ev_push :: "duration \<Rightarrow> push_world"

record process =
  exit_code :: nat
  stdout :: string
  stderr :: string

definition by_name :: "result \<Rightarrow> result \<Rightarrow> bool" where
  "by_name r s \<longleftrightarrow> t_Name (r_Target r) < t_Name (r_Target s)"

definition push_source :: "environment \<Rightarrow> options \<Rightarrow> string" where
  "push_source E opts =
     (if op_pushSource opts \<noteq> [] then op_pushSource opts
      else ''nodecheck@'' @
        (case ev_hostname E of
           Inl e \<Rightarrow> ''unknown''
         | Inr host \<Rightarrow> if host = [] then ''unknown'' else host))"

text \<open>The push, if one was asked for: an error text, or success. \<open>None\<close> is a panic.\<close>

definition push_step ::
  "environment \<Rightarrow> options \<Rightarrow> instant \<Rightarrow> result list \<Rightarrow> trace \<Rightarrow> string option option" where
  "push_step E opts startedAt results h =
     (if op_pushURL opts = [] then Some None
      else (case newUUIDv4 (ev_world E) h of
              (Inl e, h1) \<Rightarrow> Some (Some e)
            | (Inr runID, h1) \<Rightarrow>
                (case buildPayload runID (push_source E opts) startedAt results of
                   None \<Rightarrow> None
                 | Some payload \<Rightarrow>
                     Some (map_option push_error_text
                       (fst (pushResults (ev_push E (op_pushTimeout opts)) (op_pushURL opts)
                          (w_getenv (ev_world E) ''NODECHECK_PUSH_TOKEN'') payload []))))))"

definition render :: "environment \<Rightarrow> options \<Rightarrow> result list \<Rightarrow> process + string" where
  "render E opts results =
     (if op_format opts = ''prom'' then Inr (writeProm results)
      else if op_format opts = ''json'' then
        (case encodeResults results of
           Inl e \<Rightarrow> Inl \<lparr>exit_code = 1, stdout = [], stderr = ''output error: '' @ e @ [nl]\<rparr>
         | Inr text' \<Rightarrow> Inr text')
      else Inl \<lparr>exit_code = 2, stdout = [], stderr = ''unknown format: '' @ op_format opts @ [nl]\<rparr>)"

text \<open>What follows \<open>runAll\<close>, whose result list is an argument.\<close>

definition finish_main ::
  "environment \<Rightarrow> options \<Rightarrow> instant \<Rightarrow> result list \<Rightarrow> trace \<Rightarrow> process option" where
  "finish_main E opts startedAt raw h =
     (let results = ev_sort E by_name raw
      in (case render E opts results of
            Inl p \<Rightarrow> Some p
          | Inr text' \<Rightarrow>
              (case push_step E opts startedAt results h of
                 None \<Rightarrow> None
               | Some (Some e) \<Rightarrow>
                   Some \<lparr>exit_code = 3, stdout = text', stderr = ''push error: '' @ e @ [nl]\<rparr>
               | Some None \<Rightarrow>
                   Some \<lparr>exit_code = (if \<exists>r \<in> set results. \<not> r_OK r then 1 else 0),
                         stdout = text', stderr = []\<rparr>)))"

definition main_cmd ::
  "environment \<Rightarrow> options \<Rightarrow> (target list \<Rightarrow> duration \<Rightarrow> int \<Rightarrow> result list) \<Rightarrow>
     process option" where
  "main_cmd E opts run_all =
     (if op_version opts then
        Some \<lparr>exit_code = 0, stdout = ''nodecheck '' @ ev_version E @ [nl], stderr = []\<rparr>
      else (case loadTargets (ev_world E) (op_targets opts) (ev_file E (op_targets opts)) [] of
              (Inl e, h) \<Rightarrow>
                Some \<lparr>exit_code = 1, stdout = [],
                      stderr = ''error: '' @ load_err_text (ev_world E) e @ [nl]\<rparr>
            | (Inr targets, h) \<Rightarrow>
                (case sys_now (ev_world E) h of
                   (startedAt, h1) \<Rightarrow>
                     finish_main E opts startedAt (run_all targets (op_timeout opts) (op_conc opts)) h1)))"

text \<open>The whole process: \<open>flag.Parse\<close> exits on its own errors, after printing them and the usage.\<close>

definition nodecheck ::
  "environment \<Rightarrow> string list \<Rightarrow> (target list \<Rightarrow> duration \<Rightarrow> int \<Rightarrow> result list) \<Rightarrow>
     process option" where
  "nodecheck E args run_all =
     (case parse_flags default_options args of
        Inl e \<Rightarrow>
          Some (if e = Help_Wanted then \<lparr>exit_code = 0, stdout = [], stderr = ev_usage E\<rparr>
                else \<lparr>exit_code = 2, stdout = [],
                      stderr = flag_err_text (lib_quote (w_lib (ev_world E))) e @ [nl] @ ev_usage E\<rparr>)
      | Inr (opts, rest) \<Rightarrow> main_cmd E opts run_all)"

lemma push_step_total: "\<exists>e. push_step E opts startedAt results h = Some e"
  by (auto simp: push_step_def buildPayload_def push_results_eq split: prod.split sum.split)

lemma finish_main_total: "\<exists>p. finish_main E opts startedAt results h = Some p"
proof -
  obtain e where "push_step E opts startedAt (ev_sort E by_name results) h = Some e"
    using push_step_total by blast
  then show ?thesis by (cases e) (auto simp: finish_main_def Let_def split: sum.split)
qed

lemma main_cmd_total: "\<exists>p. main_cmd E opts run_all = Some p"
  using finish_main_total by (auto simp: main_cmd_def split: prod.split sum.split)

text \<open>Each exit code has its reason.\<close>

definition printable :: "environment \<Rightarrow> options \<Rightarrow> result list \<Rightarrow> bool" where
  "printable E opts results \<longleftrightarrow>
     op_format opts = ''prom'' \<or>
     op_format opts = ''json'' \<and> (case encodeResults results of Inl _ \<Rightarrow> False | Inr _ \<Rightarrow> True)"

lemma finish_main_code:
  assumes "finish_main E opts startedAt raw h = Some p"
  shows "exit_code p =
    (if op_format opts \<noteq> ''prom'' \<and> op_format opts \<noteq> ''json'' then 2
     else if \<not> printable E opts (ev_sort E by_name raw) then 1
     else if push_step E opts startedAt (ev_sort E by_name raw) h \<noteq> Some None then 3
     else if \<exists>r \<in> set (ev_sort E by_name raw). \<not> r_OK r then 1 else 0)"
  using assms
  by (auto simp: finish_main_def render_def printable_def Let_def split: sum.splits option.splits if_splits)

text \<open>From \<open>main\<close> to what \<open>runAll\<close> returned: without a push, what is printed and the exit code.\<close>

lemma main_cmd_json:
  assumes "\<not> op_version opts" "op_format opts = ''json''" "op_pushURL opts = []"
    and "loadTargets (ev_world E) (op_targets opts) (ev_file E (op_targets opts)) [] = (Inr ts, h)"
    and "encodeResults (ev_sort E by_name (run_all ts (op_timeout opts) (op_conc opts))) = Inr text'"
  shows "main_cmd E opts run_all =
    Some \<lparr>exit_code = (if list_all r_OK (ev_sort E by_name (run_all ts (op_timeout opts) (op_conc opts)))
                        then 0 else 1), stdout = text', stderr = []\<rparr>"
proof -
  obtain startedAt h1 where "sys_now (ev_world E) h = (startedAt, h1)" by fastforce
  then show ?thesis
    using assms by (auto simp: main_cmd_def finish_main_def render_def push_step_def list_all_iff Let_def)
qed

lemma main_cmd_code:
  "\<exists>p. main_cmd E opts run_all = Some p \<and>
     exit_code p =
       (if op_version opts then 0
        else case loadTargets (ev_world E) (op_targets opts) (ev_file E (op_targets opts)) [] of
          (Inl e, h) \<Rightarrow> 1
        | (Inr ts, h) \<Rightarrow>
            let results = ev_sort E by_name (run_all ts (op_timeout opts) (op_conc opts));
                (startedAt, h1) = sys_now (ev_world E) h
            in if op_format opts \<noteq> ''prom'' \<and> op_format opts \<noteq> ''json'' then 2
               else if \<not> printable E opts results then 1
               else if push_step E opts startedAt results h1 \<noteq> Some None then 3
               else if list_all r_OK results then 0 else 1)"
proof -
  obtain p where p: "main_cmd E opts run_all = Some p" using main_cmd_total by blast
  obtain r h where load: "loadTargets (ev_world E) (op_targets opts) (ev_file E (op_targets opts)) [] = (r, h)" by fastforce
  show ?thesis
  proof (cases "op_version opts")
    case True
    then show ?thesis by (simp add: main_cmd_def)
  next
    case False
    show ?thesis
    proof (cases r)
      case (Inl e)
      then show ?thesis using False load by (simp add: main_cmd_def)
    next
      case (Inr ts)
      obtain startedAt h1 where now: "sys_now (ev_world E) h = (startedAt, h1)" by fastforce
      have fin: "finish_main E opts startedAt (run_all ts (op_timeout opts) (op_conc opts)) h1 = Some p"
        using p False load Inr now by (simp add: main_cmd_def)
      show ?thesis
        using p False load Inr now finish_main_code [OF fin] by (auto simp: list_all_iff Let_def)
    qed
  qed
qed

end
