(* ===== verification/Nodes.thy ===== *)
theory Nodes
  imports Ingest "HOL-Library.Product_Lexorder" "HOL-Library.Multiset"
begin

text \<open>
  The read endpoints of probestore (probestore/app/routers/nodes.py) over the tables of
  \<open>Ingest\<close>: the newest result of every node, and the history of one.

  A query returns rows in an order that PostgreSQL chooses as far as \<open>ORDER BY\<close> leaves it open.
  The order in which the rows reach the sort is an argument, a permutation of the rows.
\<close>

subsection \<open>Sort keys\<close>

text \<open>\<open>DESC\<close> reverses the order of a column.\<close>

datatype 'a desc = Desc (undesc: 'a)

instantiation desc :: (linorder) linorder
begin

definition less_eq_desc :: "'a desc \<Rightarrow> 'a desc \<Rightarrow> bool" where
  "less_eq_desc x y \<longleftrightarrow> undesc y \<le> undesc x"

definition less_desc :: "'a desc \<Rightarrow> 'a desc \<Rightarrow> bool" where
  "less_desc x y \<longleftrightarrow> undesc y < undesc x"

instance
  by standard (auto simp: less_eq_desc_def less_desc_def desc.expand)

end

lemma desc_le [simp]: "Desc x \<le> Desc y \<longleftrightarrow> y \<le> x" "Desc x < Desc y \<longleftrightarrow> y < x"
  by (simp_all add: less_eq_desc_def less_desc_def)

subsection \<open>\<open>DISTINCT ON\<close>\<close>

text \<open>The first row of every group of rows with equal keys.\<close>

function distinct_on :: "('a \<Rightarrow> 'k) \<Rightarrow> 'a list \<Rightarrow> 'a list" where
  "distinct_on f [] = []"
| "distinct_on f (x # xs) = x # distinct_on f (dropWhile (\<lambda>y. f y = f x) xs)"
  by pat_completeness auto
termination
  by (relation "measure (\<lambda>(f, xs). length xs)") (auto intro: le_imp_less_Suc length_dropWhile_le)

lemma distinct_on_subset: "set (distinct_on f xs) \<subseteq> set xs"
  by (induction f xs rule: distinct_on.induct) (auto dest: set_dropWhileD)

lemma dropWhile_group:
  assumes "sorted (map f (x # xs))" "y \<in> set (dropWhile (\<lambda>y. f y = f x) xs)"
  shows "f x < (f y :: 'k :: linorder)"
  using assms
proof (induction xs)
  case (Cons z zs)
  show ?case
  proof (cases "f z = f x")
    case False
    then have "f x < f z" using Cons.prems(1) by auto
    then show ?thesis using Cons.prems False by (auto split: if_splits)
  qed (use Cons in auto)
qed simp

lemma sorted_map_dropWhile: "sorted (map f xs) \<Longrightarrow> sorted (map f (dropWhile P xs))"
  by (induction xs) auto

lemma in_dropWhile_group: "y \<in> set xs \<Longrightarrow> f y \<noteq> k \<Longrightarrow> y \<in> set (dropWhile (\<lambda>y. f y = k) xs)"
  by (induction xs) auto

lemma distinct_on_image: "f ` set (distinct_on f xs) = f ` set xs"
proof (induction f xs rule: distinct_on.induct)
  case (2 f x xs)
  have "f y \<in> insert (f x) (f ` set (dropWhile (\<lambda>y. f y = f x) xs))" if "y \<in> set xs" for y
    using in_dropWhile_group [OF that, of f "f x"] by blast
  then have "insert (f x) (f ` set (dropWhile (\<lambda>y. f y = f x) xs)) = insert (f x) (f ` set xs)"
    by (auto dest: set_dropWhileD)
  then show ?case using 2 by simp
qed simp

lemma distinct_on_sorted:
  fixes f :: "'a \<Rightarrow> 'k :: linorder"
  assumes "sorted (map f xs)"
  shows "sorted_wrt (<) (map f (distinct_on f xs))"
  using assms
proof (induction f xs rule: distinct_on.induct)
  case (2 f x xs)
  let ?ys = "dropWhile (\<lambda>y. f y = f x) xs"
  have "sorted (map f ?ys)" using "2.prems" by (simp add: sorted_map_dropWhile)
  moreover have "f x < f y" if "y \<in> set (distinct_on f ?ys)" for y
    using that distinct_on_subset [of f ?ys] dropWhile_group [OF "2.prems"] by blast
  ultimately show ?case using "2.IH" by auto
qed simp

text \<open>The first row of a group is the least in any order the rows are sorted by.\<close>

lemma distinct_on_first:
  fixes f :: "'a \<Rightarrow> 'k :: linorder"
  assumes "sorted (map f xs)" "sorted_wrt R xs" "x \<in> set (distinct_on f xs)" "y \<in> set xs" "f y = f x"
  shows "y = x \<or> R x y"
  using assms
proof (induction f xs arbitrary: x y rule: distinct_on.induct)
  case (2 f z xs)
  let ?ys = "dropWhile (\<lambda>y. f y = f z) xs"
  show ?case
  proof (cases "x = z")
    case True
    then show ?thesis using "2.prems"(2,4) by auto
  next
    case False
    then have x: "x \<in> set (distinct_on f ?ys)" using "2.prems"(3) by simp
    then have less: "f z < f x"
      using distinct_on_subset [of f ?ys] dropWhile_group [OF "2.prems"(1)] by blast
    then have "y \<in> set xs" using "2.prems"(4,5) by auto
    then have "y \<in> set ?ys" using less "2.prems"(5) by (intro in_dropWhile_group) auto
    moreover have "sorted (map f ?ys)" using "2.prems"(1) by (simp add: sorted_map_dropWhile)
    moreover have "sorted_wrt R ?ys" using "2.prems"(2) by simp
    ultimately show ?thesis using "2.IH" x "2.prems"(5) by blast
  qed
qed simp

subsection \<open>The newest result of every node\<close>

record planner =
  pl_joined :: "(node_row \<times> result_row) list \<Rightarrow> (node_row \<times> result_row) list"
  pl_nodes :: "node_row list \<Rightarrow> node_row list"
  pl_results :: "result_row list \<Rightarrow> result_row list"

definition planner_ok :: "planner \<Rightarrow> bool" where
  "planner_ok P \<longleftrightarrow>
     (\<forall>xs. mset (pl_joined P xs) = mset xs) \<and> (\<forall>xs. mset (pl_nodes P xs) = mset xs) \<and>
     (\<forall>xs. mset (pl_results P xs) = mset xs)"

lemma planner_okD:
  assumes "planner_ok P"
  shows "set (pl_joined P xs) = set xs" "set (pl_nodes P ns) = set ns"
    "mset (pl_results P rs) = mset rs" "set (pl_results P rs) = set rs"
proof -
  have m: "mset (pl_joined P xs) = mset xs" "mset (pl_nodes P ns) = mset ns" "mset (pl_results P rs) = mset rs"
    using assms by (simp_all add: planner_ok_def)
  show "set (pl_joined P xs) = set xs" "set (pl_nodes P ns) = set ns"
    "mset (pl_results P rs) = mset rs" "set (pl_results P rs) = set rs"
    using m mset_eq_setD [OF m(1)] mset_eq_setD [OF m(2)] mset_eq_setD [OF m(3)] by simp_all
qed

definition joined :: "database \<Rightarrow> (node_row \<times> result_row) list" where
  "joined d =
     concat (map (\<lambda>n. map (Pair n) (filter (\<lambda>r. res_node_id r = nd_id n) (db_results d))) (db_nodes d))"

definition node_then_newest :: "node_row \<times> result_row \<Rightarrow> nat \<times> instant desc" where
  "node_then_newest row = (nd_id (fst row), Desc (res_ts (snd row)))"

definition latest_per_node :: "planner \<Rightarrow> database \<Rightarrow> (node_row \<times> result_row) list" where
  "latest_per_node P d =
     distinct_on (\<lambda>row. nd_id (fst row)) (sort_key node_then_newest (pl_joined P (joined d)))"

lemma in_joined: "(n, r) \<in> set (joined d) \<longleftrightarrow> n \<in> set (db_nodes d) \<and> r \<in> set (db_results d) \<and> res_node_id r = nd_id n"
  by (auto simp: joined_def)

lemma sorted_rows:
  "sorted_wrt (\<lambda>a b. node_then_newest a \<le> node_then_newest b) (sort_key node_then_newest rows)"
  using sorted_sort_key [of node_then_newest rows] by (simp add: sorted_wrt_map)

lemma sorted_nodes: "sorted (map (\<lambda>row. nd_id (fst row)) (sort_key node_then_newest rows))"
proof -
  have "sorted_wrt (\<lambda>a b. nd_id (fst a) \<le> nd_id (fst b)) (sort_key node_then_newest rows)"
    by (rule sorted_wrt_mono_rel [OF _ sorted_rows]) (auto simp: node_then_newest_def)
  then show ?thesis by (simp add: sorted_wrt_map)
qed

text \<open>The query returns, by increasing node id, one newest result of each node that has any.\<close>

lemma latest_per_node:
  assumes "planner_ok P"
  shows "sorted_wrt (<) (map (\<lambda>row. nd_id (fst row)) (latest_per_node P d))"
    and "(\<lambda>row. nd_id (fst row)) ` set (latest_per_node P d) = (\<lambda>row. nd_id (fst row)) ` set (joined d)"
    and "set (latest_per_node P d) \<subseteq> set (joined d)"
    and "(n, r) \<in> set (latest_per_node P d) \<Longrightarrow> (n', r') \<in> set (joined d) \<Longrightarrow> nd_id n' = nd_id n \<Longrightarrow>
      res_ts r' \<le> res_ts r"
proof -
  note perm = planner_okD(1) [OF assms, of "joined d"]
  show "sorted_wrt (<) (map (\<lambda>row. nd_id (fst row)) (latest_per_node P d))"
    unfolding latest_per_node_def by (rule distinct_on_sorted [OF sorted_nodes])
  show "(\<lambda>row. nd_id (fst row)) ` set (latest_per_node P d) = (\<lambda>row. nd_id (fst row)) ` set (joined d)"
    unfolding latest_per_node_def distinct_on_image by (simp add: perm)
  show "set (latest_per_node P d) \<subseteq> set (joined d)"
    using distinct_on_subset unfolding latest_per_node_def by (metis perm set_sort)
  show "res_ts r' \<le> res_ts r"
    if "(n, r) \<in> set (latest_per_node P d)" "(n', r') \<in> set (joined d)" "nd_id n' = nd_id n"
  proof -
    have "(n', r') = (n, r) \<or> node_then_newest (n, r) \<le> node_then_newest (n', r')"
      by (rule distinct_on_first [OF sorted_nodes sorted_rows that(1) [unfolded latest_per_node_def]])
        (use that perm in simp_all)
    then show ?thesis using that(3) by (auto simp: node_then_newest_def)
  qed
qed

subsection \<open>The endpoints\<close>

text \<open>
  200, 404, 422, and 500 for a response that its own model refuses or a text that no statement can
  carry.
\<close>

datatype 'a answer = Answer 'a | Not_Found string | Invalid_Query | Broken

record node_status =
  ns_name :: string
  ns_addr :: string
  ns_sni :: string
  ns_provider :: "string option"
  ns_ts :: instant
  ns_up :: bool
  ns_tcp_ok :: bool
  ns_tls_ok :: bool
  ns_latency_ms :: "float64 option"
  ns_error :: "string option"
  ns_failed_phase :: "string option"

record result_out =
  ro_ts :: instant
  ro_tcp_ok :: bool
  ro_tls_ok :: bool
  ro_latency_ms :: "float64 option"
  ro_error :: "string option"
  ro_failed_phase :: "string option"

definition status_of :: "node_row \<times> result_row \<Rightarrow> node_status" where
  "status_of row =
     (case row of (node, result) \<Rightarrow>
        \<lparr>ns_name = nd_name node, ns_addr = nd_addr node, ns_sni = nd_sni node,
         ns_provider = nd_provider node, ns_ts = res_ts result,
         ns_up = (res_tcp_ok result \<and> res_tls_ok result), ns_tcp_ok = res_tcp_ok result,
         ns_tls_ok = res_tls_ok result, ns_latency_ms = res_latency_ms result,
         ns_error = res_error result, ns_failed_phase = res_failed_phase result\<rparr>)"

definition result_out_of :: "result_row \<Rightarrow> result_out" where
  "result_out_of r =
     \<lparr>ro_ts = res_ts r, ro_tcp_ok = res_tcp_ok r, ro_tls_ok = res_tls_ok r,
      ro_latency_ms = res_latency_ms r, ro_error = res_error r, ro_failed_phase = res_failed_phase r\<rparr>"

text \<open>\<open>FailedPhase | None\<close> in the models of the answers.\<close>

definition known_phase :: "string option \<Rightarrow> bool" where
  "known_phase p = (case p of None \<Rightarrow> True | Some s \<Rightarrow> s = ''tcp'' \<or> s = ''tls'')"

definition list_nodes :: "planner \<Rightarrow> database \<Rightarrow> node_status list answer" where
  "list_nodes P d =
     (let sts = map status_of (latest_per_node P d)
      in if list_all (known_phase \<circ> ns_failed_phase) sts then Answer sts else Broken)"

definition node_history ::
  "planner \<Rightarrow> database \<Rightarrow> string \<Rightarrow> instant option \<Rightarrow> int \<Rightarrow> result_out list answer" where
  "node_history P d name since limit =
     (if limit < 1 \<or> 5000 < limit then Invalid_Query
      else if \<not> storable name then Broken
      else (case take 1 (filter (\<lambda>n. nd_name n = name) (pl_nodes P (db_nodes d))) of
              [] \<Rightarrow> Not_Found (''unknown node: '' @ name)
            | node # _ \<Rightarrow>
                (let wanted = filter (\<lambda>r. res_node_id r = nd_id node \<and> pred_option (\<lambda>t. t \<le> res_ts r) since)
                       (db_results d);
                     rows = take (nat limit) (sort_key (\<lambda>r. Desc (res_ts r)) (pl_results P wanted))
                 in if list_all (known_phase \<circ> res_failed_phase) rows
                    then Answer (map result_out_of rows) else Broken)))"

text \<open>\<open>/healthz\<close>: whether \<open>SELECT 1\<close> works.\<close>

definition healthz :: "bool \<Rightarrow> string \<times> bool" where
  "healthz database = (if database then (''ok'', True) else (''degraded'', False))"

subsection \<open>Stored phases are known\<close>

text \<open>The schema of the ingest endpoint keeps the answers of the read endpoints well-formed.\<close>

definition phases_known :: "database \<Rightarrow> bool" where
  "phases_known d \<longleftrightarrow> list_all (known_phase \<circ> res_failed_phase) (db_results d)"

lemma post_runs_phases:
  assumes "phases_known d"
  shows "phases_known (snd (post_runs tok cred p d))"
proof (cases "require_token tok cred = None \<and> valid_run p")
  case True
  then have r: "snd (post_runs tok cred p d) = snd (ingest_run p d)" by (simp add: post_runs_def)
  have "phases_known (snd (ingest_run p d))"
  proof (cases rule: ingest_cases [of p d])
    case new
    obtain ids d2 rows where i: "resolve_nodes (rn_results p) (add_run p d) = (ids, d2)"
      "result_rows (db_next_run d) ids (db_next_result d2) (rn_results p) = Some rows"
      "ingest_run p d =
         (Created \<lparr>ra_run_id = rn_run_id p, ra_stored_results = length (rn_results p),
                   ra_duplicate = False\<rparr>, store_rows rows d2)"
      by (rule ingest_new [OF new])
    have known: "known_phase (res_failed_phase x)" if "stored_as ids (db_next_run d) q x" "valid_result q" for q x
    proof -
      from that(1) obtain nid i where "x = new_result_row (db_next_run d) nid i q"
        unfolding stored_as_def by blast
      then show ?thesis
        using that(2) by (simp add: valid_result_def known_phase_def new_result_row_def)
    qed
    have rel: "list_all2 (stored_as ids (db_next_run d)) (rn_results p) rows"
      using result_rows_map [OF i(2)] by blast
    moreover have "list_all valid_result (rn_results p)" using True by (simp add: valid_run_def)
    ultimately have "list_all (known_phase \<circ> res_failed_phase) rows"
      by (induction rule: list_all2_induct) (use known in auto)
    then show ?thesis
      using assms resolve_nodes_effect(2) [OF i(1)] by (simp add: i(3) phases_known_def add_run_def)
  qed (use assms in simp_all)
  then show ?thesis using r by simp
qed (use assms in \<open>auto simp: post_runs_def split: option.split\<close>)

lemma list_nodes_answers:
  assumes "planner_ok P" "phases_known d"
  shows "list_nodes P d = Answer (map status_of (latest_per_node P d))"
proof -
  have "known_phase (res_failed_phase r)" if "(n, r) \<in> set (latest_per_node P d)" for n r
  proof -
    have "(n, r) \<in> set (joined d)" using that latest_per_node(3) [OF assms(1)] by blast
    then show ?thesis using assms(2) by (simp add: phases_known_def list_all_iff in_joined)
  qed
  then show ?thesis by (auto simp: list_nodes_def status_of_def list_all_iff)
qed

text \<open>Every node that has a result is listed once, with a newest one.\<close>

lemma list_nodes_rows:
  assumes "db_inv d" "phases_known d" "planner_ok P"
  shows "\<exists>rows. list_nodes P d = Answer (map status_of rows) \<and>
    sorted_wrt (<) (map (\<lambda>row. nd_id (fst row)) rows) \<and>
    fst ` set rows = {n \<in> set (db_nodes d). \<exists>r \<in> set (db_results d). res_node_id r = nd_id n} \<and>
    (\<forall>(n, r) \<in> set rows. r \<in> set (db_results d) \<and> res_node_id r = nd_id n \<and>
       (\<forall>r' \<in> set (db_results d). res_node_id r' = nd_id n \<longrightarrow> res_ts r' \<le> res_ts r))"
proof -
  let ?rows = "latest_per_node P d"
  note latest = latest_per_node [OF assms(3), where d = d]
  have same: "n = n'" if "n \<in> set (db_nodes d)" "n' \<in> set (db_nodes d)" "nd_id n = nd_id n'" for n n'
    using assms(1) that by (auto simp: db_inv_def distinct_map inj_on_def)
  have row: "n \<in> set (db_nodes d) \<and> r \<in> set (db_results d) \<and> res_node_id r = nd_id n"
    if "(n, r) \<in> set ?rows" for n r
    using that latest(3) in_joined by blast
  have "n \<in> fst ` set ?rows" if n: "n \<in> set (db_nodes d)" "r \<in> set (db_results d)" "res_node_id r = nd_id n" for n r
  proof -
    have "(n, r) \<in> set (joined d)" using n by (simp add: in_joined)
    then have "nd_id n \<in> (\<lambda>row. nd_id (fst row)) ` set ?rows" unfolding latest(2) by force
    then obtain m s where "(m, s) \<in> set ?rows" "nd_id m = nd_id n" by auto
    then show ?thesis using same [of m n] row n(1) by force
  qed
  moreover have "n \<in> set (db_nodes d) \<and> (\<exists>r \<in> set (db_results d). res_node_id r = nd_id n)"
    if "n \<in> fst ` set ?rows" for n
  proof -
    from that obtain r where "(n, r) \<in> set ?rows" by auto
    from row [OF this] show ?thesis by blast
  qed
  ultimately have fst: "fst ` set ?rows = {n \<in> set (db_nodes d). \<exists>r \<in> set (db_results d). res_node_id r = nd_id n}"
    by blast
  have "res_ts r' \<le> res_ts r" if "(n, r) \<in> set ?rows" "r' \<in> set (db_results d)" "res_node_id r' = nd_id n" for n r r'
    using latest(4) [OF that(1), of n r'] row [OF that(1)] that(2,3) by (simp add: in_joined)
  then show ?thesis
    using list_nodes_answers [OF assms(3,2)] latest(1) fst row by blast
qed

text \<open>The history of a node: its newest results, newest first.\<close>

lemma node_history_cases:
  assumes "planner_ok P" "phases_known d" "1 \<le> limit" "limit \<le> 5000"
  obtains (unreadable) "\<not> storable name" "node_history P d name since limit = Broken"
  | (unknown) "storable name" "name \<notin> nd_name ` set (db_nodes d)"
      "node_history P d name since limit = Not_Found (''unknown node: '' @ name)"
  | (known) n rows where "storable name" "n \<in> set (db_nodes d)" "nd_name n = name"
      "node_history P d name since limit = Answer (map result_out_of (take (nat limit) rows))"
      "mset rows = mset (filter (\<lambda>r. res_node_id r = nd_id n \<and> pred_option (\<lambda>t. t \<le> res_ts r) since) (db_results d))"
      "sorted_wrt (\<lambda>r s. res_ts s \<le> res_ts r) rows"
proof -
  consider "\<not> storable name" | (Nil) "storable name" "filter (\<lambda>n. nd_name n = name) (pl_nodes P (db_nodes d)) = []"
    | (Cons) n ns where "storable name" "filter (\<lambda>n. nd_name n = name) (pl_nodes P (db_nodes d)) = n # ns"
    by (meson neq_Nil_conv)
  then show thesis
  proof cases
    case 1
    then show thesis using unreadable assms(3,4) by (simp add: node_history_def)
  next
    case Nil
    then have "name \<notin> nd_name ` set (db_nodes d)"
      using planner_okD(2) [OF assms(1)] by (auto simp: filter_empty_conv)
    then show thesis using unknown Nil assms(3,4) by (simp add: node_history_def)
  next
    case (Cons n ns)
    then have "n \<in> set (filter (\<lambda>n. nd_name n = name) (pl_nodes P (db_nodes d)))" by simp
    then have n: "storable name" "n \<in> set (db_nodes d)" "nd_name n = name" using Cons(1) planner_okD(2) [OF assms(1)] by auto
    let ?wanted = "filter (\<lambda>r. res_node_id r = nd_id n \<and> pred_option (\<lambda>t. t \<le> res_ts r) since) (db_results d)"
    let ?rows = "sort_key (\<lambda>r. Desc (res_ts r)) (pl_results P ?wanted)"
    have m: "mset ?rows = mset ?wanted" using planner_okD(3) [OF assms(1)] by simp
    then have "set ?rows \<subseteq> set (db_results d)" using mset_eq_setD [OF m] by auto
    then have "list_all (known_phase \<circ> res_failed_phase) ?rows"
      using assms(2) unfolding phases_known_def list_all_iff by blast
    then have ok: "list_all (known_phase \<circ> res_failed_phase) (take (nat limit) ?rows)"
      by (auto simp: list_all_iff dest: in_set_takeD)
    have sorted: "sorted_wrt (\<lambda>r s. res_ts s \<le> res_ts r) ?rows"
      using sorted_sort_key [of "\<lambda>r. Desc (res_ts r)" "pl_results P ?wanted"] by (simp add: sorted_wrt_map)
    have "node_history P d name since limit = Answer (map result_out_of (take (nat limit) ?rows))"
      using Cons ok assms(3,4) by (simp add: node_history_def Let_def)
    then show thesis by (rule known [OF n _ m sorted])
  qed
qed

subsection \<open>What was just stored is what is listed\<close>

lemma ingested_latest:
  assumes "db_inv d" "planner_ok P" "find_run (rn_run_id p) d = None" "storable_run p"
    and q: "q \<in> set (rn_results p)" "\<forall>q' \<in> set (rn_results p). ref_key (ri_node q') = ref_key (ri_node q) \<longrightarrow> q' = q"
    and newest: "\<forall>x \<in> set (db_results d). res_ts x < ri_ts q"
  shows "\<exists>n run nid i. (n, new_result_row run nid i q) \<in> set (latest_per_node P (snd (ingest_run p d))) \<and>
    node_key n = ref_key (ri_node q)"
proof -
  let ?d = "snd (ingest_run p d)" and ?rows = "run_results (rn_run_id p) (snd (ingest_run p d))"
  note new = ingest_new_results [OF assms(1,3,4)]
  have inv: "db_inv ?d" by (rule ingest_run_inv [OF assms(1)])
  have same: "n = n'" if "n \<in> set (db_nodes ?d)" "n' \<in> set (db_nodes ?d)" "nd_id n = nd_id n'" for n n'
    using inv that by (auto simp: db_inv_def distinct_map inj_on_def)
  obtain x where x: "x \<in> set ?rows" "row_matches ?d q x"
    using new(1) q(1) by (metis in_set_conv_nth list_all2_conv_all_nth)
  then obtain n where n: "n \<in> set (db_nodes ?d)" "nd_id n = res_node_id x" "node_key n = ref_key (ri_node q)"
    by (auto simp: row_matches_def)
  have ts: "res_ts y = ri_ts q'" if "row_matches ?d q' y" for q' y
  proof -
    obtain run nid i where "y = new_result_row run nid i q'" using \<open>row_matches ?d q' y\<close>
      unfolding row_matches_def by blast
    then show ?thesis by (simp add: new_result_row_def)
  qed
  have jx: "(n, x) \<in> set (joined ?d)" using n x(1) new(2) by (simp add: in_joined)
  then have "nd_id n \<in> (\<lambda>row. nd_id (fst row)) ` set (latest_per_node P ?d)"
    unfolding latest_per_node(2) [OF assms(2)] by force
  then obtain m r where mr: "(m, r) \<in> set (latest_per_node P ?d)" "nd_id m = nd_id n" by auto
  then have jr: "(m, r) \<in> set (joined ?d)" using latest_per_node(3) [OF assms(2)] by blast
  then have m: "m = n" "res_node_id r = nd_id n" using same n(1) mr(2) by (auto simp: in_joined)
  have "ri_ts q \<le> res_ts r"
    using latest_per_node(4) [OF assms(2) mr(1) jx] mr(2) ts [OF x(2)] by simp
  then have "r \<in> set ?rows" using jr new(2) newest by (force simp: in_joined)
  then obtain q' where q': "q' \<in> set (rn_results p)" "row_matches ?d q' r"
    using new(1) by (metis in_set_conv_nth list_all2_conv_all_nth)
  then obtain k where "k \<in> set (db_nodes ?d)" "nd_id k = res_node_id r" "node_key k = ref_key (ri_node q')"
    by (auto simp: row_matches_def)
  then have "ref_key (ri_node q') = ref_key (ri_node q)" using same n m(2) by metis
  then have "q' = q" using q(2) q'(1) by blast
  then have "r = new_result_row (res_run_id r) (res_node_id r) (res_id r) q"
    using q'(2) by (simp add: row_matches_def)
  then show ?thesis using mr(1) n(3) m(1) by metis
qed

lemma ingested_listed:
  assumes "db_inv d" "phases_known d" "planner_ok P" "find_run (rn_run_id p) d = None"
    and "valid_run p" "storable_run p" "ascii tok"
    and "q \<in> set (rn_results p)" "\<forall>q' \<in> set (rn_results p). ref_key (ri_node q') = ref_key (ri_node q) \<longrightarrow> q' = q"
    and "\<forall>x \<in> set (db_results d). res_ts x < ri_ts q"
  shows "\<exists>sts. list_nodes P (snd (post_runs tok (Some tok) p d)) = Answer sts \<and>
    (\<exists>st \<in> set sts. (ns_addr st, ns_sni st) = ref_key (ri_node q) \<and> ns_ts st = ri_ts q \<and>
       ns_up st = (ri_tcp_ok q \<and> ri_tls_ok q) \<and> ns_error st = ri_error q \<and>
       ns_failed_phase st = ri_failed_phase q \<and> ns_latency_ms st = ri_latency_ms q)"
proof -
  have p: "snd (post_runs tok (Some tok) p d) = snd (ingest_run p d)"
    using assms(5,7) by (simp add: post_runs_def)
  obtain n run nid i where row: "(n, new_result_row run nid i q) \<in> set (latest_per_node P (snd (ingest_run p d)))"
    "node_key n = ref_key (ri_node q)"
    using ingested_latest [OF assms(1,3,4,6,8-10)] by blast
  let ?st = "status_of (n, new_result_row run nid i q)"
  have "?st \<in> set (map status_of (latest_per_node P (snd (ingest_run p d))))" using row(1) by simp
  moreover have "(ns_addr ?st, ns_sni ?st) = ref_key (ri_node q) \<and> ns_ts ?st = ri_ts q \<and>
      ns_up ?st = (ri_tcp_ok q \<and> ri_tls_ok q) \<and> ns_error ?st = ri_error q \<and>
      ns_failed_phase ?st = ri_failed_phase q \<and> ns_latency_ms ?st = ri_latency_ms q"
    using row(2) by (simp add: status_of_def new_result_row_def node_key_def)
  ultimately show ?thesis
    using list_nodes_answers [OF assms(3) post_runs_phases [OF assms(2)], of tok "Some tok" p]
    unfolding p by blast
qed

text \<open>
  Nodes are told apart by address and SNI, histories by name: of two nodes of one name, the
  planner decides whose history is shown.
\<close>

lemma history_ambiguous:
  assumes "nd_name m = nd_name n" "nd_id m \<noteq> nd_id n" "res_node_id r = nd_id m" "known_phase (res_failed_phase r)"
    and "storable (nd_name n)"
  shows "\<exists>P Q. planner_ok P \<and> planner_ok Q \<and>
    node_history P (empty_db\<lparr>db_nodes := [m, n], db_results := [r]\<rparr>) (nd_name n) None 200 =
      Answer [result_out_of r] \<and>
    node_history Q (empty_db\<lparr>db_nodes := [m, n], db_results := [r]\<rparr>) (nd_name n) None 200 = Answer []"
proof -
  let ?P = "\<lparr>pl_joined = \<lambda>xs. xs, pl_nodes = \<lambda>xs. xs, pl_results = \<lambda>xs. xs\<rparr>"
  let ?Q = "\<lparr>pl_joined = \<lambda>xs. xs, pl_nodes = rev, pl_results = \<lambda>xs. xs\<rparr>"
  have "planner_ok ?P" "planner_ok ?Q" by (simp_all add: planner_ok_def)
  then show ?thesis using assms
    by (intro exI [of _ ?P] exI [of _ ?Q]) (simp add: node_history_def)
qed

end
