(* ===== verification/Concrete.thy ===== *)
theory Concrete
  imports TargetsFile PushIngest MainCmd Nodes
begin

text \<open>
  Concrete surroundings for the examples of the development: a world whose sockets work and whose
  reads are answered from a list, and a cryptographic library that is trivial but keeps every law
  of \<open>crypto_ok\<close>.
\<close>

definition toy_crypto :: crypto where
  "toy_crypto =
     \<lparr>cr_blake2s = copy32,
      cr_blake2s128 = (\<lambda>k d. take 16 (d @ replicate 16 0)),
      cr_seal = (\<lambda>k n p a. p @ replicate 16 0),
      cr_open = (\<lambda>k n c a. if length c < 16 then None else Some (take (length c - 16) c)),
      cr_pub = copy32,
      cr_ecdh = (\<lambda>a p. Inr (map2 (\<lambda>x y. x XOR y) a p))\<rparr>"

lemma map2_xor_commute: "map2 (\<lambda>x y. x XOR y) a b = map2 (\<lambda>x y. x XOR y) b (a :: bytes)"
proof (induction a arbitrary: b)
  case (Cons x a)
  then show ?case by (cases b) (simp_all add: xor.commute)
qed simp

lemma toy_crypto_ok: "crypto_ok toy_crypto"
  by (auto simp: crypto_ok_def toy_crypto_def map2_xor_commute min_def)

lemma toy_ecdh: "cr_ecdh toy_crypto a p = Inr (map2 (\<lambda>x y. x XOR y) a p)"
  by (simp add: toy_crypto_def)

lemma toy_assembles: "\<exists>m. assemble_initiation toy_crypto peer static now eph idx = Inr m"
  by (rule assemble_total [OF toy_crypto_ok toy_ecdh toy_ecdh])

definition toy_lib :: lib where
  "toy_lib = \<lparr>lib_text = (\<lambda>e. ''library error''), lib_quote = (\<lambda>s. s)\<rparr>"

text \<open>
  \<open>clock\<close> tells the time after a history of calls; the \<open>n\<close>-th read of a probe gets \<open>answer n\<close>;
  \<open>env\<close> is the value of every environment variable.
\<close>

definition example_world ::
  "(trace \<Rightarrow> instant) \<Rightarrow> (nat \<Rightarrow> read_answer) \<Rightarrow> string \<Rightarrow> world" where
  "example_world clock answer env =
     \<lparr>w_now = clock, w_dial = (\<lambda>h. None), w_set_wd = (\<lambda>h. None), w_write = (\<lambda>h. None),
      w_set_rd = (\<lambda>h. None), w_read = (\<lambda>h. answer (reads h)), w_ctx_err = (\<lambda>h. False),
      w_ctx_deadline = None, w_tls_dial = (\<lambda>h. TlsFailed ''handshake failure''),
      w_rand = (\<lambda>h. Inr (replicate 32 7)), w_getenv = (\<lambda>v. env), w_lib = toy_lib,
      w_crypto = toy_crypto\<rparr>"

lemma example_world_fields [simp]:
  "w_now (example_world clock answer env) = clock"
  "w_dial (example_world clock answer env) h = None"
  "w_set_wd (example_world clock answer env) h = None"
  "w_write (example_world clock answer env) h = None"
  "w_set_rd (example_world clock answer env) h = None"
  "w_read (example_world clock answer env) h = answer (reads h)"
  "\<not> w_ctx_err (example_world clock answer env) h"
  "w_ctx_deadline (example_world clock answer env) = None"
  "w_rand (example_world clock answer env) h = Inr (replicate 32 7)"
  "w_getenv (example_world clock answer env) v = env"
  "w_crypto (example_world clock answer env) = toy_crypto"
  "rand_works (example_world clock answer env)"
  by (simp_all add: example_world_def rand_works_def)

lemma example_calm: "(\<And>h. clock h < deadline) \<Longrightarrow> calm (example_world clock answer env) deadline answer"
  by (simp add: calm_def)

text \<open>A clock that counts calls is punctual with a slack of one.\<close>

definition call_clock :: "trace \<Rightarrow> instant" where
  "call_clock h = int (length h)"

lemma example_punctual: "punctual (example_world call_clock answer env) 1"
  by (auto simp: punctual_def call_clock_def split: call.split)

definition example_target :: "string \<Rightarrow> json option \<Rightarrow> target" where
  "example_target proto params =
     \<lparr>t_Name = ''de-fra-01'', t_Addr = ''1.2.3.4:443'', t_SNI = [], t_Region = ''de'',
      t_Provider = [], t_Proto = proto, t_Params = params\<rparr>"

text \<open>The first read times out, the second is answered.\<close>

definition late_answer :: "nat \<Rightarrow> read_answer" where
  "late_answer n = (if n < 2 then ReadFailed ''i/o timeout'' True else Datagram [1])"

text \<open>A UDP exchange in which the first datagram is lost and the second is answered.\<close>

lemma example_lost_datagram:
  "\<exists>h'. udp_run (example_world (\<lambda>h. 0) late_answer env) (udp_exchange_of t payload 3) 10 [] =
     Some (([\<lparr>ph_Name = ''udp'', ph_OK = True, ph_Duration = 0, ph_Err = []\<rparr>,
             \<lparr>ph_Name = ''response'', ph_OK = True, ph_Duration = 0, ph_Err = ''i/o timeout''\<rparr>], [1]), h')"
proof -
  let ?W = "example_world (\<lambda>h. 0) late_answer env" and ?x = "udp_exchange_of t payload 3"
  let ?h = "[Now, Now, Now, Write payload, SetWriteDeadline 10, Now, Now, Dial ''udp'' (t_Addr t) 10, Now]"
  have "calm ?W 10 late_answer" by (rule example_calm) simp
  then obtain h1 where "udp_loop ?W ?x 10 3 0 3 [] ?h = Some (stop_answered ''i/o timeout'' [1], h1)"
    using udp_loop_refines [of ?W 10 late_answer ?x 3 0 3 "[]" ?h]
    by (auto simp: late_answer_def upt_rec accept_fun_def mtu_def)
  then show ?thesis
    by (simp add: udp_run_def udp_send_def udp_wait_def sys_defs go_div_def phaseUDPSend_def
        phaseUDPResponse_def stop_answered_def)
qed

text \<open>One that is answered at once, on a clock that counts calls.\<close>

lemma example_answered:
  "\<exists>sp rp h'. udp_run (example_world call_clock (\<lambda>n. Datagram [1]) env) (udp_exchange_of t payload 3) 100 [] =
     Some (([sp, rp], [1]), h') \<and> ph_OK rp"
  by (simp add: udp_run_def udp_send_def udp_wait_def loop_unfold go_div_def udp_attempt_def
      eval_nat_numeral stop_answered_def mtu_def split: option.split)

subsection \<open>A push whose first answer is lost\<close>

definition example_uuid :: uuid where
  "example_uuid = replicate 16 0"

definition example_result :: result where
  "example_result = (newResult (example_target [] None))\<lparr>r_TCPOK := Some True, r_TLSOK := Some False,
     r_TCPTime := Some (seconds 31000000), r_Timestamp := 1500, r_Error := ''tls: timeout''\<rparr>"

definition example_payload :: pushPayload where
  "example_payload = the (buildPayload (format_uuid example_uuid) ''s'' 0 [example_result])"

lemma example_built:
  "buildPayload (format_uuid example_uuid) ''s'' 0 [example_result] = Some example_payload"
  "length example_uuid = 16"
  by (simp_all add: example_payload_def buildPayload_def push_results_eq example_uuid_def)

lemma example_years: "py_range 0" "py_range 1500"
proof -
  have "civil 0 = (1970, 1, 1)" by code_simp
  then show "py_range 0" "py_range 1500" by (simp_all add: py_range_def marshalable_def)
qed

lemma example_stamps: "list_all (\<lambda>r. py_range (r_Timestamp r)) [example_result]"
  by (simp add: example_result_def example_years)

definition example_body :: string where
  "example_body = compact (payload_tree example_payload)"

lemma example_marshal: "marshalPayload example_payload = Inr example_body"
  using built_sendable [OF example_built example_years(1) example_stamps]
  by (auto simp: marshalPayload_def example_body_def split: if_splits)

text \<open>
  Both requests arrive; the connection breaks before the first answer, the second request is
  answered with 201.
\<close>

definition example_push_world :: push_world where
  "example_push_world =
     \<lparr>pw_bad_url = (\<lambda>u. None),
      pw_do = (\<lambda>h. if length (posts h) \<ge> 2 \<and> take 1 (posts h) = [push_request ''u'' ''t'' example_body]
                   then Response 201 ''201 Created'' [] else DoErr ''EOF''),
      pw_wait = (\<lambda>h. None)\<rparr>"

text \<open>The bearer scheme as far as the client uses it.\<close>

definition example_bearer :: "string option \<Rightarrow> string option" where
  "example_bearer auth =
     (case auth of
        None \<Rightarrow> None
      | Some a \<Rightarrow> if take 7 a = ''Bearer '' \<and> drop 7 a \<noteq> [] then Some (drop 7 a) else None)"

lemma example_bearer_push: "example_bearer (rq_authorization (push_request url ''t'' body)) = Some ''t''"
  by (simp add: example_bearer_def push_request_def)

definition example_service :: "http_request \<Rightarrow> database \<Rightarrow> http_reply \<times> database" where
  "example_service = serve example_bearer ''t'' (read_body plain_pydantic [])"

definition example_run :: run_in where
  "example_run = run_of_payload example_uuid example_payload"

lemma example_read: "read_body plain_pydantic fresh example_body = Some (Some example_run)"
  unfolding example_run_def
  by (rule read_body_payload [OF plain_pydantic_ok built_sendable(1) example_marshal, OF example_built
        example_years(1) example_stamps])

lemma example_run_valid: "valid_run example_run" "storable_run example_run"
proof -
  have "sanitize s = s" if "list_all plain s" for s
    using that by (intro sanitize_valid ascii_valid) (auto simp: ascii_def plain_def list_all_iff)
  note simps = example_run_def example_payload_def buildPayload_def push_results_eq pushable_def
    example_result_def push_result_def run_of_payload_def result_of_push_def node_of_push_def
    newResult_def example_target_def omitempty_def failedPhase_def plain_def this
  show "valid_run example_run"
    by (simp add: simps valid_run_def valid_result_def valid_node_def char_count_def)
  show "storable_run example_run"
    by (simp add: simps storable_run_def storable_result_def storable_node_def storable_def seen_nodes_def)
qed

lemma example_accepts: "created (fst (example_service (push_request ''u'' ''t'' example_body) d))"
proof -
  have "rq_body (push_request ''u'' ''t'' example_body) = example_body" "ascii ''t''"
    by (simp_all add: push_request_def ascii_def)
  then show ?thesis
    using ingest_created [of example_run d] example_run_valid
    by (auto simp: example_service_def serve_def runs_endpoint_def post_runs_def created_def example_read
        example_bearer_push)
qed

lemma example_honest: "honest example_push_world example_service created (\<lambda>h. True) h d"
  using example_accepts
  by (auto simp: honest_def example_push_world_def success_def split: if_splits)

lemma example_push:
  "\<exists>h'. pushResults example_push_world ''u'' ''t'' example_payload [] = (None, h') \<and> length (posts h') = 2"
  by (simp add: pushResults_def example_marshal backoff_def postOnce_def example_push_world_def
      push_request_def Let_def)

text \<open>A network that delivers every request and every answer.\<close>

definition faithful_world ::
  "(http_request \<Rightarrow> database \<Rightarrow> http_reply \<times> database) \<Rightarrow> database \<Rightarrow> push_world" where
  "faithful_world srv d =
     \<lparr>pw_bad_url = (\<lambda>u. None),
      pw_do = (\<lambda>h. case h of
                 Post req # _ \<Rightarrow> Response (status_code (fst (srv req d))) [] []
               | _ \<Rightarrow> DoErr ''EOF''),
      pw_wait = (\<lambda>h. None)\<rparr>"

subsection \<open>A targets file and a run of the program\<close>

lemma example_target_clean: "clean_target (example_target [] None) = example_target [] None"
  by (simp add: clean_target_def example_target_def sanitize_valid ascii_valid)

lemma example_target_writable: "list_all writable_target [example_target [] None]"
  by (simp add: writable_target_def example_target_def)

lemma example_probeable: "probeable W (example_target [] None)"
  by (simp add: probeable_def kind_of_def defaultProto_def example_target_def)

lemma example_udp_loaded:
  "\<exists>h. loadTargets (example_world clock answer env) path
     (Inr (compact (targets_tree [example_target ''udp'' None]))) [] = (Inr [example_target ''udp'' None], h)"
proof -
  let ?t = "example_target ''udp'' None"
  have "list_all writable_target [?t]" by (simp add: writable_target_def example_target_def)
  moreover have "clean_target ?t = ?t"
    by (simp add: clean_target_def example_target_def sanitize_valid ascii_valid)
  moreover have "probeable W ?t" for W
    by (simp add: probeable_def kind_of_def example_target_def parseUDPParams_def udp_zero_def udp_payload_def
        check_attempts_def)
  ultimately show ?thesis by (subst loadTargets_iff) (simp_all add: file_targets_written(1))
qed

definition example_file :: file_answer where
  "example_file = Inr (compact (targets_tree [example_target [] None]))"

lemma example_loaded:
  "\<exists>h. loadTargets (example_world clock answer env) path example_file [] = (Inr [example_target [] None], h)"
  by (subst loadTargets_iff)
    (simp_all add: example_file_def file_targets_written(1) [OF example_target_writable]
      example_target_clean example_probeable)

definition example_environment :: environment where
  "example_environment =
     \<lparr>ev_version = ''dev'', ev_usage = [], ev_world = example_world (\<lambda>h. 0) late_answer [],
      ev_file = (\<lambda>path. example_file), ev_sort = (\<lambda>less rs. rs), ev_hostname = Inr ''probe'',
      ev_push = (\<lambda>timeout. example_push_world)\<rparr>"

lemma example_stamped:
  "list_all (\<lambda>r. marshalable (r_Timestamp r))
     (runAll_results (\<lambda>i. example_world (\<lambda>h. 0) late_answer []) targets timeout)"
proof -
  have "r_Timestamp (the (probe_job (\<lambda>i. example_world (\<lambda>h. 0) late_answer []) targets timeout i)) = 0" for i
  proof -
    obtain r h where "probe (example_world (\<lambda>h. 0) late_answer []) (targets ! i) timeout [] = Some (r, h)"
      using probe_total [of "example_world (\<lambda>h. 0) late_answer []" "targets ! i" timeout "[]"] by auto
    then show ?thesis by (simp add: probe_job_def sys_now_def)
  qed
  then show ?thesis using example_years(1) by (simp add: runAll_results_def list_all_iff py_range_def)
qed

text \<open>A planner that leaves the rows as they are.\<close>

definition example_planner :: planner where
  "example_planner = \<lparr>pl_joined = (\<lambda>xs. xs), pl_nodes = (\<lambda>xs. xs), pl_results = (\<lambda>xs. xs)\<rparr>"

lemma example_planner_ok: "planner_ok example_planner"
  by (simp add: planner_ok_def example_planner_def)

text \<open>A node with two results, the older one stored first.\<close>

definition example_history :: database where
  "example_history =
     (let r = \<lparr>res_id = 1, res_node_id = 1, res_run_id = 1, res_ts = 10, res_tcp_ok = True, res_tls_ok = True,
               res_latency_ms = None, res_error = None, res_failed_phase = None\<rparr>
      in empty_db\<lparr>db_nodes := [\<lparr>nd_id = 1, nd_name = ''de'', nd_addr = ''a'', nd_sni = [], nd_provider = None\<rparr>],
           db_results := [r, r\<lparr>res_id := 2, res_ts := 20\<rparr>]\<rparr>)"

lemma example_history_phases: "phases_known example_history"
  by (simp add: phases_known_def known_phase_def example_history_def)

lemma phases_known_empty: "phases_known empty_db"
  by (simp add: phases_known_def empty_db_def)

end
