(* ===== verification/Golden.thy ===== *)
theory Golden
  imports Prom LoadTargets Report
begin

text \<open>
  The fixture of golden_test.go: three targets without a protocol (testdata/targets_legacy.json),
  the outcomes the TLS prober would have returned for them, and the two texts the program
  produced before probers existed (testdata/golden.prom, testdata/golden.json), line by line.
\<close>

subsection \<open>The fixture\<close>

definition legacy_tree :: json where
  "legacy_tree = JArr
     [JObj [(''name'', JStr ''de-fra-01''), (''addr'', JStr ''1.2.3.4:443''),
            (''sni'', JStr ''www.microsoft.com''), (''region'', JStr ''de'')],
      JObj [(''name'', JStr ''nl-ams-01''), (''addr'', JStr ''5.6.7.8:443''),
            (''sni'', JStr ''www.cloudflare.com''), (''region'', JStr ''nl''),
            (''provider'', JStr ''vultr'')],
      JObj [(''name'', JStr ''self-test''), (''addr'', JStr ''127.0.0.1:1''),
            (''sni'', JStr ''example.com''), (''region'', JStr ''local'')]]"

definition targets_legacy :: "string list" where
  "targets_legacy =
     [''['',
      ''  {'',
      ''    \"name\": \"de-fra-01\",'',
      ''    \"addr\": \"1.2.3.4:443\",'',
      ''    \"sni\": \"www.microsoft.com\",'',
      ''    \"region\": \"de\"'',
      ''  },'',
      ''  {'',
      ''    \"name\": \"nl-ams-01\",'',
      ''    \"addr\": \"5.6.7.8:443\",'',
      ''    \"sni\": \"www.cloudflare.com\",'',
      ''    \"region\": \"nl\",'',
      ''    \"provider\": \"vultr\"'',
      ''  },'',
      ''  {'',
      ''    \"name\": \"self-test\",'',
      ''    \"addr\": \"127.0.0.1:1\",'',
      ''    \"sni\": \"example.com\",'',
      ''    \"region\": \"local\"'',
      ''  }'',
      '']'']"

definition legacyOutcomes :: "outcome list" where
  "legacyOutcomes =
     [\<lparr>o_Phases =
         [\<lparr>ph_Name = phaseTCP, ph_OK = True, ph_Duration = 31000000, ph_Err = []\<rparr>,
          \<lparr>ph_Name = phaseTLS, ph_OK = True, ph_Duration = 82000000, ph_Err = []\<rparr>],
       o_TLS = Some \<lparr>ServerName = ''www.microsoft.com'', tls_Version = ''1.3'', tls_ALPN = ''h2'',
                     tls_CertCN = ''www.microsoft.com'', tls_CertMatch = True\<rparr>,
       o_NoLivenessClaim = False\<rparr>,
      \<lparr>o_Phases =
         [\<lparr>ph_Name = phaseTCP, ph_OK = True, ph_Duration = 24000000, ph_Err = []\<rparr>,
          \<lparr>ph_Name = phaseTLS, ph_OK = False, ph_Duration = 191000000,
           ph_Err = ''remote error: tls: handshake failure''\<rparr>],
       o_TLS = Some \<lparr>ServerName = ''www.cloudflare.com'', tls_Version = [], tls_ALPN = [],
                     tls_CertCN = [], tls_CertMatch = False\<rparr>,
       o_NoLivenessClaim = False\<rparr>,
      \<lparr>o_Phases =
         [\<lparr>ph_Name = phaseTCP, ph_OK = False, ph_Duration = 1000000,
           ph_Err = ''dial tcp 127.0.0.1:1: connect: connection refused''\<rparr>],
       o_TLS = Some \<lparr>ServerName = ''example.com'', tls_Version = [], tls_ALPN = [],
                     tls_CertCN = [], tls_CertMatch = False\<rparr>,
       o_NoLivenessClaim = False\<rparr>]"

text \<open>The timestamp every result is given: 2026-08-04, noon UTC.\<close>

definition legacyResults :: "result list" where
  "legacyResults =
     map (\<lambda>(t, o'). (the (toResult t o'))\<lparr>r_Timestamp := 1785844800 * 1000000000\<rparr>)
       (zip (file_targets (Inr (unlines targets_legacy))) legacyOutcomes)"

definition golden_prom :: "string list" where
  "golden_prom =
     [''# HELP vpnnode_up Node is reachable (both TCP and TLS succeeded)'',
      ''# TYPE vpnnode_up gauge'',
      ''vpnnode_up{node=\"de-fra-01\",region=\"de\"} 1'',
      ''vpnnode_up{node=\"nl-ams-01\",region=\"nl\"} 0'',
      ''vpnnode_up{node=\"self-test\",region=\"local\"} 0'',
      ''# HELP vpnnode_tcp_connect_seconds Time spent on the TCP connect phase'',
      ''# TYPE vpnnode_tcp_connect_seconds gauge'',
      ''vpnnode_tcp_connect_seconds{node=\"de-fra-01\",region=\"de\"} 0.0310'',
      ''vpnnode_tcp_connect_seconds{node=\"nl-ams-01\",region=\"nl\"} 0.0240'',
      ''vpnnode_tcp_connect_seconds{node=\"self-test\",region=\"local\"} 0.0010'',
      ''# HELP vpnnode_tls_handshake_seconds Time spent on the TLS handshake phase'',
      ''# TYPE vpnnode_tls_handshake_seconds gauge'',
      ''vpnnode_tls_handshake_seconds{node=\"de-fra-01\",region=\"de\"} 0.0820'',
      ''vpnnode_tls_handshake_seconds{node=\"nl-ams-01\",region=\"nl\"} 0.1910'',
      ''vpnnode_tls_handshake_seconds{node=\"self-test\",region=\"local\"} 0.0000'',
      ''# HELP vpnnode_cert_match Presented certificate matches the expected SNI'',
      ''# TYPE vpnnode_cert_match gauge'',
      ''vpnnode_cert_match{node=\"de-fra-01\",region=\"de\"} 1'',
      ''vpnnode_cert_match{node=\"nl-ams-01\",region=\"nl\"} 0'',
      ''vpnnode_cert_match{node=\"self-test\",region=\"local\"} 0'',
      ''# HELP vpnnode_initiation_sent A valid protocol initiation was sent and not contradicted; not a liveness signal'',
      ''# TYPE vpnnode_initiation_sent gauge'']"

definition golden_json :: "string list" where
  "golden_json =
     [''['',
      ''  {'',
      ''    \"name\": \"de-fra-01\",'',
      ''    \"addr\": \"1.2.3.4:443\",'',
      ''    \"sni\": \"www.microsoft.com\",'',
      ''    \"region\": \"de\",'',
      ''    \"ok\": true,'',
      ''    \"tcp_ok\": true,'',
      ''    \"tls_ok\": true,'',
      ''    \"ts\": \"2026-08-04T12:00:00Z\",'',
      ''    \"tcp_seconds\": 0.031,'',
      ''    \"tls_seconds\": 0.082,'',
      ''    \"tls_version\": \"1.3\",'',
      ''    \"alpn\": \"h2\",'',
      ''    \"cert_cn\": \"www.microsoft.com\",'',
      ''    \"cert_match\": true'',
      ''  },'',
      ''  {'',
      ''    \"name\": \"nl-ams-01\",'',
      ''    \"addr\": \"5.6.7.8:443\",'',
      ''    \"sni\": \"www.cloudflare.com\",'',
      ''    \"region\": \"nl\",'',
      ''    \"provider\": \"vultr\",'',
      ''    \"ok\": false,'',
      ''    \"tcp_ok\": true,'',
      ''    \"tls_ok\": false,'',
      ''    \"ts\": \"2026-08-04T12:00:00Z\",'',
      ''    \"tcp_seconds\": 0.024,'',
      ''    \"tls_seconds\": 0.191,'',
      ''    \"cert_match\": false,'',
      ''    \"error\": \"tls: remote error: tls: handshake failure\"'',
      ''  },'',
      ''  {'',
      ''    \"name\": \"self-test\",'',
      ''    \"addr\": \"127.0.0.1:1\",'',
      ''    \"sni\": \"example.com\",'',
      ''    \"region\": \"local\",'',
      ''    \"ok\": false,'',
      ''    \"tcp_ok\": false,'',
      ''    \"tls_ok\": false,'',
      ''    \"ts\": \"2026-08-04T12:00:00Z\",'',
      ''    \"tcp_seconds\": 0.001,'',
      ''    \"tls_seconds\": 0,'',
      ''    \"cert_match\": false,'',
      ''    \"error\": \"tcp: dial tcp 127.0.0.1:1: connect: connection refused\"'',
      ''  }'',
      '']'']"

subsection \<open>Rendering it\<close>

text \<open>The targets file is the indented text of its tree.\<close>

lemma indents:
  "two_spaces 0 = [nl]" "two_spaces (Suc 0) = nl # ''  ''" "two_spaces (Suc (Suc 0)) = nl # ''    ''"
  by (simp_all add: two_spaces_def numeral_eq_Suc)

lemma quoted: "list_all plain s \<Longrightarrow> quote s = CHR 0x22 # s @ [CHR 0x22]"
  by (simp add: quote_plain dquote_def)

lemma legacy_text: "unlines targets_legacy = indented legacy_tree"
  by (simp add: targets_legacy_def legacy_tree_def unlines_def indented_def indents quoted plain_def)

lemma legacy_parsed: "parse_json (unlines targets_legacy) = Some legacy_tree"
proof -
  have "well_formed legacy_tree" "depth legacy_tree \<le> max_depth" "all_utf8 legacy_tree"
    by (simp_all add: legacy_tree_def max_depth_def ascii_valid ascii_def)
  then show ?thesis by (simp add: legacy_text parse_indented cleaned_valid)
qed

lemma legacy_targets: "file_targets (Inr (unlines targets_legacy)) =
   [\<lparr>t_Name = ''de-fra-01'', t_Addr = ''1.2.3.4:443'', t_SNI = ''www.microsoft.com'', t_Region = ''de'',
     t_Provider = [], t_Proto = [], t_Params = None\<rparr>,
    \<lparr>t_Name = ''nl-ams-01'', t_Addr = ''5.6.7.8:443'', t_SNI = ''www.cloudflare.com'', t_Region = ''nl'',
     t_Provider = ''vultr'', t_Proto = [], t_Params = None\<rparr>,
    \<lparr>t_Name = ''self-test'', t_Addr = ''127.0.0.1:1'', t_SNI = ''example.com'', t_Region = ''local'',
     t_Provider = [], t_Proto = [], t_Params = None\<rparr>]"
  by (simp add: file_targets_def unmarshal_text_def legacy_parsed)
    (simp add: unmarshal_targets_def legacy_tree_def decode_struct_def
      find_field_def target_fields_def zero_target_def store_string_def fold_char_def Let_def)
lemma decimal4_values:
  "decimal4 310 = ''0.0310''" "decimal4 820 = ''0.0820''" "decimal4 240 = ''0.0240''"
  "decimal4 1910 = ''0.1910''" "decimal4 10 = ''0.0010''" "decimal4 0 = ''0.0000''"
  by (simp_all add: decimal4_def pad4_def show_nat.simps digit_chars)

lemma legacy_seconds:
  "fmt_f4 (seconds 31000000) = ''0.0310''" "fmt_f4 (seconds 82000000) = ''0.0820''"
  "fmt_f4 (seconds 24000000) = ''0.0240''" "fmt_f4 (seconds 191000000) = ''0.1910''"
  "fmt_f4 (seconds 1000000) = ''0.0010''" "fmt_f4 (seconds 0) = ''0.0000''"
  using fmt_seconds [of 31000000] fmt_seconds [of 82000000] fmt_seconds [of 24000000]
    fmt_seconds [of 191000000] fmt_seconds [of 1000000] fmt_seconds [of 0]
  by (simp_all add: decimal4_values del: seconds_0)

lemma show_bits: "show_nat (boolToInt True) = ''1''" "show_nat (boolToInt False) = ''0''"
  by (simp_all add: boolToInt_def show_nat.simps digit_chars)

lemma legacyResults_eq:
  "map (\<lambda>r. (t_Name (r_Target r), t_Region (r_Target r), up_value r, tcp_value r, tls_value r,
          cert_value r, initiation_value r)) legacyResults =
   [(''de-fra-01'', ''de'', Some ''1'', Some ''0.0310'', Some ''0.0820'', Some ''1'', None),
    (''nl-ams-01'', ''nl'', Some ''0'', Some ''0.0240'', Some ''0.1910'', Some ''0'', None),
    (''self-test'', ''local'', Some ''0'', Some ''0.0010'', Some ''0.0000'', Some ''0'', None)]"
  unfolding legacyResults_def legacy_targets legacyOutcomes_def
  by (simp add: toResult_eq shaped_def legacy_shape_def newResult_def apply_tls_info_def
      set_verdict_def failed_def usesLegacyPhases_def phase_names Let_def up_value_def tcp_value_def
      tls_value_def cert_value_def initiation_value_def show_bits legacy_seconds
      legacy_seconds(6) [simplified])

fun render_lines :: "string \<Rightarrow> (string \<times> string \<times> string option) list \<Rightarrow> string list" where
  "render_lines metric [] = []"
| "render_lines metric ((n, g, None) # ds) = render_lines metric ds"
| "render_lines metric ((n, g, Some w) # ds) =
     (metric @ ''{'' @ labels n g @ ''} '' @ w) # render_lines metric ds"

lemma sample_lines_render:
  "sample_lines metric val rs =
     render_lines metric (map (\<lambda>r. (t_Name (r_Target r), t_Region (r_Target r), val r)) rs)"
  by (induction rs) (auto simp: sample_lines_def sample_line_def result_labels_def)

lemma legacy_samples:
  "map (\<lambda>r. (t_Name (r_Target r), t_Region (r_Target r), up_value r)) legacyResults =
     [(''de-fra-01'', ''de'', Some ''1''), (''nl-ams-01'', ''nl'', Some ''0''),
      (''self-test'', ''local'', Some ''0'')]"
  "map (\<lambda>r. (t_Name (r_Target r), t_Region (r_Target r), tcp_value r)) legacyResults =
     [(''de-fra-01'', ''de'', Some ''0.0310''), (''nl-ams-01'', ''nl'', Some ''0.0240''),
      (''self-test'', ''local'', Some ''0.0010'')]"
  "map (\<lambda>r. (t_Name (r_Target r), t_Region (r_Target r), tls_value r)) legacyResults =
     [(''de-fra-01'', ''de'', Some ''0.0820''), (''nl-ams-01'', ''nl'', Some ''0.1910''),
      (''self-test'', ''local'', Some ''0.0000'')]"
  "map (\<lambda>r. (t_Name (r_Target r), t_Region (r_Target r), cert_value r)) legacyResults =
     [(''de-fra-01'', ''de'', Some ''1''), (''nl-ams-01'', ''nl'', Some ''0''),
      (''self-test'', ''local'', Some ''0'')]"
  "map (\<lambda>r. (t_Name (r_Target r), t_Region (r_Target r), initiation_value r)) legacyResults =
     [(''de-fra-01'', ''de'', None), (''nl-ams-01'', ''nl'', None), (''self-test'', ''local'', None)]"
proof -
  obtain a b c where abc: "legacyResults = [a, b, c]"
    using legacyResults_eq by auto
  note eqs = legacyResults_eq [unfolded abc]
  show "map (\<lambda>r. (t_Name (r_Target r), t_Region (r_Target r), up_value r)) legacyResults =
     [(''de-fra-01'', ''de'', Some ''1''), (''nl-ams-01'', ''nl'', Some ''0''),
      (''self-test'', ''local'', Some ''0'')]" using eqs unfolding abc by simp
  show "map (\<lambda>r. (t_Name (r_Target r), t_Region (r_Target r), tcp_value r)) legacyResults =
     [(''de-fra-01'', ''de'', Some ''0.0310''), (''nl-ams-01'', ''nl'', Some ''0.0240''),
      (''self-test'', ''local'', Some ''0.0010'')]" using eqs unfolding abc by simp
  show "map (\<lambda>r. (t_Name (r_Target r), t_Region (r_Target r), tls_value r)) legacyResults =
     [(''de-fra-01'', ''de'', Some ''0.0820''), (''nl-ams-01'', ''nl'', Some ''0.1910''),
      (''self-test'', ''local'', Some ''0.0000'')]" using eqs unfolding abc by simp
  show "map (\<lambda>r. (t_Name (r_Target r), t_Region (r_Target r), cert_value r)) legacyResults =
     [(''de-fra-01'', ''de'', Some ''1''), (''nl-ams-01'', ''nl'', Some ''0''),
      (''self-test'', ''local'', Some ''0'')]" using eqs unfolding abc by simp
  show "map (\<lambda>r. (t_Name (r_Target r), t_Region (r_Target r), initiation_value r)) legacyResults =
     [(''de-fra-01'', ''de'', None), (''nl-ams-01'', ''nl'', None),
      (''self-test'', ''local'', None)]" using eqs unfolding abc by simp
qed

lemma legacy_labels:
  "labels ''de-fra-01'' ''de'' = ''node=\"de-fra-01\",region=\"de\"''"
  "labels ''nl-ams-01'' ''nl'' = ''node=\"nl-ams-01\",region=\"nl\"''"
  "labels ''self-test'' ''local'' = ''node=\"self-test\",region=\"local\"''"
  by (simp_all add: labels_def escapeLabel_single_pass escape_char_def)

lemma golden_text: "writeProm legacyResults = unlines golden_prom"
  unfolding writeProm_unlines prom_lines_def sample_lines_render legacy_samples
  by (rule arg_cong [where f = unlines]) (simp add: legacy_labels family_lines_def golden_prom_def)

subsection \<open>The report\<close>

lemma legacy_floats:
  "json_float (seconds 31000000) = ''0.031''" "json_float (seconds 82000000) = ''0.082''"
  "json_float (seconds 24000000) = ''0.024''" "json_float (seconds 191000000) = ''0.191''"
  "json_float (seconds 1000000) = ''0.001''" "json_float (seconds 0) = ''0''"
proof -
  have milli: "(10 :: rat) powi - 3 = 1 / 1000" by (simp add: power_int_def power_one_over)
  have digits: "show_nat 31 = ''31''" "show_nat 82 = ''82''" "show_nat 24 = ''24''"
    "show_nat 191 = ''191''" "show_nat 1 = ''1''" "show_nat (Suc 0) = ''1''"
    by (simp_all add: show_nat.simps digit_chars)
  show "json_float (seconds 31000000) = ''0.031''"
    using json_float_subsecond [of 31000000 31 "-3"] by (simp add: milli digits fixed_layout_def)
  show "json_float (seconds 82000000) = ''0.082''"
    using json_float_subsecond [of 82000000 82 "-3"] by (simp add: milli digits fixed_layout_def)
  show "json_float (seconds 24000000) = ''0.024''"
    using json_float_subsecond [of 24000000 24 "-3"] by (simp add: milli digits fixed_layout_def)
  show "json_float (seconds 191000000) = ''0.191''"
    using json_float_subsecond [of 191000000 191 "-3"] by (simp add: milli digits fixed_layout_def)
  show "json_float (seconds 1000000) = ''0.001''"
    using json_float_subsecond [of 1000000 1 "-3"]
    by (simp add: milli digits fixed_layout_def numeral_eq_Suc)
  show "json_float (seconds 0) = ''0''" by (simp add: json_float_def)
qed

lemma legacy_time:
  "marshalable (1785844800 * 1000000000)" "rfc3339 (1785844800 * 1000000000) = ''2026-08-04T12:00:00Z''"
proof -
  have day: "civil 20669 = (2026, 8, 4)"
    by code_simp
  then show "marshalable (1785844800 * 1000000000)" by (simp add: marshalable_def)
  have "rfc3339 (1785844800 * 1000000000) =
      fixed_digits 4 2026 @ CHR ''-'' # fixed_digits 2 8 @ CHR ''-'' # fixed_digits 2 4 @
      CHR ''T'' # fixed_digits 2 12 @ CHR '':'' # fixed_digits 2 0 @ CHR '':'' # fixed_digits 2 0 @
      fraction_text 0 @ ''Z''"
    using day by (simp add: rfc3339_def)
  also have "\<dots> = ''2026-08-04T12:00:00Z''"
    by (simp only: fixed_digits_2_4) (simp add: digit_chars fraction_text_def)
  finally show "rfc3339 (1785844800 * 1000000000) = ''2026-08-04T12:00:00Z''" .
qed

lemma legacy_report:
  "report_tree legacyResults = JArr
     [JObj [(''name'', JStr ''de-fra-01''), (''addr'', JStr ''1.2.3.4:443''),
        (''sni'', JStr ''www.microsoft.com''), (''region'', JStr ''de''), (''ok'', JBool True),
        (''tcp_ok'', JBool True), (''tls_ok'', JBool True), (''ts'', JStr ''2026-08-04T12:00:00Z''),
        (''tcp_seconds'', JNum ''0.031''), (''tls_seconds'', JNum ''0.082''),
        (''tls_version'', JStr ''1.3''), (''alpn'', JStr ''h2''), (''cert_cn'', JStr ''www.microsoft.com''),
        (''cert_match'', JBool True)],
      JObj [(''name'', JStr ''nl-ams-01''), (''addr'', JStr ''5.6.7.8:443''),
        (''sni'', JStr ''www.cloudflare.com''), (''region'', JStr ''nl''), (''provider'', JStr ''vultr''),
        (''ok'', JBool False), (''tcp_ok'', JBool True), (''tls_ok'', JBool False),
        (''ts'', JStr ''2026-08-04T12:00:00Z''), (''tcp_seconds'', JNum ''0.024''),
        (''tls_seconds'', JNum ''0.191''), (''cert_match'', JBool False),
        (''error'', JStr ''tls: remote error: tls: handshake failure'')],
      JObj [(''name'', JStr ''self-test''), (''addr'', JStr ''127.0.0.1:1''), (''sni'', JStr ''example.com''),
        (''region'', JStr ''local''), (''ok'', JBool False), (''tcp_ok'', JBool False),
        (''tls_ok'', JBool False), (''ts'', JStr ''2026-08-04T12:00:00Z''),
        (''tcp_seconds'', JNum ''0.001''), (''tls_seconds'', JNum ''0''), (''cert_match'', JBool False),
        (''error'', JStr ''tcp: dial tcp 127.0.0.1:1: connect: connection refused'')]]"
  unfolding legacyResults_def legacy_targets legacyOutcomes_def
  by (simp add: toResult_eq shaped_def legacy_shape_def newResult_def apply_tls_info_def set_verdict_def
      failed_def usesLegacyPhases_def phase_names Let_def report_tree_def result_tree_def
      target_members_def always_def omit_empty_def omit_nil_def omit_empty_list_def float_tree_def
      time_tree_def legacy_floats legacy_floats(6) [simplified] legacy_time [simplified])

lemma legacy_stamps: "list_all (\<lambda>r. marshalable (r_Timestamp r)) legacyResults"
  unfolding legacyResults_def using legacy_time(1) by (auto simp: list_all_iff)

lemma golden_report: "encodeResults legacyResults = Inr (unlines golden_json)"
proof -
  have "indented (report_tree legacyResults) = unlines golden_json"
    unfolding legacy_report golden_json_def
    by (simp add: unlines_def indented_def indents quoted plain_def)
  then show ?thesis by (simp add: encodeResults_def legacy_stamps)
qed

end
