(* ===== verification/IngestConcurrent.thy ===== *)
theory IngestConcurrent
  imports Ingest "HOL-Library.Multiset"
begin

text \<open>
  Concurrent requests to \<open>POST /v1/runs\<close>: the handler of ingest.py as a transaction that takes one
  statement at a time, while other requests run theirs. The database is PostgreSQL at its default
  isolation level: a statement sees what is committed and what its own transaction wrote, an
  insert that meets an uncommitted row with the same unique key waits for the other transaction,
  and a transaction that fails, or is chosen to break a deadlock, is rolled back.
\<close>

subsection \<open>Transactions\<close>

text \<open>
  Where a request stands: before the first query; a run with its id was found, its results are
  not counted yet; none was found; the run is inserted and some nodes are still to be (with the
  rows inserted by this transaction); all nodes are there and looked up; answered.
\<close>

datatype tx =
    Arrived run_in
  | Known run_in run_row
  | Unknown run_in
  | Inserting run_in run_row "node_ref list" "node_row list"
  | Resolved run_in run_row "node_row list" "((string \<times> string) \<times> nat) list"
  | Replied run_in http_reply

record server =
  sv_db :: database
  sv_txs :: "tx list"

primrec tx_run :: "tx \<Rightarrow> run_in" where
  "tx_run (Arrived p) = p"
| "tx_run (Known p e) = p"
| "tx_run (Unknown p) = p"
| "tx_run (Inserting p run todo own) = p"
| "tx_run (Resolved p run own ids) = p"
| "tx_run (Replied p r) = p"

text \<open>Rows that are written and not committed.\<close>

primrec own_runs :: "tx \<Rightarrow> run_row list" where
  "own_runs (Arrived p) = []"
| "own_runs (Known p e) = []"
| "own_runs (Unknown p) = []"
| "own_runs (Inserting p run todo own) = [run]"
| "own_runs (Resolved p run own ids) = [run]"
| "own_runs (Replied p r) = []"

primrec own_nodes :: "tx \<Rightarrow> node_row list" where
  "own_nodes (Arrived p) = []"
| "own_nodes (Known p e) = []"
| "own_nodes (Unknown p) = []"
| "own_nodes (Inserting p run todo own) = own"
| "own_nodes (Resolved p run own ids) = own"
| "own_nodes (Replied p r) = []"

definition pending_runs :: "tx list \<Rightarrow> run_row list" where
  "pending_runs ts = concat (map own_runs ts)"

definition pending_nodes :: "tx list \<Rightarrow> node_row list" where
  "pending_nodes ts = concat (map own_nodes ts)"

lemma pending_simps [simp]:
  "pending_runs [] = []" "pending_nodes [] = []"
  "pending_runs (t # ts) = own_runs t @ pending_runs ts"
  "pending_nodes (t # ts) = own_nodes t @ pending_nodes ts"
  "pending_runs (ts @ us) = pending_runs ts @ pending_runs us"
  "pending_nodes (ts @ us) = pending_nodes ts @ pending_nodes us"
  by (simp_all add: pending_runs_def pending_nodes_def)

definition commit_rows :: "run_row \<Rightarrow> node_row list \<Rightarrow> database \<Rightarrow> database" where
  "commit_rows run own d = d\<lparr>db_nodes := db_nodes d @ own, db_runs := db_runs d @ [run]\<rparr>"

text \<open>
  One statement of one transaction. Sequences give out values at once, whatever becomes of the
  transaction. There is no rule for an insert that has to wait.
\<close>

inductive ingest_step :: "server \<Rightarrow> server \<Rightarrow> bool" where
  arrive:
    "ingest_step s (s\<lparr>sv_txs := sv_txs s @ [Arrived p]\<rparr>)"
| find:
    "sv_txs s = xs @ Arrived p # ys \<Longrightarrow> find_run (rn_run_id p) (sv_db s) = Some e \<Longrightarrow>
     ingest_step s (s\<lparr>sv_txs := xs @ Known p e # ys\<rparr>)"
| miss:
    "sv_txs s = xs @ Arrived p # ys \<Longrightarrow> find_run (rn_run_id p) (sv_db s) = None \<Longrightarrow>
     ingest_step s (s\<lparr>sv_txs := xs @ Unknown p # ys\<rparr>)"
| count:
    "sv_txs s = xs @ Known p e # ys \<Longrightarrow>
     ingest_step s (s\<lparr>sv_txs := xs @ Replied p (Created \<lparr>ra_run_id = rn_run_id p,
       ra_stored_results = length (filter (\<lambda>r. res_run_id r = run_id e) (db_results (sv_db s))),
       ra_duplicate = True\<rparr>) # ys\<rparr>)"
| insert_run:
    "sv_txs s = xs @ Unknown p # ys \<Longrightarrow> storable_run p \<Longrightarrow>
     rn_run_id p \<notin> run_external_id ` set (db_runs (sv_db s) @ pending_runs (sv_txs s)) \<Longrightarrow>
     ingest_step s (s\<lparr>sv_db := (sv_db s)\<lparr>db_next_run := Suc (db_next_run (sv_db s))\<rparr>,
       sv_txs := xs @ Inserting p (new_run p (sv_db s)) (map snd (seen_nodes (rn_results p))) [] # ys\<rparr>)"
| run_exists:
    "sv_txs s = xs @ Unknown p # ys \<Longrightarrow> find_run (rn_run_id p) (sv_db s) = Some e \<Longrightarrow>
     ingest_step s (s\<lparr>sv_db := (sv_db s)\<lparr>db_next_run := Suc (db_next_run (sv_db s))\<rparr>,
       sv_txs := xs @ Replied p ServerError # ys\<rparr>)"
| insert_node:
    "sv_txs s = xs @ Inserting p run (n # todo) own # ys \<Longrightarrow>
     ref_key n \<notin> node_key ` set (db_nodes (sv_db s) @ pending_nodes (sv_txs s)) \<Longrightarrow>
     ingest_step s (s\<lparr>sv_db := (sv_db s)\<lparr>db_next_node := Suc (db_next_node (sv_db s))\<rparr>,
       sv_txs := xs @ Inserting p run todo (own @ [new_node n (sv_db s)]) # ys\<rparr>)"
| skip_node:
    "sv_txs s = xs @ Inserting p run (n # todo) own # ys \<Longrightarrow>
     ref_key n \<in> node_key ` set (db_nodes (sv_db s) @ own) \<Longrightarrow>
     ingest_step s (s\<lparr>sv_db := (sv_db s)\<lparr>db_next_node := Suc (db_next_node (sv_db s))\<rparr>,
       sv_txs := xs @ Inserting p run todo own # ys\<rparr>)"
| look_up:
    "sv_txs s = xs @ Inserting p run [] own # ys \<Longrightarrow>
     ingest_step s (s\<lparr>sv_txs :=
       xs @ Resolved p run own (node_ids (rn_results p) (db_nodes (sv_db s) @ own)) # ys\<rparr>)"
| commit:
    "sv_txs s = xs @ Resolved p run own ids # ys \<Longrightarrow>
     result_rows (run_id run) ids (db_next_result (sv_db s)) (rn_results p) = Some rows \<Longrightarrow>
     ingest_step s (s\<lparr>sv_db := store_rows rows (commit_rows run own (sv_db s)),
       sv_txs := xs @ Replied p (Created \<lparr>ra_run_id = rn_run_id p,
         ra_stored_results = length (rn_results p), ra_duplicate = False\<rparr>) # ys\<rparr>)"
| key_error:
    "sv_txs s = xs @ Resolved p run own ids # ys \<Longrightarrow>
     result_rows (run_id run) ids (db_next_result (sv_db s)) (rn_results p) = None \<Longrightarrow>
     ingest_step s (s\<lparr>sv_txs := xs @ Replied p ServerError # ys\<rparr>)"
| abort:
    "sv_txs s = xs @ t # ys \<Longrightarrow> (\<forall>p r. t \<noteq> Replied p r) \<Longrightarrow>
     ingest_step s (s\<lparr>sv_txs := xs @ Replied (tx_run t) ServerError # ys\<rparr>)"

inductive ingest_reach :: "database \<Rightarrow> server \<Rightarrow> bool" for d where
  start: "ingest_reach d \<lparr>sv_db = d, sv_txs = []\<rparr>"
| step: "ingest_reach d s \<Longrightarrow> ingest_step s s' \<Longrightarrow> ingest_reach d s'"

subsection \<open>What stays when the database grows\<close>

text \<open>Later commits add rows; what was stored of a run does not change.\<close>

definition grows :: "database \<Rightarrow> database \<Rightarrow> bool" where
  "grows d d' \<longleftrightarrow>
     set (db_nodes d) \<subseteq> set (db_nodes d') \<and>
     (\<forall>u r. find_run u d = Some r \<longrightarrow> find_run u d' = Some r \<and> run_results u d' = run_results u d)"

lemma grows_refl [simp]: "grows d d"
  by (simp add: grows_def)

lemma grows_sequences [simp]:
  "grows d (d\<lparr>db_next_run := n\<rparr>)" "grows d (d\<lparr>db_next_node := n\<rparr>)"
  by (simp_all add: grows_def find_run_def run_results_def)

lemma row_matches_grows: "grows d d' \<Longrightarrow> row_matches d q x \<Longrightarrow> row_matches d' q x"
  unfolding row_matches_def grows_def by blast

lemma find_append: "find P xs = Some x \<Longrightarrow> find P (xs @ ys) = Some x"
  by (induction xs) auto

lemma grows_commit:
  assumes "db_inv d" "run_id run \<notin> run_id ` set (db_runs d)"
    and "result_rows (run_id run) ids i rs = Some rows"
  shows "grows d (store_rows rows (commit_rows run own d))"
proof -
  have "find_run u (store_rows rows (commit_rows run own d)) = Some r \<and>
      run_results u (store_rows rows (commit_rows run own d)) = run_results u d"
    if f: "find_run u d = Some r" for u r
  proof -
    have found: "find_run u (commit_rows run own d) = Some r"
      using f by (simp add: find_run_def commit_rows_def find_append)
    have "run_id r \<noteq> run_id run" using find_run_Some [OF f] assms(2) by (metis imageI)
    then have "filter (\<lambda>x. res_run_id x = run_id r) rows = []"
      using result_rows_links(1) [OF assms(3)] by (auto simp: filter_empty_conv)
    moreover have "db_results (commit_rows run own d) = db_results d" by (simp add: commit_rows_def)
    ultimately show ?thesis unfolding run_results_def find_run_store found f by simp
  qed
  moreover have "db_nodes (store_rows rows (commit_rows run own d)) = db_nodes d @ own"
    by (simp add: commit_rows_def)
  ultimately show ?thesis unfolding grows_def by simp
qed

subsection \<open>The invariant\<close>

text \<open>What one transaction knows stays true while others commit.\<close>

primrec tx_ok :: "database \<Rightarrow> tx \<Rightarrow> bool" where
  "tx_ok d (Arrived p) = True"
| "tx_ok d (Known p e) = (find_run (rn_run_id p) d = Some e)"
| "tx_ok d (Unknown p) = True"
| "tx_ok d (Inserting p run todo own) =
     (run_external_id run = rn_run_id p \<and>
      (\<lambda>r. ref_key (ri_node r)) ` set (rn_results p) \<subseteq>
        ref_key ` set todo \<union> node_key ` set (db_nodes d @ own))"
| "tx_ok d (Resolved p run own ids) =
     (run_external_id run = rn_run_id p \<and> ids_stored ids (db_nodes d @ own) \<and>
      (\<forall>r \<in> set (rn_results p). \<exists>nid. map_of ids (ref_key (ri_node r)) = Some nid))"
| "tx_ok d (Replied p r) =
     (case r of
        Created a \<Rightarrow>
          find_run (rn_run_id p) d \<noteq> None \<and> ra_run_id a = rn_run_id p \<and>
          ra_stored_results a = length (run_results (rn_run_id p) d) \<and>
          (\<not> ra_duplicate a \<longrightarrow> list_all2 (row_matches d) (rn_results p) (run_results (rn_run_id p) d))
      | _ \<Rightarrow> True)"

lemma tx_ok_grows:
  assumes "tx_ok d t" "grows d d'"
  shows "tx_ok d' t"
proof (cases t)
  case (Inserting p run todo own)
  have "node_key ` set (db_nodes d @ own) \<subseteq> node_key ` set (db_nodes d' @ own)"
    using assms(2) by (auto simp: grows_def)
  then show ?thesis using assms(1) unfolding Inserting tx_ok.simps by blast
next
  case (Resolved p run own ids)
  have "set (db_nodes d @ own) \<subseteq> set (db_nodes d' @ own)" using assms(2) by (auto simp: grows_def)
  then show ?thesis using assms(1) ids_stored_mono by (auto simp: Resolved)
next
  case (Replied p r)
  show ?thesis
  proof (cases r)
    case (Created a)
    then obtain e where "find_run (rn_run_id p) d = Some e" using assms(1) by (auto simp: Replied)
    then have "find_run (rn_run_id p) d' = Some e" "run_results (rn_run_id p) d' = run_results (rn_run_id p) d"
      using assms(2) by (auto simp: grows_def)
    then show ?thesis
      using assms list_all2_mono [of "row_matches d"] row_matches_grows [OF assms(2)]
      by (auto simp: Replied Created)
  qed (simp_all add: Replied)
qed (use assms in \<open>auto simp: grows_def\<close>)

text \<open>Pending rows clash neither with committed ones nor with each other.\<close>

definition pending_ok :: "database \<Rightarrow> tx list \<Rightarrow> bool" where
  "pending_ok d ts \<longleftrightarrow>
     distinct (map nd_id (db_nodes d @ pending_nodes ts)) \<and>
     distinct (map node_key (db_nodes d @ pending_nodes ts)) \<and>
     distinct (map run_id (db_runs d @ pending_runs ts)) \<and>
     distinct (map run_external_id (db_runs d @ pending_runs ts)) \<and>
     (\<forall>n \<in> set (db_nodes d @ pending_nodes ts). nd_id n < db_next_node d) \<and>
     (\<forall>r \<in> set (db_runs d @ pending_runs ts). run_id r < db_next_run d)"

text \<open>The ids of the runs that transactions have stored.\<close>

primrec stored_id :: "tx \<Rightarrow> uuid list" where
  "stored_id (Arrived p) = []"
| "stored_id (Known p e) = []"
| "stored_id (Unknown p) = []"
| "stored_id (Inserting p run todo own) = []"
| "stored_id (Resolved p run own ids) = []"
| "stored_id (Replied p r) =
     (case r of Created a \<Rightarrow> if ra_duplicate a then [] else [rn_run_id p] | _ \<Rightarrow> [])"

definition stored_ids :: "tx list \<Rightarrow> uuid list" where
  "stored_ids ts = concat (map stored_id ts)"

lemma stored_ids_simps [simp]:
  "stored_ids [] = []" "stored_ids (t # ts) = stored_id t @ stored_ids ts"
  "stored_ids (ts @ us) = stored_ids ts @ stored_ids us"
  by (simp_all add: stored_ids_def)

definition server_inv :: "server \<Rightarrow> bool" where
  "server_inv s \<longleftrightarrow>
     db_inv (sv_db s) \<and> pending_ok (sv_db s) (sv_txs s) \<and>
     list_all (tx_ok (sv_db s)) (sv_txs s) \<and> distinct (stored_ids (sv_txs s))"

lemma stored_id_found: "tx_ok d t \<Longrightarrow> u \<in> set (stored_id t) \<Longrightarrow> find_run u d \<noteq> None"
  by (cases t) (auto split: http_reply.splits if_splits)

lemma stored_ids_found:
  "list_all (tx_ok d) ts \<Longrightarrow> u \<in> set (stored_ids ts) \<Longrightarrow> find_run u d \<noteq> None"
  by (induction ts) (auto dest: stored_id_found)

text \<open>A step that touches one transaction, and of the database at most its sequences.\<close>

lemma server_inv_move:
  assumes "server_inv s" "sv_txs s = xs @ t # ys"
    and "db_inv d" "grows (sv_db s) d" "pending_ok d (xs @ t' # ys)" "tx_ok d t'" "stored_id t' = []"
  shows "server_inv (s\<lparr>sv_db := d, sv_txs := xs @ t' # ys\<rparr>)"
  using assms by (auto simp: server_inv_def list_all_iff intro: tx_ok_grows)

lemma pending_ok_same:
  "pending_ok d (xs @ t # ys) \<Longrightarrow> own_runs t' = own_runs t \<Longrightarrow> own_nodes t' = own_nodes t \<Longrightarrow>
     pending_ok d (xs @ t' # ys)"
  by (simp add: pending_ok_def)

lemma pending_ok_drop:
  "pending_ok d (xs @ t # ys) \<Longrightarrow> own_runs t' = [] \<Longrightarrow> own_nodes t' = [] \<Longrightarrow> pending_ok d (xs @ t' # ys)"
  unfolding pending_ok_def by (simp add: Int_Un_distrib ball_Un)

lemma pending_ok_sequence:
  "pending_ok d ts \<Longrightarrow> pending_ok (d\<lparr>db_next_run := Suc (db_next_run d)\<rparr>) ts"
  "pending_ok d ts \<Longrightarrow> pending_ok (d\<lparr>db_next_node := Suc (db_next_node d)\<rparr>) ts"
  by (auto simp: pending_ok_def less_Suc_eq)

lemma db_inv_sequence:
  "db_inv d \<Longrightarrow> db_inv (d\<lparr>db_next_run := Suc (db_next_run d)\<rparr>)"
  "db_inv d \<Longrightarrow> db_inv (d\<lparr>db_next_node := Suc (db_next_node d)\<rparr>)"
  by (auto simp: db_inv_def less_Suc_eq)

subsection \<open>Every step keeps the invariant\<close>

lemma server_invD:
  assumes "server_inv s" "sv_txs s = xs @ t # ys"
  shows "db_inv (sv_db s)" "pending_ok (sv_db s) (xs @ t # ys)" "tx_ok (sv_db s) t"
    "list_all (tx_ok (sv_db s)) (xs @ ys)" "distinct (stored_ids (xs @ t # ys))"
  using assms by (auto simp: server_inv_def)

lemma find_run_notin:
  "find_run u d = None \<Longrightarrow> r \<in> set (db_runs d) \<Longrightarrow> run_external_id r \<noteq> u"
  unfolding find_run_None by blast

lemma pending_ok_insert_run:
  assumes "pending_ok d (xs @ t # ys)" "own_runs t = []" "own_nodes t = []"
    and "rn_run_id p \<notin> run_external_id ` set (db_runs d @ pending_runs (xs @ t # ys))"
  shows "pending_ok (d\<lparr>db_next_run := Suc (db_next_run d)\<rparr>) (xs @ Inserting p (new_run p d) todo [] # ys)"
proof -
  have "db_next_run d \<notin> run_id ` set (db_runs d @ pending_runs (xs @ t # ys))"
    using assms(1) by (auto simp: pending_ok_def)
  then show ?thesis
    using assms by (auto simp: pending_ok_def new_run_def less_Suc_eq)
qed

lemma pending_ok_insert_node:
  assumes "pending_ok d (xs @ Inserting p run (n # todo) own # ys)"
    and "ref_key n \<notin> node_key ` set (db_nodes d @ pending_nodes (xs @ Inserting p run (n # todo) own # ys))"
  shows "pending_ok (d\<lparr>db_next_node := Suc (db_next_node d)\<rparr>)
    (xs @ Inserting p run todo (own @ [new_node n d]) # ys)"
proof -
  have "db_next_node d \<notin> nd_id ` set (db_nodes d @ pending_nodes (xs @ Inserting p run (n # todo) own # ys))"
    using assms(1) by (auto simp: pending_ok_def)
  then show ?thesis
    using assms by (auto simp: pending_ok_def less_Suc_eq)
qed

lemma tx_ok_insert_run:
  "tx_ok d (Inserting p (new_run p d') (map snd (seen_nodes (rn_results p))) [])"
  using wanted_keys(2) [of "rn_results p"] by (auto simp: new_run_def)

lemma tx_ok_insert_node:
  assumes "tx_ok d (Inserting p run (n # todo) own)"
  shows "tx_ok d (Inserting p run todo (own @ [new_node n d]))"
  using assms unfolding tx_ok.simps by simp

lemma tx_ok_skip_node:
  assumes "tx_ok d (Inserting p run (n # todo) own)" "ref_key n \<in> node_key ` set (db_nodes d @ own)"
  shows "tx_ok d (Inserting p run todo own)"
proof -
  have "insert (ref_key n) A \<union> node_key ` set (db_nodes d @ own) = A \<union> node_key ` set (db_nodes d @ own)" for A
    using assms(2) by (simp add: insert_absorb)
  then show ?thesis using assms(1) unfolding tx_ok.simps list.set image_insert by (simp only: simp_thms)
qed

lemma tx_ok_look_up:
  assumes "tx_ok d (Inserting p run [] own)"
  shows "tx_ok d (Resolved p run own (node_ids (rn_results p) (db_nodes d @ own)))"
proof -
  have "\<exists>nid. map_of (node_ids (rn_results p) (db_nodes d @ own)) (ref_key (ri_node r)) = Some nid"
    if "r \<in> set (rn_results p)" for r
    using assms that by (intro node_ids_complete) auto
  then show ?thesis using assms node_ids_stored by simp
qed

lemma distinct_map_mset: "mset xs = mset ys \<Longrightarrow> distinct (map f xs) = distinct (map f ys)"
  by (rule mset_eq_imp_distinct_iff) (metis mset_map)

lemma pending_ok_perm:
  assumes "pending_ok d ts" "db_next_node d' = db_next_node d" "db_next_run d' = db_next_run d"
    and nodes: "mset (db_nodes d' @ pending_nodes ts') = mset (db_nodes d @ pending_nodes ts)"
    and runs: "mset (db_runs d' @ pending_runs ts') = mset (db_runs d @ pending_runs ts)"
  shows "pending_ok d' ts'"
  using assms(1)
  unfolding pending_ok_def assms(2,3) mset_eq_setD [OF nodes] mset_eq_setD [OF runs]
    distinct_map_mset [OF nodes] distinct_map_mset [OF runs] .

text \<open>A commit makes the rows of its transaction part of the database.\<close>

lemma commit_inv:
  assumes "server_inv s" "sv_txs s = xs @ Resolved p run own ids # ys"
    and rows: "result_rows (run_id run) ids (db_next_result (sv_db s)) (rn_results p) = Some rows"
  shows "server_inv (s\<lparr>sv_db := store_rows rows (commit_rows run own (sv_db s)),
    sv_txs := xs @ Replied p (Created \<lparr>ra_run_id = rn_run_id p,
      ra_stored_results = length (rn_results p), ra_duplicate = False\<rparr>) # ys\<rparr>)"
proof -
  let ?d = "sv_db s"
  let ?c = "commit_rows run own ?d"
  let ?d' = "store_rows rows ?c"
  let ?t = "Replied p (Created \<lparr>ra_run_id = rn_run_id p, ra_stored_results = length (rn_results p),
    ra_duplicate = False\<rparr>)"
  note inv = server_invD [OF assms(1,2)]
  have ext: "run_external_id run = rn_run_id p" and ids: "ids_stored ids (db_nodes ?d @ own)"
    using inv(3) by simp_all
  have fresh: "rn_run_id p \<notin> run_external_id ` set (db_runs ?d)" "run_id run \<notin> run_id ` set (db_runs ?d)"
    using inv(2) ext by (auto simp: pending_ok_def)
  have c: "db_nodes ?c = db_nodes ?d @ own" "db_runs ?c = db_runs ?d @ [run]"
    "db_results ?c = db_results ?d" "db_next_result ?c = db_next_result ?d"
    "db_next_node ?c = db_next_node ?d" "db_next_run ?c = db_next_run ?d"
    by (simp_all add: commit_rows_def)
  have "distinct (map nd_id (db_nodes ?d @ own))" "distinct (map node_key (db_nodes ?d @ own))"
    "distinct (map run_id (db_runs ?d @ [run]))" "distinct (map run_external_id (db_runs ?d @ [run]))"
    "\<forall>n \<in> set (db_nodes ?d @ own). nd_id n < db_next_node ?d"
    "\<forall>r \<in> set (db_runs ?d @ [run]). run_id r < db_next_run ?d"
    using inv(2) by (simp_all add: pending_ok_def Int_Un_distrib ball_Un)
  moreover have "\<forall>r \<in> set (db_results ?d). res_id r < db_next_result ?d \<and>
      res_node_id r \<in> nd_id ` set (db_nodes ?d @ own) \<and> res_run_id r \<in> run_id ` set (db_runs ?d @ [run])"
    using inv(1) unfolding db_inv_def by (metis UnCI image_Un set_append)
  moreover have "distinct (map res_id (db_results ?d))" using inv(1) by (simp add: db_inv_def)
  ultimately have cinv: "db_inv ?c" unfolding db_inv_def c by blast
  have found: "find_run (rn_run_id p) ?c = Some run"
  proof -
    have "\<forall>x \<in> set (db_runs ?d). run_external_id x \<noteq> rn_run_id p" using fresh(1) by (metis imageI)
    then show ?thesis by (simp add: find_run_def c(2) find_skip ext)
  qed
  have old: "\<forall>x \<in> set (db_results ?c). res_run_id x \<noteq> run_id run"
    using inv(1) fresh(2) unfolding c db_inv_def by metis
  have dinv: "db_inv ?d'"
    by (rule store_rows_inv [OF cinv, where run = run and ids = ids and rs = "rn_results p"]) (use rows ids in \<open>simp_all add: c\<close>)
  note res = store_rows_results [OF rows found old ids [folded c(1)]]
  have grow: "grows ?d ?d'" by (rule grows_commit [OF inv(1) fresh(2) rows])
  have pend: "pending_ok ?d' (xs @ ?t # ys)"
    by (rule pending_ok_perm [OF inv(2)]) (simp_all add: c)
  have "length rows = length (rn_results p)" using list_all2_lengthD [OF res(2)] by simp
  then have "tx_ok ?d' ?t" using res found by simp
  moreover have "list_all (tx_ok ?d') (xs @ ys)"
    using inv(4) by (rule list.pred_mono_strong) (rule tx_ok_grows [OF _ grow])
  moreover have "rn_run_id p \<notin> set (stored_ids (xs @ ys))"
  proof
    assume "rn_run_id p \<in> set (stored_ids (xs @ ys))"
    from stored_ids_found [OF inv(4) this] show False using fresh(1) unfolding find_run_None by blast
  qed
  ultimately show ?thesis
    using dinv pend inv(5) by (auto simp: server_inv_def)
qed

lemma ingest_step_inv: "ingest_step s s' \<Longrightarrow> server_inv s \<Longrightarrow> server_inv s'"
proof (induction rule: ingest_step.induct)
  case (arrive s p)
  then show ?case by (simp add: server_inv_def pending_ok_def)
next
  case (find s xs p ys e)
  then show ?case
    using server_invD [OF find(3,1)] server_inv_move [OF find(3,1), of "sv_db s" "Known p e"]
      pending_ok_same [of "sv_db s" xs "Arrived p" ys "Known p e"] by simp
next
  case (miss s xs p ys)
  then show ?case
    using server_invD [OF miss(3,1)] server_inv_move [OF miss(3,1), of "sv_db s" "Unknown p"]
      pending_ok_same [of "sv_db s" xs "Arrived p" ys "Unknown p"] by simp
next
  case (count s xs p e ys)
  let ?t = "Replied p (Created \<lparr>ra_run_id = rn_run_id p,
    ra_stored_results = length (filter (\<lambda>r. res_run_id r = run_id e) (db_results (sv_db s))),
    ra_duplicate = True\<rparr>)"
  show ?case
    using server_invD [OF count(2,1)] server_inv_move [OF count(2,1), of "sv_db s" ?t]
      pending_ok_same [of "sv_db s" xs "Known p e" ys ?t] by (simp add: run_results_def)
next
  case (insert_run s xs p ys)
  note inv = server_invD [OF insert_run(4,1)]
  show ?case
    by (intro server_inv_move [OF insert_run(4,1)] db_inv_sequence inv(1) grows_sequences
        pending_ok_insert_run [OF inv(2)] insert_run(3) [unfolded insert_run(1)] tx_ok_insert_run) simp_all
next
  case (run_exists s xs p ys e)
  note inv = server_invD [OF run_exists(3,1)]
  show ?case
    by (intro server_inv_move [OF run_exists(3,1)] db_inv_sequence inv(1) grows_sequences
        pending_ok_sequence pending_ok_drop [OF inv(2)]) simp_all
next
  case (insert_node s xs p run n todo own ys)
  note inv = server_invD [OF insert_node(3,1)]
  show ?case
    by (intro server_inv_move [OF insert_node(3,1)] db_inv_sequence inv(1) grows_sequences
        pending_ok_insert_node [OF inv(2)] insert_node(2) [unfolded insert_node(1)]
        tx_ok_grows [OF tx_ok_insert_node [OF inv(3)]]) simp
next
  case (skip_node s xs p run n todo own ys)
  note inv = server_invD [OF skip_node(3,1)]
  show ?case
    by (intro server_inv_move [OF skip_node(3,1)] db_inv_sequence inv(1) grows_sequences
        pending_ok_sequence pending_ok_same [OF inv(2)]
        tx_ok_grows [OF tx_ok_skip_node [OF inv(3) skip_node(2)]]) simp_all
next
  case (look_up s xs p run own ys)
  note inv = server_invD [OF look_up(2,1)]
  show ?case
    using server_inv_move [OF look_up(2,1), of "sv_db s"] inv tx_ok_look_up [OF inv(3)]
      pending_ok_same [OF inv(2)] by simp
next
  case (commit s xs p run own ids ys rows)
  show ?case by (rule commit_inv [OF commit(3,1,2)])
next
  case (key_error s xs p run own ids ys)
  note inv = server_invD [OF key_error(3,1)]
  show ?case
    using server_inv_move [OF key_error(3,1), of "sv_db s"] inv pending_ok_drop [OF inv(2)] by simp
next
  case (abort s xs t ys)
  note inv = server_invD [OF abort(3,1)]
  show ?case
    using server_inv_move [OF abort(3,1), of "sv_db s"] inv pending_ok_drop [OF inv(2)] by simp
qed

lemma ingest_reach_inv: "ingest_reach d s \<Longrightarrow> db_inv d \<Longrightarrow> server_inv s"
proof (induction rule: ingest_reach.induct)
  case start
  then show ?case by (auto simp: server_inv_def pending_ok_def db_inv_def)
qed (rule ingest_step_inv)

lemma ingest_reach_steps: "ingest_step\<^sup>*\<^sup>* s s' \<Longrightarrow> ingest_reach d s \<Longrightarrow> ingest_reach d s'"
  by (induction rule: rtranclp_induct) (auto intro: ingest_reach.step)

subsection \<open>A request that runs alone\<close>

text \<open>
  While no other transaction has uncommitted rows, the statements of a request have the effect of
  the handler as one function.
\<close>

text \<open>A step of the transaction between \<open>xs\<close> and \<open>ys\<close>: the others stay where they are.\<close>

definition own_step :: "tx list \<Rightarrow> tx list \<Rightarrow> database \<times> tx \<Rightarrow> database \<times> tx \<Rightarrow> bool" where
  "own_step xs ys a b \<longleftrightarrow>
     ingest_step \<lparr>sv_db = fst a, sv_txs = xs @ snd a # ys\<rparr> \<lparr>sv_db = fst b, sv_txs = xs @ snd b # ys\<rparr>"

lemma own_steps:
  assumes "(own_step xs ys)\<^sup>*\<^sup>* a b"
  shows "ingest_step\<^sup>*\<^sup>* \<lparr>sv_db = fst a, sv_txs = xs @ snd a # ys\<rparr> \<lparr>sv_db = fst b, sv_txs = xs @ snd b # ys\<rparr>"
  using assms by (induction rule: rtranclp_induct) (auto simp: own_step_def intro: rtranclp.rtrancl_into_rtrancl)

lemma commit_rows_simps [simp]:
  "db_nodes (commit_rows run own d) = db_nodes d @ own"
  "db_next_result (commit_rows run own d) = db_next_result d"
  "db_next_node (commit_rows run own d) = db_next_node d"
  by (simp_all add: commit_rows_def)

lemma insert_commit_rows:
  "insert_node n (commit_rows run own d) =
     (if ref_key n \<in> node_key ` set (db_nodes d @ own)
      then commit_rows run own (d\<lparr>db_next_node := Suc (db_next_node d)\<rparr>)
      else commit_rows run (own @ [new_node n d]) (d\<lparr>db_next_node := Suc (db_next_node d)\<rparr>))"
  by (auto simp: insert_node_def commit_rows_def new_node_def Let_def)

lemma add_run_rows: "commit_rows (new_run p d) [] (d\<lparr>db_next_run := Suc (db_next_run d)\<rparr>) = add_run p d"
  by (simp add: commit_rows_def add_run_def)

lemma insert_nodes_alone:
  assumes "pending_nodes (xs @ ys) = []"
  shows "\<exists>own' k. fold insert_node todo (commit_rows run own d) = commit_rows run own' (d\<lparr>db_next_node := k\<rparr>) \<and>
    (own_step xs ys)\<^sup>*\<^sup>* (d, Inserting p run todo own) (d\<lparr>db_next_node := k\<rparr>, Inserting p run [] own')"
proof (induction todo arbitrary: own d)
  case Nil
  have "commit_rows run own d = commit_rows run own (d\<lparr>db_next_node := db_next_node d\<rparr>)" by simp
  then show ?case by (intro exI [of _ own] exI [of _ "db_next_node d"]) simp
next
  case (Cons n todo)
  let ?d = "d\<lparr>db_next_node := Suc (db_next_node d)\<rparr>"
  let ?own = "if ref_key n \<in> node_key ` set (db_nodes d @ own) then own else own @ [new_node n d]"
  have "own_step xs ys (d, Inserting p run (n # todo) own) (?d, Inserting p run todo ?own)"
    using ingest_step.skip_node [of "\<lparr>sv_db = d, sv_txs = xs @ Inserting p run (n # todo) own # ys\<rparr>"]
      ingest_step.insert_node [of "\<lparr>sv_db = d, sv_txs = xs @ Inserting p run (n # todo) own # ys\<rparr>"] assms
    by (auto simp: own_step_def)
  moreover obtain own' k where
    "fold insert_node todo (commit_rows run ?own ?d) = commit_rows run own' (?d\<lparr>db_next_node := k\<rparr>)"
    "(own_step xs ys)\<^sup>*\<^sup>* (?d, Inserting p run todo ?own) (?d\<lparr>db_next_node := k\<rparr>, Inserting p run [] own')"
    using Cons.IH [of ?own ?d] by blast
  moreover have "fold insert_node (n # todo) (commit_rows run own d) = fold insert_node todo (commit_rows run ?own ?d)"
    by (simp add: insert_commit_rows)
  ultimately show ?case
    by (intro exI [of _ own'] exI [of _ k])
      (auto intro: converse_rtranclp_into_rtranclp)
qed

lemma own_run_alone:
  assumes "pending_runs (xs @ ys) = []" "pending_nodes (xs @ ys) = []"
  shows "(own_step xs ys)\<^sup>*\<^sup>* (d, Arrived p) (snd (ingest_run p d), Replied p (fst (ingest_run p d)))"
proof (cases rule: ingest_cases [of p d])
  case (replay e)
  have "own_step xs ys (d, Arrived p) (d, Known p e)"
    using ingest_step.find [of "\<lparr>sv_db = d, sv_txs = xs @ Arrived p # ys\<rparr>"] replay(1) by (simp add: own_step_def)
  moreover have "own_step xs ys (d, Known p e) (snd (ingest_run p d), Replied p (fst (ingest_run p d)))"
    using ingest_step.count [of "\<lparr>sv_db = d, sv_txs = xs @ Known p e # ys\<rparr>"] replay(2) by (simp add: own_step_def)
  ultimately show ?thesis by (meson rtranclp.rtrancl_into_rtrancl rtranclp.rtrancl_refl)
next
  case fail
  have "own_step xs ys (d, Arrived p) (d, Unknown p)"
    using ingest_step.miss [of "\<lparr>sv_db = d, sv_txs = xs @ Arrived p # ys\<rparr>"] fail(1) by (simp add: own_step_def)
  moreover have "own_step xs ys (d, Unknown p) (snd (ingest_run p d), Replied p (fst (ingest_run p d)))"
    using ingest_step.abort [of "\<lparr>sv_db = d, sv_txs = xs @ Unknown p # ys\<rparr>" xs "Unknown p"] fail(3)
    by (simp add: own_step_def)
  ultimately show ?thesis by (meson rtranclp.rtrancl_into_rtrancl rtranclp.rtrancl_refl)
next
  case new
  let ?d = "d\<lparr>db_next_run := Suc (db_next_run d)\<rparr>" and ?run = "new_run p d"
  let ?todo = "map snd (seen_nodes (rn_results p))"
  obtain ids d2 rows where r: "resolve_nodes (rn_results p) (add_run p d) = (ids, d2)"
    "result_rows (db_next_run d) ids (db_next_result d2) (rn_results p) = Some rows"
    "ingest_run p d =
       (Created \<lparr>ra_run_id = rn_run_id p, ra_stored_results = length (rn_results p),
                 ra_duplicate = False\<rparr>, store_rows rows d2)"
    by (rule ingest_new [OF new])
  obtain own k where own: "fold insert_node ?todo (commit_rows ?run [] ?d) = commit_rows ?run own (?d\<lparr>db_next_node := k\<rparr>)"
    "(own_step xs ys)\<^sup>*\<^sup>* (?d, Inserting p ?run ?todo []) (?d\<lparr>db_next_node := k\<rparr>, Inserting p ?run [] own)"
    using insert_nodes_alone [OF assms(2)] by blast
  let ?dk = "?d\<lparr>db_next_node := k\<rparr>"
  have d2: "d2 = commit_rows ?run own ?dk" "ids = node_ids (rn_results p) (db_nodes d @ own)"
    using r(1) own(1) by (auto simp: resolve_nodes_def Let_def add_run_rows)
  have "own_step xs ys (d, Arrived p) (d, Unknown p)"
    using ingest_step.miss [of "\<lparr>sv_db = d, sv_txs = xs @ Arrived p # ys\<rparr>"] new(1) by (simp add: own_step_def)
  moreover have "own_step xs ys (d, Unknown p) (?d, Inserting p ?run ?todo [])"
    using ingest_step.insert_run [of "\<lparr>sv_db = d, sv_txs = xs @ Unknown p # ys\<rparr>"] new assms(1)
    by (simp add: find_run_None own_step_def)
  moreover note own(2)
  moreover have "own_step xs ys (?dk, Inserting p ?run [] own) (?dk, Resolved p ?run own ids)"
    using ingest_step.look_up [of "\<lparr>sv_db = ?dk, sv_txs = xs @ Inserting p ?run [] own # ys\<rparr>"] d2(2)
    by (simp add: own_step_def)
  moreover have "own_step xs ys (?dk, Resolved p ?run own ids) (snd (ingest_run p d), Replied p (fst (ingest_run p d)))"
    using ingest_step.commit [of "\<lparr>sv_db = ?dk, sv_txs = xs @ Resolved p ?run own ids # ys\<rparr>"] r(2,3)
    by (simp add: d2(1) own_step_def) (simp add: commit_rows_def new_run_def)
  ultimately show ?thesis
    by (meson converse_rtranclp_into_rtranclp rtranclp.rtrancl_refl rtranclp_trans)
qed

lemma ingest_alone:
  assumes "pending_runs (xs @ ys) = []" "pending_nodes (xs @ ys) = []"
  shows "ingest_step\<^sup>*\<^sup>* \<lparr>sv_db = d, sv_txs = xs @ Arrived p # ys\<rparr>
    \<lparr>sv_db = snd (ingest_run p d), sv_txs = xs @ Replied p (fst (ingest_run p d)) # ys\<rparr>"
  using own_steps [OF own_run_alone [OF assms, of d p]] by simp

subsection \<open>Every way a request can run alone\<close>

lemma same_place:
  assumes "xs' @ t # ys' = xs @ u # ys" "xs' @ t' # ys' = xs @ u' # ys" "t \<noteq> t'"
  shows "xs' = xs \<and> t = u \<and> t' = u' \<and> ys' = ys"
proof -
  have "length xs' = length xs"
  proof (rule ccontr)
    assume "length xs' \<noteq> length xs"
    then have "(xs @ u # ys) ! length xs' = (xs @ u' # ys) ! length xs'"
      by (simp add: nth_append nth_Cons split: nat.split)
    then have "(xs' @ t # ys') ! length xs' = (xs' @ t' # ys') ! length xs'" unfolding assms(1,2) .
    then show False using assms(3) by simp
  qed
  then show ?thesis using assms(1,2) by simp
qed

definition same_rows :: "database \<Rightarrow> database \<Rightarrow> bool" where
  "same_rows d d' \<longleftrightarrow>
     db_nodes d' = db_nodes d \<and> db_runs d' = db_runs d \<and> db_results d' = db_results d \<and>
     db_next_result d' = db_next_result d"

lemma same_rows_refl [simp]: "same_rows d d"
  by (simp add: same_rows_def)

text \<open>What a step of one transaction does, for each of its states.\<close>

lemma own_step_cases:
  assumes "own_step xs ys (d, t) (d', t')"
  obtains (failed) "t' = Replied (tx_run t) ServerError" "same_rows d d'" "\<forall>p r. t \<noteq> Replied p r"
  | (find) p e where "t = Arrived p" "find_run (rn_run_id p) d = Some e" "t' = Known p e" "d' = d"
  | (miss) p where "t = Arrived p" "find_run (rn_run_id p) d = None" "t' = Unknown p" "d' = d"
  | (count) p e where "t = Known p e" "d' = d"
      "t' = Replied p (Created \<lparr>ra_run_id = rn_run_id p,
         ra_stored_results = length (filter (\<lambda>r. res_run_id r = run_id e) (db_results d)),
         ra_duplicate = True\<rparr>)"
  | (insert_run) p where "t = Unknown p" "storable_run p"
      "d' = d\<lparr>db_next_run := Suc (db_next_run d)\<rparr>"
      "t' = Inserting p (new_run p d) (map snd (seen_nodes (rn_results p))) []"
  | (insert_node) p run n todo own where "t = Inserting p run (n # todo) own"
      "ref_key n \<notin> node_key ` set (db_nodes d @ own)"
      "d' = d\<lparr>db_next_node := Suc (db_next_node d)\<rparr>" "t' = Inserting p run todo (own @ [new_node n d])"
  | (skip_node) p run n todo own where "t = Inserting p run (n # todo) own"
      "ref_key n \<in> node_key ` set (db_nodes d @ own)"
      "d' = d\<lparr>db_next_node := Suc (db_next_node d)\<rparr>" "t' = Inserting p run todo own"
  | (look_up) p run own where "t = Inserting p run [] own" "d' = d"
      "t' = Resolved p run own (node_ids (rn_results p) (db_nodes d @ own))"
  | (commit) p run own ids rows where "t = Resolved p run own ids"
      "result_rows (run_id run) ids (db_next_result d) (rn_results p) = Some rows"
      "d' = store_rows rows (commit_rows run own d)"
      "t' = Replied p (Created \<lparr>ra_run_id = rn_run_id p,
         ra_stored_results = length (rn_results p), ra_duplicate = False\<rparr>)"
  using assms [unfolded own_step_def fst_conv snd_conv]
proof (cases rule: ingest_step.cases)
  case (arrive p)
  then have "length (xs @ t' # ys) = Suc (length (xs @ t # ys))" by simp
  then show ?thesis by simp
next
  case (find xs' p ys' e)
  then show ?thesis using same_place [of xs' "Arrived p" ys' xs t ys "Known p e" t'] that(2) by auto
next
  case (miss xs' p ys')
  then show ?thesis using same_place [of xs' "Arrived p" ys' xs t ys "Unknown p" t'] that(3) by auto
next
  case (count xs' p e ys')
  then show ?thesis using same_place [of xs' "Known p e" ys' xs t ys _ t'] that(4) by fastforce
next
  case (insert_run xs' p ys')
  then show ?thesis using same_place [of xs' "Unknown p" ys' xs t ys _ t'] that(5) by fastforce
next
  case (run_exists xs' p ys' e)
  then have "t = Unknown p \<and> t' = Replied p ServerError"
    using same_place [of xs' "Unknown p" ys' xs t ys "Replied p ServerError" t'] by auto
  then show ?thesis using run_exists(1) that(1) by (simp add: same_rows_def)
next
  case (insert_node xs' p run n todo own ys')
  then have "t = Inserting p run (n # todo) own \<and> t' = Inserting p run todo (own @ [new_node n d])"
    using same_place [of xs' "Inserting p run (n # todo) own" ys' xs t ys
        "Inserting p run todo (own @ [new_node n d])" t'] by auto
  then show ?thesis using insert_node that(6) by auto
next
  case (skip_node xs' p run n todo own ys')
  then have "t = Inserting p run (n # todo) own \<and> t' = Inserting p run todo own"
    using same_place [of xs' "Inserting p run (n # todo) own" ys' xs t ys "Inserting p run todo own" t'] by auto
  then show ?thesis using skip_node that(7) by auto
next
  case (look_up xs' p run own ys')
  then have "t = Inserting p run [] own \<and> t' = Resolved p run own (node_ids (rn_results p) (db_nodes d @ own))"
    using same_place [of xs' "Inserting p run [] own" ys' xs t ys
        "Resolved p run own (node_ids (rn_results p) (db_nodes d @ own))" t'] by auto
  then show ?thesis using look_up that(8) by auto
next
  case (commit xs' p run own ids ys' rows)
  let ?r = "Replied p (Created \<lparr>ra_run_id = rn_run_id p, ra_stored_results = length (rn_results p),
    ra_duplicate = False\<rparr>)"
  from commit have "t = Resolved p run own ids \<and> t' = ?r"
    using same_place [of xs' "Resolved p run own ids" ys' xs t ys ?r t'] by auto
  then show ?thesis using commit that(9) by auto
next
  case (key_error xs' p run own ids ys')
  then have "t = Resolved p run own ids \<and> t' = Replied p ServerError"
    using same_place [of xs' "Resolved p run own ids" ys' xs t ys "Replied p ServerError" t'] by auto
  then show ?thesis using key_error(1) that(1) by (simp add: same_rows_def)
next
  case (abort xs' u ys')
  then have "u \<noteq> Replied (tx_run u) ServerError" by blast
  then have "t = u \<and> t' = Replied (tx_run u) ServerError"
    using abort same_place [of xs' u ys' xs t ys "Replied (tx_run u) ServerError" t'] by auto
  then show ?thesis using abort that(1) by (auto simp: same_rows_def)
qed

text \<open>The reply and the database a transaction will end with, if it is not rolled back.\<close>

definition finish_rows :: "run_in \<Rightarrow> run_row \<Rightarrow> ((string \<times> string) \<times> nat) list \<Rightarrow> database \<Rightarrow> http_reply \<times> database" where
  "finish_rows p run ids d =
     (case result_rows (run_id run) ids (db_next_result d) (rn_results p) of
        None \<Rightarrow> (ServerError, d)
      | Some rows \<Rightarrow>
          (Created \<lparr>ra_run_id = rn_run_id p, ra_stored_results = length (rn_results p), ra_duplicate = False\<rparr>,
           store_rows rows d))"

definition finish_nodes :: "run_in \<Rightarrow> run_row \<Rightarrow> node_ref list \<Rightarrow> database \<Rightarrow> http_reply \<times> database" where
  "finish_nodes p run todo d =
     (let d' = fold insert_node todo d in finish_rows p run (node_ids (rn_results p) (db_nodes d')) d')"

primrec future :: "database \<Rightarrow> tx \<Rightarrow> http_reply \<times> database" where
  "future d (Arrived p) = ingest_run p d"
| "future d (Known p e) =
     (Created \<lparr>ra_run_id = rn_run_id p,
               ra_stored_results = length (filter (\<lambda>r. res_run_id r = run_id e) (db_results d)),
               ra_duplicate = True\<rparr>, d)"
| "future d (Unknown p) = ingest_run p d"
| "future d (Inserting p run todo own) = finish_nodes p run todo (commit_rows run own d)"
| "future d (Resolved p run own ids) = finish_rows p run ids (commit_rows run own d)"
| "future d (Replied p r) = (r, d)"

lemma finish_new:
  assumes "find_run (rn_run_id p) d = None" "storable_run p"
  shows "finish_nodes p (new_run p d) (map snd (seen_nodes (rn_results p))) (add_run p d) = ingest_run p d"
proof -
  obtain ids d2 rows where r: "resolve_nodes (rn_results p) (add_run p d) = (ids, d2)"
    "result_rows (db_next_run d) ids (db_next_result d2) (rn_results p) = Some rows"
    "ingest_run p d =
       (Created \<lparr>ra_run_id = rn_run_id p, ra_stored_results = length (rn_results p),
                 ra_duplicate = False\<rparr>, store_rows rows d2)"
    by (rule ingest_new [OF assms])
  then show ?thesis by (auto simp: finish_nodes_def finish_rows_def resolve_nodes_def Let_def new_run_def)
qed

text \<open>
  A transaction on its way: either it has failed and left the tables as they were, or it is still
  going to end as \<open>ingest_run\<close> says.
\<close>

definition on_course :: "run_in \<Rightarrow> database \<Rightarrow> database \<times> tx \<Rightarrow> bool" where
  "on_course p d a \<longleftrightarrow>
     snd a = Replied p ServerError \<and> same_rows d (fst a) \<or>
     future (fst a) (snd a) = ingest_run p d \<and> tx_run (snd a) = p \<and>
     ((\<exists>r. snd a = Replied p r) \<or> same_rows d (fst a)) \<and>
     (snd a = Unknown p \<longrightarrow> find_run (rn_run_id p) (fst a) = None)"

lemma own_step_on_course:
  assumes "own_step xs ys a b" "on_course p d a"
  shows "on_course p d b"
proof -
  obtain d1 t d2 t' where ab: "a = (d1, t)" "b = (d2, t')" by fastforce
  from assms(1) [unfolded ab] have "\<forall>q r. t \<noteq> Replied q r"
    by (cases rule: own_step_cases) auto
  then have fut: "future d1 t = ingest_run p d" "tx_run t = p" "same_rows d d1"
    "t = Unknown p \<Longrightarrow> find_run (rn_run_id p) d1 = None"
    using assms(2) by (auto simp: on_course_def ab)
  from assms(1) [unfolded ab] show ?thesis
  proof (cases rule: own_step_cases)
    case failed
    then show ?thesis using fut by (auto simp: on_course_def ab same_rows_def)
  next
    case (find q e)
    then show ?thesis using fut by (simp add: on_course_def ab ingest_replay)
  next
    case (miss q)
    then show ?thesis using fut by (simp add: on_course_def ab)
  next
    case (count q e)
    then show ?thesis using fut by (simp add: on_course_def ab)
  next
    case (insert_run q)
    then have "q = p" "find_run (rn_run_id p) d1 = None" using fut by simp_all
    then show ?thesis using insert_run fut
      by (auto simp: on_course_def ab add_run_rows finish_new same_rows_def)
  next
    case (insert_node q run n todo own)
    then show ?thesis using fut
      by (auto simp: on_course_def ab finish_nodes_def insert_commit_rows same_rows_def)
  next
    case (skip_node q run n todo own)
    then show ?thesis using fut
      by (auto simp: on_course_def ab finish_nodes_def insert_commit_rows same_rows_def)
  next
    case (look_up q run own)
    then show ?thesis using fut by (simp add: on_course_def ab finish_nodes_def)
  next
    case (commit q run own ids rows)
    then show ?thesis using fut by (simp add: on_course_def ab finish_rows_def)
  qed
qed

lemma own_run_replies:
  assumes "(own_step xs ys)\<^sup>*\<^sup>* (d, Arrived p) (d', Replied q r)"
  shows "q = p \<and> ((r, d') = ingest_run p d \<or> r = ServerError \<and> same_rows d d')"
proof -
  have "on_course p d (d, Arrived p)" by (simp add: on_course_def)
  with assms have "on_course p d (d', Replied q r)"
    by (induction rule: rtranclp_induct) (auto intro: own_step_on_course)
  then show ?thesis by (auto simp: on_course_def)
qed

text \<open>
  Two requests for one new run may both look before either writes. One of them then meets the
  unique key of the other's run and fails, where a replay that comes later is told of a duplicate.
\<close>

lemma concurrent_replay_fails:
  assumes "find_run (rn_run_id p) d = None" "storable_run p"
  shows "\<exists>s a. ingest_reach d s \<and> sv_txs s = [Replied p (Created a), Replied p ServerError] \<and>
    find_run (rn_run_id p) (sv_db s) \<noteq> None"
proof -
  let ?d = "snd (ingest_run p d)"
  obtain a where a: "fst (ingest_run p d) = Created a" using ingest_created [of p d] assms(2) by blast
  then obtain e where e: "find_run (rn_run_id p) ?d = Some e" using ingest_finds by blast
  have "ingest_reach d \<lparr>sv_db = d, sv_txs = [Arrived p, Arrived p]\<rparr>"
    using ingest_reach.step [OF ingest_reach.step [OF ingest_reach.start ingest_step.arrive] ingest_step.arrive]
    by simp
  moreover have "ingest_step \<lparr>sv_db = d, sv_txs = [Arrived p, Arrived p]\<rparr>
      \<lparr>sv_db = d, sv_txs = [Arrived p, Unknown p]\<rparr>"
    using ingest_step.miss [of "\<lparr>sv_db = d, sv_txs = [Arrived p, Arrived p]\<rparr>" "[Arrived p]" p "[]"] assms(1)
    by simp
  moreover have "ingest_step\<^sup>*\<^sup>* \<lparr>sv_db = d, sv_txs = [Arrived p, Unknown p]\<rparr>
      \<lparr>sv_db = ?d, sv_txs = [Replied p (Created a), Unknown p]\<rparr>"
    using ingest_alone [of "[]" "[Unknown p]" d p] a by simp
  moreover have "ingest_step \<lparr>sv_db = ?d, sv_txs = [Replied p (Created a), Unknown p]\<rparr>
      \<lparr>sv_db = ?d\<lparr>db_next_run := Suc (db_next_run ?d)\<rparr>, sv_txs = [Replied p (Created a), Replied p ServerError]\<rparr>"
    using ingest_step.run_exists [of "\<lparr>sv_db = ?d, sv_txs = [Replied p (Created a), Unknown p]\<rparr>"
        "[Replied p (Created a)]" p "[]" e] e by simp
  ultimately have "ingest_reach d \<lparr>sv_db = ?d\<lparr>db_next_run := Suc (db_next_run ?d)\<rparr>,
      sv_txs = [Replied p (Created a), Replied p ServerError]\<rparr>"
    by (meson ingest_reach.step ingest_reach_steps)
  then show ?thesis using e
    by (intro exI [of _ "\<lparr>sv_db = ?d\<lparr>db_next_run := Suc (db_next_run ?d)\<rparr>,
        sv_txs = [Replied p (Created a), Replied p ServerError]\<rparr>"] exI [of _ a] conjI)
      (simp_all add: find_run_def)
qed

end
