(* ===== verification/Metrics.thy ===== *)
theory Metrics
  imports Nodes Prom GoTime
begin

text \<open>
  The metrics endpoint of probestore (probestore/app/routers/metrics.py): the newest result of
  every node as Prometheus text, and what a scraper reads out of it.
\<close>

subsection \<open>Labels and numbers\<close>

definition metric_escape :: "string \<Rightarrow> string" where
  "metric_escape value =
     replace_all nl (backslash # ''n'')
       (replace_all quote_char [backslash, quote_char]
         (replace_all backslash [backslash, backslash] value))"

definition label_part :: "string \<Rightarrow> string \<Rightarrow> string" where
  "label_part k v = k @ ''='' @ [quote_char] @ metric_escape v @ [quote_char]"

definition node_labels :: "node_row \<Rightarrow> string" where
  "node_labels node =
     ''{'' @ label_part ''node'' (nd_name node) @ '','' @ label_part ''addr'' (nd_addr node) @ '','' @
     label_part ''sni'' (nd_sni node) @ '','' @
     label_part ''provider'' (case nd_provider node of None \<Rightarrow> [] | Some p \<Rightarrow> p) @ ''}''"

text \<open>The format \<open>.kf\<close>: the exact value of the float, rounded half to even to \<open>k\<close> decimals.\<close>

definition fixed_point :: "nat \<Rightarrow> float64 \<Rightarrow> string" where
  "fixed_point k x =
     (let n = nat (round_even (\<bar>x\<bar> * 10 ^ k))
      in (if x < 0 then ''-'' else []) @ show_nat (n div 10 ^ k) @ ''.'' @ fixed_digits k (n mod 10 ^ k))"

text \<open>\<open>(now - ts).total_seconds()\<close>: whole microseconds, divided once.\<close>

definition age_seconds :: "instant \<Rightarrow> instant \<Rightarrow> float64" where
  "age_seconds now ts = fl (of_int ((now - ts) div 1000) / 1000000)"

subsection \<open>The text\<close>

definition up_line :: "node_row \<times> result_row \<Rightarrow> string" where
  "up_line row =
     ''nodecheck_node_up'' @ node_labels (fst row) @ '' '' @
     show_nat (if res_tcp_ok (snd row) \<and> res_tls_ok (snd row) then 1 else 0)"

definition handshake_line :: "node_row \<times> result_row \<Rightarrow> string option" where
  "handshake_line row =
     map_option (\<lambda>ms. ''nodecheck_handshake_seconds'' @ node_labels (fst row) @ '' '' @ fixed_point 6 (fl (ms / 1000)))
       (res_latency_ms (snd row))"

definition age_line :: "instant \<Rightarrow> node_row \<times> result_row \<Rightarrow> string" where
  "age_line now row =
     ''nodecheck_last_check_age_seconds'' @ node_labels (fst row) @ '' '' @
     fixed_point 1 (age_seconds now (res_ts (snd row)))"

definition metric_text_lines :: "instant \<Rightarrow> (node_row \<times> result_row) list \<Rightarrow> string list" where
  "metric_text_lines now rows =
     [''# HELP nodecheck_node_up Node passed both TCP connect and TLS handshake.'',
      ''# TYPE nodecheck_node_up gauge''] @
     map up_line rows @
     [''# HELP nodecheck_handshake_seconds Duration of the last successful probe.'',
      ''# TYPE nodecheck_handshake_seconds gauge''] @
     List.map_filter handshake_line rows @
     [''# HELP nodecheck_last_check_age_seconds Age of the most recent probe result.'',
      ''# TYPE nodecheck_last_check_age_seconds gauge''] @
     map (age_line now) rows"

fun join_lines :: "string list \<Rightarrow> string" where
  "join_lines [] = []"
| "join_lines [l] = l"
| "join_lines (l # ls) = l @ nl # join_lines ls"

definition metrics :: "planner \<Rightarrow> instant \<Rightarrow> database \<Rightarrow> string" where
  "metrics P now d = join_lines (metric_text_lines now (latest_per_node P d)) @ [nl]"

subsection \<open>What a scraper reads\<close>

fun read_named :: "string list \<Rightarrow> string \<Rightarrow> (string list \<times> string) option" where
  "read_named [] s = Some ([], s)"
| "read_named (k # ks) s = do {
     s1 \<leftarrow> strip_prefix (k @ ''='' @ [quote_char]) s;
     (v, s2) \<leftarrow> read_value s1;
     s3 \<leftarrow> (if ks = [] then Some s2 else strip_prefix '','' s2);
     (vs, rest) \<leftarrow> read_named ks s3;
     Some (v # vs, rest) }"

definition read_metric :: "string \<Rightarrow> (string \<times> string list \<times> string) option" where
  "read_metric l = do {
     s1 \<leftarrow> strip_prefix ''{'' (dropWhile (\<lambda>c. c \<noteq> CHR ''{'') l);
     (vs, s2) \<leftarrow> read_named [''node'', ''addr'', ''sni'', ''provider''] s1;
     v \<leftarrow> strip_prefix ''} '' s2;
     Some (takeWhile (\<lambda>c. c \<noteq> CHR ''{'') l, vs, v) }"

definition scrape :: "string \<Rightarrow> (string \<times> string list \<times> string) option list" where
  "scrape text' = map read_metric (filter (\<lambda>l. take 1 l \<noteq> ''#'') (text_lines text'))"

definition label_values :: "node_row \<Rightarrow> string list" where
  "label_values n =
     [nd_name n, nd_addr n, nd_sni n, case nd_provider n of None \<Rightarrow> [] | Some p \<Rightarrow> p]"

lemma metric_escape_eq: "metric_escape = escapeLabel"
  by (rule ext) (simp add: metric_escape_def escapeLabel_def)

lemma read_named_parts:
  "read_named [k] (label_part k v @ rest) = Some ([v], rest)"
  "ks \<noteq> [] \<Longrightarrow> read_named (k # ks) (label_part k v @ CHR '','' # rest) =
     map_option (\<lambda>(vs, r). (v # vs, r)) (read_named ks rest)"
proof -
  have part: "label_part k v @ s = (k @ ''='' @ [quote_char]) @ escapeLabel v @ quote_char # s" for s
    by (simp add: label_part_def metric_escape_eq)
  show "read_named [k] (label_part k v @ rest) = Some ([v], rest)"
    unfolding part read_named.simps strip_prefix_append Option.bind.simps read_value_escaped by simp
  show "read_named (k # ks) (label_part k v @ CHR '','' # rest) =
      map_option (\<lambda>(vs, r). (v # vs, r)) (read_named ks rest)" if "ks \<noteq> []"
    unfolding part read_named.simps strip_prefix_append Option.bind.simps read_value_escaped prod.case
    using that strip_prefix_append [of "'',''" rest] by (cases "read_named ks rest") auto
qed

text \<open>Each kind of line reads back as name, labels and value.\<close>

lemma read_metric_line:
  assumes "CHR ''{'' \<notin> set metric"
  shows "read_metric (metric @ node_labels n @ '' '' @ v) = Some (metric, label_values n, v)"
proof -
  have l: "metric @ node_labels n @ '' '' @ v = metric @ CHR ''{'' # tl (node_labels n) @ '' '' @ v"
    by (simp add: node_labels_def)
  have dw: "dropWhile (\<lambda>c. c \<noteq> CHR ''{'') (metric @ CHR ''{'' # s) = ''{'' @ s"
    "takeWhile (\<lambda>c. c \<noteq> CHR ''{'') (metric @ CHR ''{'' # s) = metric" for s
    using assms by (induction metric) auto
  have named: "read_named [''node'', ''addr'', ''sni'', ''provider''] (tl (node_labels n) @ '' '' @ v) =
      Some (label_values n, ''} '' @ v)"
    unfolding node_labels_def label_values_def
    by (simp only: append_Cons append_Nil list.sel append_assoc)
      (simp add: read_named_parts del: read_named.simps)
  show ?thesis
    by (simp only: l read_metric_def dw strip_prefix_append Option.bind.simps named prod.case)
qed

lemma fixed_digits_no_newline: "nl \<notin> set (fixed_digits k n)"
proof (induction k n rule: fixed_digits.induct)
  case (2 k n)
  then show ?case using digit_char_not_nl [of "n mod 10"] by auto
qed simp

lemma fixed_point_no_newline: "nl \<notin> set (fixed_point k x)"
  by (simp add: fixed_point_def Let_def show_nat_no_newline fixed_digits_no_newline)

lemma node_labels_no_newline: "nl \<notin> set (node_labels n)"
  by (simp add: node_labels_def label_part_def metric_escape_eq escapeLabel_no_newline)

lemma join_unlines: "ls \<noteq> [] \<Longrightarrow> join_lines ls @ [nl] = unlines ls"
  by (induction ls rule: join_lines.induct) (simp_all add: unlines_def)

lemmas line_defs = up_line_def handshake_line_def age_line_def

lemma metric_lines_no_newline: "\<forall>l \<in> set (metric_text_lines now rows). nl \<notin> set l"
  by (auto simp: metric_text_lines_def line_defs List.map_filter_def node_labels_no_newline
      fixed_point_no_newline show_nat_no_newline)

lemma filter_comments:
  "filter (\<lambda>l. take 1 l \<noteq> ''#'') (metric_text_lines now rows) =
     map up_line rows @ List.map_filter handshake_line rows @ map (age_line now) rows"
proof -
  have "filter (\<lambda>l. take 1 l \<noteq> ''#'') (map up_line rows) = map up_line rows"
    "filter (\<lambda>l. take 1 l \<noteq> ''#'') (map (age_line now) rows) = map (age_line now) rows"
    "filter (\<lambda>l. take 1 l \<noteq> ''#'') (List.map_filter handshake_line rows) = List.map_filter handshake_line rows"
    by (auto simp: filter_id_conv line_defs List.map_filter_def)
  then show ?thesis by (simp add: metric_text_lines_def)
qed

lemma scrape_metrics:
  "scrape (metrics P now d) =
     map (\<lambda>(n, r). Some (''nodecheck_node_up'', label_values n,
            if res_tcp_ok r \<and> res_tls_ok r then ''1'' else ''0'')) (latest_per_node P d) @
     List.map_filter (\<lambda>(n, r). map_option (\<lambda>ms. Some (''nodecheck_handshake_seconds'', label_values n,
            fixed_point 6 (fl (ms / 1000)))) (res_latency_ms r)) (latest_per_node P d) @
     map (\<lambda>(n, r). Some (''nodecheck_last_check_age_seconds'', label_values n,
            fixed_point 1 (age_seconds now (res_ts r)))) (latest_per_node P d)"
proof -
  have bits: "show_nat 0 = ''0''" "show_nat 1 = ''1''" by (simp_all add: show_nat.simps digit_chars)
  have lines: "text_lines (metrics P now d) = metric_text_lines now (latest_per_node P d)"
  proof -
    have "metric_text_lines now (latest_per_node P d) \<noteq> []" by (simp add: metric_text_lines_def)
    then show ?thesis
      by (simp only: metrics_def join_unlines text_lines_unlines [OF metric_lines_no_newline] not_False_eq_True)
  qed
  note read_line = read_metric_line [of "''nodecheck_node_up''", simplified]
    read_metric_line [of "''nodecheck_handshake_seconds''", simplified]
    read_metric_line [of "''nodecheck_last_check_age_seconds''", simplified]
  have up: "read_metric (up_line row) = Some (''nodecheck_node_up'', label_values (fst row),
      if res_tcp_ok (snd row) \<and> res_tls_ok (snd row) then ''1'' else ''0'')" for row
    using bits by (simp add: up_line_def read_line)
  have age: "read_metric (age_line now row) = Some (''nodecheck_last_check_age_seconds'', label_values (fst row),
      fixed_point 1 (age_seconds now (res_ts (snd row))))" for row
    by (simp add: age_line_def read_line)
  have handshake: "map_option read_metric (handshake_line row) =
      map_option (\<lambda>ms. Some (''nodecheck_handshake_seconds'', label_values (fst row), fixed_point 6 (fl (ms / 1000))))
        (res_latency_ms (snd row))" for row
    by (cases "res_latency_ms (snd row)") (simp_all add: handshake_line_def read_line)
  have "map read_metric (List.map_filter handshake_line rows) =
      List.map_filter (\<lambda>row. map_option read_metric (handshake_line row)) rows" for rows
    by (induction rows) (simp_all add: List.map_filter_simps split: option.split)
  then show ?thesis
    unfolding scrape_def lines filter_comments by (simp add: case_prod_beta' up age handshake comp_def)
qed

end
