(* ===== verification/Spec2Isabelle.thy ===== *)
theory Spec2Isabelle
  imports Concrete Golden IngestConcurrent Metrics
begin

text \<open>
  A verification development for tunnel-ops: \<open>nodecheck\<close> (cmd/nodecheck, Go), which probes a fleet
  of VPN nodes and prints or pushes the results, and \<open>probestore\<close> (probestore/app, Python), the
  service that stores what is pushed and answers queries about it.

  The program. \<open>main\<close> reads its flags, loads and validates a list of targets (\<open>loadTargets\<close>), probes
  all of them with bounded concurrency (\<open>runAll\<close>), sorts the results, prints them as JSON or
  Prometheus text and may post them to probestore (\<open>pushResults\<close>). A target names a protocol; the
  registry maps it to a \<open>Prober\<close> (tls, udp, wireguard), whose outcome, a list of phases, is projected
  onto the output struct (\<open>toResult\<close>). probestore ingests a run in one transaction (\<open>ingest_run\<close>)
  and shows the newest result of every node (\<open>list_nodes\<close>, \<open>metrics\<close>) and a node's history.

  The theories, in the order they build on each other:
  \<^item> \<open>Prelude\<close>: bytes, Go strings, decimal and hexadecimal text, checked division and slices;
    \<open>GoFloat\<close>: the 64-bit floats of durations and \<open>%.4f\<close>; \<open>GoNumber\<close>: floats as JSON numbers, the
    shortest decimal that reads back; \<open>GoTime\<close>: calendar and RFC 3339; \<open>GoStrconv\<close>: \<open>ParseBool\<close>,
    \<open>ParseInt\<close>, \<open>ParseDuration\<close>; \<open>GoError\<close>: the error values and their texts; \<open>Codec\<close>: hex, base64,
    fixed-width integers.
  \<^item> encoding/json: \<open>Json\<close> (decoding a tree into structs), \<open>JsonString\<close> (string literals), \<open>JsonText\<close>
    (writer, lexer and parser of texts), \<open>JsonEncode\<close> (structs to trees, types of trees).
  \<^item> \<open>Prober\<close> (prober.go, the types of main.go): targets, phases, outcomes, results, \<open>toResult\<close>.
  \<^item> \<open>World\<close>: clock, sockets, context, random source, environment variables and crypto library as
    oracles on the history of calls, and the contract of the \<open>Prober\<close> interface as the locale
    \<open>prober\<close>.
  \<^item> \<open>ProberTls\<close> (prober_tls.go), \<open>UdpExchange\<close> and \<open>ProberUdp\<close> (prober_udp.go), \<open>WgNoise\<close> and
    \<open>ProberWg\<close> (prober_wireguard.go): the three probers, each an interpretation of \<open>prober\<close>.
  \<^item> \<open>Registry\<close> (registry and \<open>probe\<close> of prober.go), \<open>LoadTargets\<close> and \<open>RunAll\<close> (main.go): the
    registry, the targets file, and the goroutines of \<open>runAll\<close> as a step relation; \<open>TargetsFile\<close>:
    files written with the struct tags of \<open>Target\<close>.
  \<^item> \<open>Prom\<close> (the exporter of main.go), \<open>Report\<close> (the JSON report) and \<open>Golden\<close> (the fixture of
    golden_test.go).
  \<^item> \<open>Push\<close> (push.go), \<open>Ingest\<close> (routers/ingest.py, models.py, schemas.py) with the locale
    \<open>idempotent_store\<close>, \<open>Wire\<close> (the text between the two), and \<open>PushIngest\<close> (security.py, and client
    and service over an unreliable network, locale \<open>pushed_store\<close>).
  \<^item> \<open>IngestConcurrent\<close>: the ingest handler as transactions interleaved statement by statement;
    \<open>Nodes\<close> (routers/nodes.py, routers/health.py) and \<open>Metrics\<close> (routers/metrics.py): the queries.
  \<^item> \<open>Flags\<close> (the command line) and \<open>MainCmd\<close> (\<open>main\<close>): output and exit codes. \<open>Concrete\<close>: concrete
    surroundings for examples.

  How state corresponds to code. A Go pointer is an option. A function that can panic returns an
  option, \<open>None\<close> being the panic; a Go error is a value of \<open>go_error\<close>, \<open>load_err\<close>, \<open>flag_err\<close> or
  \<open>push_error\<close>. A prober threads the trace of its calls; a world answers each call as a function of
  the trace, so a statement about all worlds covers all behaviours of kernel, network and clock.
  Instants and durations are integers of nanoseconds (microseconds in the database). The goroutines
  of \<open>runAll\<close> have a world each and share counter, semaphore and channel, which are the state of
  \<open>pool_step\<close>. The tables of probestore are lists of rows; a server is the committed tables and the
  transactions under way, each with the rows it has not committed.

  What the lemmas show. C1 to C3: no interleaving of \<open>runAll\<close> panics, exceeds the concurrency limit,
  gets stuck or runs forever, and the results are one per target. C4 to C8: the verdict of a probe and
  the projection of outcomes. C9 to C11: which target files load, that a loaded target is dialled,
  and that files written for the program are loaded back. C12 to C17: the TLS and UDP probers, with a
  refinement of the retry loop (C14), its time budget (C16) and the error it leaves (C17). C18 to C21:
  the WireGuard initiation is opened by a responder, and which replies and keys are taken. C22 to C26:
  the JSON report and the exporter's text, each read back. C27 to C31: pushing and ingesting, exactly
  once from the result to the row. C32 and C33: concurrent requests, and that a request on its own is
  the handler as one function. C34 to C37: listing, history and metrics. C38 to C40: the command line,
  the report of the whole process, and its exit codes.

  Parameters and hypotheses. BLAKE2s, ChaCha20-Poly1305 and X25519 are the record \<open>crypto\<close>;
  \<open>crypto_ok\<close> states output lengths, that opening inverts sealing and that both sides of a key
  agreement get the same secret. \<open>strconv.Quote\<close>, the texts of library errors, \<open>sort.Slice\<close>, the
  usage text, the HTTP client and the timer are arguments. So are the bearer scheme of the web
  framework, pydantic's parsers of UUIDs, timestamps and numbers, of which \<open>py_ok\<close> states what its
  documentation says of the texts the client writes, and the order PostgreSQL gives rows a query
  leaves unordered, of which \<open>planner_ok\<close> states that it is a permutation. Every hypothesis has an
  instance in \<open>Concrete\<close> or beside the witness that uses it. Loops are recursions on lists or on
  the number of attempts left, or carry a termination proof; no definition can run out of fuel.

  Not modelled. The wiring of the web framework, configuration, sessions and the migrations
  (app/main.py, config.py, db.py, migrations/): glue over libraries that are not part of the
  repository. Failures of writes to standard output. The 64-bit range of \<open>time.Duration\<close> inside the
  probers: flags are read with their overflow checks, sums of instants and durations are exact.
  NaN, infinities and subnormal floats, which no measured duration yields. Sequence values lost by
  a rolled back transaction in \<open>ingest_run\<close>, and the deletion of rows, which no endpoint does.
  A \<open>since\<close> without a time zone, which the database driver refuses.
\<close>

section \<open>Running all probes\<close>

text \<open>C1. Whatever the interleaving of the goroutines of \<open>runAll\<close>, nothing panics (no send on the
  closed channel, no negative \<open>WaitGroup\<close>), at most \<open>conc\<close> goroutines (one, if \<open>conc\<close> is below one)
  hold a permit, a goroutine that has probed finds the channel open and with room for its result,
  and \<open>main\<close> closes the channel only after every goroutine has finished.\<close>

theorem runAll_safe:
  assumes "runAll_reach Ws targets timeout conc s"
  shows "p_main s \<noteq> Panicked \<and> in_flight s \<le> permits conc \<and>
    (\<forall>i r. i < length targets \<and> p_g s ! i = Ready r \<longrightarrow>
       \<not> p_closed s \<and> length (p_out s) < length targets) \<and>
    (p_closed s \<longrightarrow> (\<forall>i < length targets. p_g s ! i = Finished))"
proof -
  note inv = runAll_inv [OF assms]
  have "\<not> p_closed s \<and> length (p_out s) < length targets"
    if "i < length targets" "p_g s ! i = Ready r" for i r
    using that send_room [OF inv, of i] pool_invD(7) [OF inv] pool_invD(8) [OF inv, of i] by (auto simp: delivered_def)
  then show ?thesis using pool_invD(2,7,8) [OF inv] in_flight_bound [OF inv] by blast
qed

lemma example_spawned:
  "runAll_reach Ws [t] d conc
     (pool_init 1\<lparr>p_main := Launch 1, p_wg := 1, p_g := [Starting]\<rparr>)"
  unfolding runAll_reach_def
  using pool_reach.step [OF pool_reach.start pool_step.spawn [of "pool_init 1" 0 1]]
  by (simp add: pool_init_def)

theorem runAll_safe_witness:
  "\<exists>s. p_g s = [Probing] \<and> in_flight s = 1 \<and> permits 0 = 1 \<and> p_main s \<noteq> Panicked \<and>
     in_flight s \<le> permits 0"
proof -
  let ?W = "\<lambda>_. example_world call_clock late_answer []"
  let ?s = "pool_init 1\<lparr>p_main := Launch 1, p_wg := 1, p_g := [Probing], p_sem := 1\<rparr>"
  have "runAll_reach ?W [example_target [] None] 5 0 ?s"
    unfolding runAll_reach_def
    using pool_reach.step [OF example_spawned [of ?W "example_target [] None" 5 0, unfolded runAll_reach_def]
        pool_step.acquire [of _ 0 "length [example_target [] None]" 0]]
    by (simp add: pool_init_def permits_def)
  from runAll_safe [OF this] show ?thesis
    by (intro exI [of _ ?s]) (simp add: in_flight_def busy_def permits_def)
qed

text \<open>C2. From every reachable state of \<open>runAll\<close> the run can be completed, no goroutine being stuck
  on the semaphore, the channel or the counter, and whenever it returns, the list it returns holds
  exactly one result per target: the target's probe, stamped with the time it finished.\<close>

theorem runAll_complete:
  assumes "runAll_reach Ws targets timeout conc s"
  shows "(\<exists>s' acc. (runAll_step Ws targets timeout conc)\<^sup>*\<^sup>* s s' \<and> p_main s' = Returned acc) \<and>
    (\<forall>acc. p_main s = Returned acc \<longrightarrow> mset acc = mset (runAll_results Ws targets timeout))"
  using pool_completes [OF runAll_inv [OF assms] probe_job_total] returned_results [OF runAll_inv [OF assms]]
  unfolding runAll_step_def runAll_results_def by blast

theorem runAll_complete_witness:
  "\<exists>s' acc. (runAll_step (\<lambda>_. example_world call_clock late_answer []) [example_target [] None] 5 0)\<^sup>*\<^sup>*
     (pool_init 1) s' \<and> p_main s' = Returned acc"
proof -
  have "runAll_reach (\<lambda>_. example_world call_clock late_answer []) [example_target [] None] 5 0 (pool_init 1)"
    unfolding runAll_reach_def using pool_reach.start [of _ "length [example_target [] None]" 0] by simp
  from runAll_complete [OF this] show ?thesis by blast
qed

text \<open>C3. No run of \<open>runAll\<close> is longer than eight steps per target and four for \<open>main\<close>, whatever the
  scheduler does.\<close>

theorem runAll_bounded:
  assumes "pool_run (probe_job Ws targets timeout) (length targets) conc k s"
  shows "k \<le> 8 * length targets + 4"
  using pool_run_bound [OF assms probe_job_total] by simp

theorem runAll_bounded_witness:
  "\<exists>s. pool_run (probe_job (\<lambda>_. example_world call_clock late_answer []) [example_target [] None] 5)
     (length [example_target [] None]) 1 1 s \<and> (1::nat) \<le> 8 * length [example_target [] None] + 4"
proof -
  let ?job = "probe_job (\<lambda>_. example_world call_clock late_answer []) [example_target [] None] 5"
  have "pool_run ?job (length [example_target [] None]) 1 (Suc 0)
      (pool_init 1\<lparr>p_main := Launch 1, p_wg := 1, p_g := [Starting]\<rparr>)"
    using pool_run.run_step [OF pool_run.run_start pool_step.spawn [of "pool_init 1" 0 1]]
    by (simp add: pool_init_def)
  from this runAll_bounded [OF this] show ?thesis by auto
qed

section \<open>One probe\<close>

text \<open>C4. \<open>probe\<close> never panics, for any target and any surroundings, and reports a success exactly
  when it reports no error.\<close>

theorem probe_verdict:
  "\<exists>r h'. probe W t timeout h = Some (r, h') \<and> (r_OK r \<longleftrightarrow> r_Error r = [])"
  using probe_total probe_ok_iff_no_error by blast

text \<open>C5. A result keeps the name, address, region, provider and protocol of its target and never
  echoes the target's parameters.\<close>

theorem probe_keeps_identity:
  "\<exists>r h'. probe W t timeout h = Some (r, h') \<and>
     (\<exists>sni. r_Target r = t\<lparr>t_SNI := sni, t_Params := None\<rparr>)"
proof -
  obtain r h' where p: "probe W t timeout h = Some (r, h')" using probe_total by blast
  have "r_Target r = t\<lparr>t_SNI := t_SNI (r_Target r), t_Params := None\<rparr>"
    using probe_identity [OF p] by simp
  then show ?thesis using p by blast
qed

text \<open>C6. Which outputs a result feeds follows from its target alone, however far the probe got: the
  \<open>tcp_*\<close>, \<open>tls_*\<close> and \<open>cert_match\<close> fields are all present for a TCP+TLS target and all absent for
  any other, and only an anonymous WireGuard target makes no claim of liveness.\<close>

theorem probe_routing:
  "\<exists>r h'. probe W t timeout h = Some (r, h') \<and>
     legacy_present r = replicate 5 (kind_of t = ''tls'') \<and>
     (r_noLivenessClaim r \<longleftrightarrow> \<not> liveness_claim t)"
  using probe_total probe_legacy probe_family by blast

text \<open>C7. \<open>toResult\<close> dereferences no nil pointer on any outcome; its verdict is that all phases of a
  non-empty list passed, and its error names the first phase that failed.\<close>

theorem toResult_verdict:
  "\<exists>r. toResult t o' = Some r \<and> (r_OK r \<longleftrightarrow> o_Phases o' \<noteq> [] \<and> list_all ph_OK (o_Phases o')) \<and>
     r_Error r = (case find (\<lambda>ph. \<not> ph_OK ph) (o_Phases o') of
                    None \<Rightarrow> [] | Some bad \<Rightarrow> ph_Name bad @ '': '' @ ph_Err bad)"
proof -
  have "find (\<lambda>ph. \<not> ph_OK ph) ps = first_failed ps" for ps by (induction ps) simp_all
  moreover have "list_all ph_OK (o_Phases o') \<longleftrightarrow> first_failed (o_Phases o') = None"
    by (simp add: first_failed_None list_all_iff)
  ultimately show ?thesis by (auto simp: toResult_eq result_simps failed_def split: option.split)
qed

text \<open>C8. The phases are reported in full exactly when the legacy fields cannot express them; a phase
  that was never reached is a false verdict and a zero duration, never an absent field.\<close>

theorem toResult_phases:
  "\<exists>r. toResult t o' = Some r \<and>
     (if usesLegacyPhases o'
      then r_Phases r = [] \<and>
        r_TCPOK r = Some (phase_value False ph_OK (last_phase phaseTCP (o_Phases o'))) \<and>
        r_TLSOK r = Some (phase_value False ph_OK (last_phase phaseTLS (o_Phases o'))) \<and>
        r_TCPTime r = Some (phase_value 0 (seconds \<circ> ph_Duration) (last_phase phaseTCP (o_Phases o'))) \<and>
        r_TLSTime r = Some (phase_value 0 (seconds \<circ> ph_Duration) (last_phase phaseTLS (o_Phases o')))
      else r_Phases r = map to_phaseJSON (o_Phases o') \<and> r_TCPOK r = None \<and> r_TLSOK r = None \<and>
        r_TCPTime r = None \<and> r_TLSTime r = None)"
  by (simp add: toResult_eq result_simps)

section \<open>Loading targets\<close>

text \<open>C9. While the random source works, \<open>loadTargets\<close> accepts a file exactly if it decodes to a
  non-empty list in which every target names a known protocol, has an address, has parameters its
  prober can use and, for WireGuard, an initiator identity; it then returns exactly that list.\<close>

theorem loadTargets_accepts:
  assumes "rand_works W"
  shows "(\<exists>h1. loadTargets W path file h = (Inr ts, h1)) \<longleftrightarrow>
    ts = file_targets file \<and> ts \<noteq> [] \<and> (\<forall>t \<in> set ts. probeable W t)"
  by (rule loadTargets_iff [OF assms])

theorem loadTargets_accepts_witness:
  "\<exists>h1. loadTargets (example_world call_clock late_answer []) ''targets.json'' (Inr (unlines targets_legacy)) [] =
     (Inr (file_targets (Inr (unlines targets_legacy))), h1)"
  by (subst loadTargets_accepts) (simp_all add: legacy_targets probeable_def kind_of_def defaultProto_def)

text \<open>C10. A target of a loaded list takes none of the configuration branches, neither that of \<open>probe\<close>
  nor those of the probers, which report a failure without going to the network: its prober is
  found, dials the target's address over the prober's transport, and \<open>probe\<close> returns what its
  outcome projects to. The environment is that of loading; for WireGuard, which alone can still
  fail before it dials, the random source and the key agreement with the peer's key must work.\<close>

theorem loaded_targets_probed:
  assumes "loadTargets W path file h = (Inr ts, h1)" "t \<in> set ts" "w_getenv W' = w_getenv W"
    and "kind_of t = ''wireguard'' \<Longrightarrow> rand_works W' \<and> crypto_ok (w_crypto W') \<and> keys_agree W' t"
  shows "t_Addr t \<noteq> [] \<and>
    (\<exists>p o' c. proberFor probers t = Inr p \<and> pr_Kind p = kind_of t \<and>
       pr_Probe p W' t timeout h2 = Some (o', c @ h2) \<and>
       Dial (if kind_of t = ''tls'' then ''tcp'' else ''udp'') (t_Addr t) timeout \<in> set c \<and>
       probe W' t timeout h2 = map_option (\<lambda>r. (r, c @ h2)) (toResult t o'))"
proof -
  have t: "probeable W t" using loadTargets_ok(2) [OF assms(1)] assms(2) by blast
  then have "t_Addr t \<noteq> []" by (simp add: probeable_def)
  moreover obtain p o' c where "proberFor probers t = Inr p" "pr_Kind p = kind_of t"
    "pr_Probe p W' t timeout h2 = Some (o', c @ h2)"
    "Dial (if kind_of t = ''tls'' then ''tcp'' else ''udp'') (t_Addr t) timeout \<in> set c"
    using probeable_dialled [OF t assms(3,4), of timeout h2] by blast
  ultimately show ?thesis by (auto simp: probe_def toResult_eq)
qed

theorem loaded_targets_probed_witness:
  "\<exists>o' c. udp_probe (example_world call_clock late_answer []) (example_target ''udp'' None) 5 [] = Some (o', c) \<and>
     Dial ''udp'' ''1.2.3.4:443'' 5 \<in> set c"
proof -
  let ?t = "example_target ''udp'' None" and ?W = "example_world call_clock late_answer []"
  obtain h1 where load: "loadTargets ?W [] (Inr (compact (targets_tree [?t]))) [] = (Inr [?t], h1)"
    using example_udp_loaded by blast
  have "kind_of ?t = ''udp''" by (simp add: kind_of_def example_target_def)
  then show ?thesis
    using loaded_targets_probed [OF load, of ?t ?W 5 "[]"]
    by (auto simp: proberFor_cases udp_ops_def example_target_def)
qed

text \<open>C11. A targets file written with the struct tags of \<open>Target\<close>, compact or indented, loads back: if
  every target in it can be probed, \<open>loadTargets\<close> returns the list that was written, in order, with
  nothing lost but bytes that are no UTF-8.\<close>

theorem targets_file_round_trip:
  assumes "rand_works W" "ts \<noteq> []" "list_all writable_target ts" "list_all (probeable W \<circ> clean_target) ts"
  shows "(\<exists>h1. loadTargets W path (Inr (compact (targets_tree ts))) h = (Inr (map clean_target ts), h1)) \<and>
    (\<exists>h1. loadTargets W path (Inr (indented (targets_tree ts))) h = (Inr (map clean_target ts), h1))"
  using assms(2,4) loadTargets_iff [OF assms(1)]
  by (auto simp: file_targets_written [OF assms(3)] list_all_iff)

theorem targets_file_round_trip_witness:
  "\<exists>h1. loadTargets (example_world call_clock late_answer []) ''targets.json''
     (Inr (indented (targets_tree [example_target [] None]))) [] = (Inr [example_target [] None], h1)"
proof -
  have "clean_target (example_target [] None) = example_target [] None"
    by (simp add: clean_target_def example_target_def sanitize_valid ascii_valid)
  moreover have "probeable (example_world call_clock late_answer []) (example_target [] None)"
    by (simp add: probeable_def kind_of_def defaultProto_def example_target_def)
  moreover have "writable_target (example_target [] None)" by (simp add: writable_target_def example_target_def)
  ultimately show ?thesis
    using targets_file_round_trip [of "example_world call_clock late_answer []" "[example_target [] None]"]
    by simp
qed

section \<open>The TLS prober\<close>

text \<open>C12. The server name a TLS probe reports is the one resolved before the first phase, whether the
  probe fails at TCP, fails in the handshake or passes; a phase after the first is tried only when
  the first passed; a certificate match is reported only by a completed handshake.\<close>

theorem tls_probe_outcome:
  assumes "tls_probe W t timeout h = Some (o', h')"
  shows "\<exists>i. o_TLS o' = Some i \<and> ServerName i = effective_sni t \<and>
    map ph_Name (o_Phases o') \<in> {[phaseTCP], [phaseTCP, phaseTLS]} \<and>
    (length (o_Phases o') = 2 \<longleftrightarrow> ph_OK (hd (o_Phases o'))) \<and>
    (tls_CertMatch i \<longrightarrow> failed o' = None)"
  using assms by (cases rule: tls_probe_cases) (auto simp: failed_def)

theorem tls_probe_outcome_witness:
  "\<exists>o' h' i. tls_probe (example_world call_clock late_answer []) (example_target [] None) 5 [] = Some (o', h') \<and>
     o_TLS o' = Some i \<and> ServerName i = ''1.2.3.4'' \<and> \<not> tls_CertMatch i"
proof -
  let ?W = "example_world call_clock late_answer []"
  obtain o' h' where p: "tls_probe ?W (example_target [] None) 5 [] = Some (o', h')"
    using tls_probe_total by blast
  have "failed o' \<noteq> None"
    using p by (auto simp: tls_defs example_world_def failed_def)
  moreover have "effective_sni (example_target [] None) = ''1.2.3.4''"
    using split_host_port_plain [of "''1.2.3.4''" "''443''"] by (simp add: effective_sni_def example_target_def)
  ultimately show ?thesis using p tls_probe_outcome [OF p] by auto
qed

section \<open>The UDP prober\<close>

text \<open>C13. A UDP probe returns for any parameters, puts nothing but its payload on the wire, sends at
  least nothing for parameters it rejects and at most the configured number of datagrams, between
  one and ten, otherwise.\<close>

theorem udp_probe_datagrams:
  "\<exists>o' c. udp_probe W t timeout h = Some (o', c @ h) \<and>
     (case parseUDPParams (t_Params t) of
        Inl e \<Rightarrow> c = [] \<and> map ph_Err (o_Phases o') = [err_text W e]
      | Inr (payload, attempts) \<Rightarrow>
          set (writes c) \<subseteq> {payload} \<and> int (length (writes c)) \<le> attempts \<and>
          1 \<le> attempts \<and> attempts \<le> 10 \<and> payload \<noteq> [])"
proof (cases "parseUDPParams (t_Params t)")
  case (Inl e)
  then show ?thesis by (auto simp: udp_probe_def config_failure_def)
next
  case (Inr v)
  obtain payload attempts where v: "v = (payload, attempts)" by (cases v)
  note b = parseUDPParams_bounds [OF Inr [unfolded v]]
  obtain phs reply h' where run:
    "udp_run W (udp_exchange_of t payload attempts) timeout h = Some ((phs, reply), h')"
    using udp_run_total [of "udp_exchange_of t payload attempts" W timeout h] b by auto
  obtain c where c: "h' = c @ h" "set (writes c) \<subseteq> {payload}" "int (length (writes c)) \<le> attempts"
    using udp_run_datagrams [OF run] b by auto
  have "udp_probe W t timeout h = Some (empty_outcome\<lparr>o_Phases := phs\<rparr>, c @ h)"
    using run by (simp add: udp_probe_def Inr v c(1))
  then show ?thesis using Inr v b c by auto
qed

text \<open>C14. The attempts of a UDP exchange refine an abstract decision over the answers alone: while
  nothing local fails and the phase deadline is not reached, the loop goes through the answers in
  order, a timeout moves on to the next attempt, and the first other answer decides.\<close>

theorem udp_loop_refines_decide:
  assumes "calm W deadline answer" "total_accept x" "reads h = 0"
  shows "\<exists>h'. udp_loop W x deadline slc 0 n err h =
    Some (decide (accept_fun x) (map answer [1..<Suc n]) err, h')"
  using udp_loop_refines [OF assms(1,2), of slc 0 n err h] assms(3) by simp

theorem udp_loop_refines_decide_witness:
  "\<exists>h'. udp_loop (example_world (\<lambda>h. 0) late_answer []) (udp_exchange_of (example_target [] None) [0] 3)
      9 3 0 3 [] [] = Some (stop_answered ''i/o timeout'' [1], h')"
proof -
  have "calm (example_world (\<lambda>h. 0) late_answer []) 9 late_answer"
    by (rule example_calm) simp
  from udp_loop_refines_decide [OF this, of "udp_exchange_of (example_target [] None) [0] 3" "[]" 3 3 "[]"]
  show ?thesis by (simp add: late_answer_def upt_rec accept_fun_def mtu_def)
qed

text \<open>C15. A UDP phase that waits for an answer passes only for a reason: the newest read brought a
  datagram the acceptance check took, every earlier read of the run having timed out, or the probe
  tolerates silence and every read timed out.\<close>

theorem udp_phase_passes:
  assumes "udp_run W x timeout h = Some (([sp, rp], reply), h')" "ph_OK rp"
  shows "\<exists>c. h' = c @ h \<and>
    ((\<exists>d as. read_answers W c h = Datagram d # as \<and> (\<forall>a \<in> set as. timed_out a) \<and>
        reply = take mtu d \<and> (\<forall>f. x_accept x = Some f \<longrightarrow> f reply = Some Accepted)) \<or>
     x_silenceOK x \<and> reply = [] \<and> ph_Err rp = [] \<and>
       (\<forall>a \<in> set (read_answers W c h). timed_out a))"
  by (rule udp_run_passed [OF assms])

theorem udp_phase_passes_witness:
  "\<exists>sp rp h' c as. udp_run (example_world (\<lambda>h. 0) late_answer []) (udp_exchange_of (example_target [] None) [0] 3)
       10 [] = Some (([sp, rp], [1]), h') \<and> h' = c @ [] \<and>
     read_answers (example_world (\<lambda>h. 0) late_answer []) c [] \<noteq> []"
proof -
  let ?W = "example_world (\<lambda>h. 0) late_answer []" and ?x = "udp_exchange_of (example_target [] None) [0] 3"
  obtain sp rp h' where run: "udp_run ?W ?x 10 [] = Some (([sp, rp], [1]), h')" "ph_OK rp"
    using example_lost_datagram [of "[]" "example_target [] None" "[0]"] by auto
  from udp_phase_passes [OF this] show ?thesis using run(1) by (auto 0 3)
qed

text \<open>C16. The waiting phase keeps to its budget: with a clock on which no call but a dial or a read
  takes longer than \<open>eps\<close> and a read returns at its deadline at the latest, up to \<open>eps\<close>, all attempts
  together last no longer than the timeout and six \<open>eps\<close> per attempt.\<close>

theorem udp_phase_budget:
  assumes "punctual W eps" "0 \<le> timeout" "0 < x_attempts x"
    and "udp_run W x timeout h = Some (([sp, rp], reply), h')"
  shows "ph_Duration rp \<le> timeout + (6 * x_attempts x + 1) * eps"
  by (rule udp_run_budget [OF assms])

theorem udp_phase_budget_witness:
  "\<exists>sp rp h'. udp_run (example_world call_clock (\<lambda>n. Datagram [1]) [])
       (udp_exchange_of (example_target [] None) [0] 3) 100 [] = Some (([sp, rp], [1]), h') \<and>
     ph_Duration rp \<le> 119"
proof -
  let ?W = "example_world call_clock (\<lambda>n. Datagram [1]) []" and ?x = "udp_exchange_of (example_target [] None) [0] 3"
  obtain sp rp h' where run: "udp_run ?W ?x 100 [] = Some (([sp, rp], [1]), h')"
    using example_answered [of "[]" "example_target [] None" "[0]"] by blast
  from udp_phase_budget [OF example_punctual _ _ run] show ?thesis using run by auto
qed

text \<open>C17. A UDP probe that succeeds was answered, by the last of its reads, and reports two passing
  phases. The second carries the error of the last datagram that was lost before the answer, and no
  error only if none was: a passing phase is reported with an error text.\<close>

theorem udp_stale_error:
  assumes "kind_of t = ''udp''" "probe W t timeout h = Some (r, h')" "r_OK r"
  shows "\<exists>c d as. h' = c @ h \<and> read_answers W c h = Datagram d # as \<and> (\<forall>a \<in> set as. timed_out a) \<and>
    r_Error r = [] \<and> map pj_OK (r_Phases r) = [True, True] \<and>
    map pj_Error (r_Phases r) = [[], case as of [] \<Rightarrow> [] | a # _ \<Rightarrow> read_error a]"
proof -
  obtain o' where o': "udp_probe W t timeout h = Some (o', h')" "toResult t o' = Some r"
    using assms(2,1) by (cases rule: probe_cases) (auto simp: proberFor_cases udp_ops_def)
  have "ph_OK (last (o_Phases o'))" using udp.result_verdict(1) [OF o'] assms(3) by simp
  moreover have st: "o_Phases o' \<noteq> []" "\<forall>ph \<in> set (butlast (o_Phases o')). ph_OK ph"
    using udp_probe_phases(1) [OF o'(1)] by (simp_all add: stops_at_failure_def)
  ultimately have "\<forall>ph \<in> set (butlast (o_Phases o') @ [last (o_Phases o')]). ph_OK ph"
    by (simp del: append_butlast_last_id)
  then have "\<forall>ph \<in> set (o_Phases o'). ph_OK ph" unfolding append_butlast_last_id [OF st(1)] .
  from udp_probe_answered [OF o'(1) this] obtain c d as sp rp where a: "h' = c @ h"
    "read_answers W c h = Datagram d # as" "\<forall>a \<in> set as. timed_out a" "o_Phases o' = [sp, rp]"
    "ph_OK sp" "ph_OK rp" "ph_Err sp = []" "ph_Err rp = last_error [] as" by blast
  have "r_Phases r = map to_phaseJSON [sp, rp]"
    using toResult_legacy(2) [OF o'(2)] udp_probe_not_legacy [OF o'(1)] a(4) by simp
  moreover have "r_Error r = []" using probe_ok_iff_no_error [OF assms(2)] assms(3) by simp
  ultimately show ?thesis using a(1-3,5-8) by (auto simp: to_phaseJSON_def last_error_def)
qed

theorem udp_stale_error_witness:
  "\<exists>r h'. probe (example_world (\<lambda>h. 0) late_answer []) (example_target ''udp'' None) 10 [] = Some (r, h') \<and>
     (\<exists>c d as. h' = c @ [] \<and> read_answers (example_world (\<lambda>h. 0) late_answer []) c [] = Datagram d # as \<and>
        map pj_Error (r_Phases r) = [[], case as of [] \<Rightarrow> [] | a # _ \<Rightarrow> read_error a])"
proof -
  let ?W = "example_world (\<lambda>h. 0) late_answer []" and ?t = "example_target ''udp'' None"
  let ?phs = "[\<lparr>ph_Name = ''udp'', ph_OK = True, ph_Duration = 0, ph_Err = []\<rparr>,
    \<lparr>ph_Name = ''response'', ph_OK = True, ph_Duration = 0, ph_Err = ''i/o timeout''\<rparr>]"
  obtain h' where "udp_run ?W (udp_exchange_of ?t [0] 3) 10 [] = Some ((?phs, [1]), h')"
    using example_lost_datagram by blast
  moreover have "parseUDPParams (t_Params ?t) = Inr ([0], 3)"
    by (simp add: parseUDPParams_def udp_zero_def udp_payload_def check_attempts_def
        defaultUDPAttempts_def example_target_def)
  ultimately have udp: "udp_probe ?W ?t 10 [] = Some (empty_outcome\<lparr>o_Phases := ?phs\<rparr>, h')"
    by (simp add: udp_probe_def)
  have k: "kind_of ?t = ''udp''" by (simp add: kind_of_def example_target_def)
  obtain r h2 where r: "probe ?W ?t 10 [] = Some (r, h2)" using probe_total by blast
  then have "toResult ?t (empty_outcome\<lparr>o_Phases := ?phs\<rparr>) = Some r"
    using k udp by (cases rule: probe_cases) (auto simp: proberFor_cases udp_ops_def)
  then have "r_OK r" using udp.result_verdict(1) [OF udp] by simp
  from udp_stale_error [OF k r this] obtain c d as where a: "h2 = c @ []"
    "read_answers ?W c [] = Datagram d # as"
    "map pj_Error (r_Phases r) = [[], case as of [] \<Rightarrow> [] | a # _ \<Rightarrow> read_error a]" by (elim exE conjE)
  show ?thesis
    by (rule exI [of _ r], rule exI [of _ h2], rule conjI [OF r], rule exI [of _ c], rule exI [of _ d],
        rule exI [of _ as], intro conjI a)
qed

section \<open>The WireGuard prober\<close>

text \<open>C18. A responder that follows the protocol opens every initiation the prober builds: it recovers
  the prober's static public key and timestamp, whatever ephemeral key and sender index were drawn.\<close>

theorem initiation_consumed:
  assumes "crypto_ok (w_crypto W)" "length responder = 32" "length static = 32"
    and "buildWGInitiation W (cr_pub (w_crypto W) responder) static now h = (Inr m, h')"
  shows "consumeInitiation (w_crypto W) responder (wi_packet m) =
    Some (cr_pub (w_crypto W) static, wgTAI64N now)"
proof -
  obtain eph h1 idx where "sys_rand W 32 h = (Inr eph, h1)"
    "assemble_initiation (w_crypto W) (cr_pub (w_crypto W) responder) static now eph idx = Inr m"
    using assms(4) by (auto simp: buildWGInitiation_def split: sum.splits prod.splits)
  then show ?thesis
    using consume_assembled [OF assms(1-3)] sys_rand_length by blast
qed

theorem initiation_consumed_witness:
  "\<exists>m h'. buildWGInitiation (example_world call_clock late_answer []) (replicate 32 1) (replicate 32 2) 3 [] =
       (Inr m, h') \<and>
     consumeInitiation toy_crypto (replicate 32 1) (wi_packet m) = Some (replicate 32 2, wgTAI64N 3)"
proof -
  let ?W = "example_world call_clock late_answer []" and ?R = "replicate 32 1 :: bytes"
    and ?S = "replicate 32 2 :: bytes"
  have pub: "length p = 32 \<Longrightarrow> cr_pub toy_crypto p = p" for p by (simp add: toy_crypto_def)
  obtain m h' where b: "buildWGInitiation ?W ?R ?S 3 [] = (Inr m, h')"
    using toy_assembles [of ?R ?S 3 "replicate 32 7" "replicate 4 7"]
    by (auto simp: buildWGInitiation_def sys_rand_def)
  have "consumeInitiation (w_crypto ?W) ?R (wi_packet m) = Some (cr_pub (w_crypto ?W) ?S, wgTAI64N 3)"
    using b by (intro initiation_consumed [where h = "[]" and h' = h']) (simp_all add: toy_crypto_ok pub)
  then show ?thesis using b by (auto simp: pub)
qed

text \<open>C19. An initiation that leaves the builder has the fixed layout of 148 bytes: type and reserved
  bytes, the sender index that its answer must echo, \<open>mac1\<close> over everything before it under the hash
  of the responder's key, and a zero \<open>mac2\<close>.\<close>

theorem initiation_layout:
  assumes "crypto_ok C" "assemble_initiation C peerPub static now eph idx = Inr m"
  shows "length (wi_packet m) = 148 \<and> take 4 (wi_packet m) = [1, 0, 0, 0] \<and>
    get_u32_le (take 4 (drop 4 (wi_packet m))) = wi_senderIndex m \<and>
    take 32 (drop 8 (wi_packet m)) = cr_pub C eph \<and>
    take 16 (drop 116 (wi_packet m)) = mac1_of C peerPub (take 116 (wi_packet m)) \<and>
    drop 132 (wi_packet m) = replicate 16 0"
  using assms
proof (cases rule: assemble_cases)
  case (1 dh1 dh2 encS encT)
  have pub: "length (cr_pub C eph) = 32" and mac: "length (mac1_of C p b) = 16" for p b
    using crypto_okD [OF assms(1)] by (simp_all add: mac1_of_def)
  show ?thesis
    using 1(5-8) pub mac packet_slices [OF pub 1(5,6) mac 1(8)]
    by (simp add: packet_body_def wgMsgInitiation_def codec_simps)
qed

theorem initiation_layout_witness:
  "\<exists>m. assemble_initiation toy_crypto (replicate 32 1) (replicate 32 2) 3 (replicate 32 7) [1, 2, 3, 4] = Inr m \<and>
     length (wi_packet m) = 148 \<and> drop 132 (wi_packet m) = replicate 16 0"
proof -
  obtain m where m: "assemble_initiation toy_crypto (replicate 32 1) (replicate 32 2) 3 (replicate 32 7)
      [1, 2, 3, 4] = Inr m"
    using toy_assembles by blast
  from initiation_layout [OF toy_crypto_ok m] show ?thesis using m by blast
qed

text \<open>C20. A datagram is taken for the answer to an initiation exactly if it is a handshake response of
  92 bytes that echoes our sender index; in anonymous mode a cookie reply of 64 bytes passes as well.
  No other datagram passes and none makes a check panic.\<close>

theorem response_accepted_iff:
  "(\<exists>v. validateResponse init reply = Some v \<and> (v = Accepted \<longleftrightarrow> answers init reply)) \<and>
   (\<exists>v. acceptAnonymous init reply = Some v \<and>
      (v = Accepted \<longleftrightarrow> answers init reply \<or> cookie_reply reply))"
  using validateResponse_total [of init reply] validateResponse_iff [of init reply]
    acceptAnonymous_total [of init reply] acceptAnonymous_iff [of init reply] by auto

text \<open>C21. While the random source works, validation of a WireGuard target succeeds exactly with an
  address, usable parameters and an identity: a well-formed key in the environment or, if there is
  none, the target's consent to an anonymous probe.\<close>

theorem wireguard_validated:
  assumes "rand_works W"
  shows "(\<exists>h1. wg_validate W t h = (None, h1)) \<longleftrightarrow>
    t_Addr t \<noteq> [] \<and>
    (\<exists>cfg. parseWGParams (t_Params t) = Inr cfg \<and>
       (if w_getenv W wgPrivateKeyEnv = [] then wc_anonymous cfg
        else (\<exists>key. wgParsePrivateKey (w_getenv W wgPrivateKeyEnv) = Inr key)))"
proof -
  have "(\<exists>h1. wg_validate W t h = (None, h1)) \<longleftrightarrow> wg_usable W t"
    using wg_validate_usable usable_wg_validate [OF _ assms] by blast
  then show ?thesis
    by (auto simp: wg_usable_def wg_identity_available_def split: sum.splits if_splits)
qed

theorem wireguard_validated_witness:
  "\<nexists>h1. wg_validate (example_world call_clock late_answer []) (example_target ''wireguard'' None) [] = (None, h1)"
  by (subst wireguard_validated) (simp_all add: example_target_def parseWGParams_def)

section \<open>Output\<close>

text \<open>C22. The JSON report on the results of \<open>runAll\<close>, whatever they are, is refused only for a
  timestamp without text; otherwise it is a JSON text, and what a reader gets has the type of a
  report: a list of objects with the members of the struct tags, in order, the optional ones absent
  or well-typed, no other member and none twice.\<close>

theorem report_schema:
  "case encodeResults (runAll_results Ws targets timeout) of
     Inl e \<Rightarrow> e = year_error
   | Inr text' \<Rightarrow>
       parse_json text' = Some (cleaned (report_tree (runAll_results Ws targets timeout))) \<and>
       typed report_type (cleaned (report_tree (runAll_results Ws targets timeout)))"
proof (cases "encodeResults (runAll_results Ws targets timeout)")
  case (Inl e)
  then show ?thesis by (simp add: encodeResults_def split: if_splits)
next
  case (Inr text')
  then show ?thesis
    using parse_report [OF reportable_runAll Inr] parse_report_typed [OF reportable_runAll Inr] by simp
qed

text \<open>C23. The duration of a phase is reported as a decimal that reads back as the \<open>float64\<close> it came
  from, and below one second the decimal is the exact quotient of the nanoseconds.\<close>

theorem phase_seconds_exact:
  "\<exists>lit. phase_tree (to_phaseJSON ph) = JObj
      ([(''name'', JStr (ph_Name ph)), (''ok'', JBool (ph_OK ph)), (''seconds'', JNum lit)] @
       omit_empty ''error'' (ph_Err ph)) \<and>
    parse_float lit = Some (seconds (ph_Duration ph)) \<and>
    (0 \<le> ph_Duration ph \<and> ph_Duration ph < 1000000000 \<longrightarrow>
       number_value lit = Some (of_int (ph_Duration ph) / 1000000000))"
  using float_ok_values(1) [of "ph_Duration ph"] json_float_round_trip subsecond_literal
  by (intro exI [of _ "json_float (seconds (ph_Duration ph))"])
    (simp add: phase_tree_def to_phaseJSON_def always_def float_tree_def float_ok_def)

theorem phase_seconds_exact_witness:
  "\<exists>lit. phase_tree (to_phaseJSON \<lparr>ph_Name = ''tcp'', ph_OK = True, ph_Duration = 31000001, ph_Err = []\<rparr>) =
       JObj [(''name'', JStr ''tcp''), (''ok'', JBool True), (''seconds'', JNum lit)] \<and>
     number_value lit = Some (31000001 / 1000000000)"
  using phase_seconds_exact [of "\<lparr>ph_Name = ''tcp'', ph_OK = True, ph_Duration = 31000001, ph_Err = []\<rparr>"]
  by (auto simp: omit_empty_def)

text \<open>C24. A result whose timestamp has a year of four digits is encoded, and the timestamp in the
  report is read back to the nanosecond.\<close>

theorem timestamp_round_trip:
  assumes "reportable r" "marshalable (r_Timestamp r)"
  shows "\<exists>text' s ms. encodeResults [r] = Inr text' \<and> parse_json text' = Some (JArr [JObj ms]) \<and>
    map_of ms ''ts'' = Some (JStr s) \<and> read_rfc3339 s = Some (r_Timestamp r)"
  by (rule report_timestamp [OF assms])

theorem timestamp_round_trip_witness:
  "\<exists>text' s ms. encodeResults [example_result] = Inr text' \<and> parse_json text' = Some (JArr [JObj ms]) \<and>
     map_of ms ''ts'' = Some (JStr s) \<and> read_rfc3339 s = Some 1500"
proof -
  have r: "reportable example_result" "r_Timestamp example_result = 1500"
    by (simp_all add: reportable_def example_result_def newResult_def example_target_def float_ok_values)
  moreover have "marshalable 1500" using example_years(2) by (simp add: py_range_def)
  ultimately show ?thesis using timestamp_round_trip [of example_result] by metis
qed


text \<open>C26. A scraper reads the exporter's text back: for each of the five metrics, in order, the value of
  every result that has one, under the name and region of the result, whatever bytes these contain,
  and nothing else. Verdicts are 0 or 1, durations have four decimals.\<close>

theorem prom_scraped:
  "scrape_prom (writeProm rs) =
     map (\<lambda>r. reading ''vpnnode_up'' r (if r_OK r then ''1'' else ''0''))
       (filter (\<lambda>r. \<not> r_noLivenessClaim r) rs) @
     List.map_filter (\<lambda>r. map_option (\<lambda>s. reading ''vpnnode_tcp_connect_seconds'' r (fmt_f4 s)) (r_TCPTime r)) rs @
     List.map_filter (\<lambda>r. map_option (\<lambda>s. reading ''vpnnode_tls_handshake_seconds'' r (fmt_f4 s)) (r_TLSTime r)) rs @
     List.map_filter (\<lambda>r. map_option (\<lambda>b. reading ''vpnnode_cert_match'' r (if b then ''1'' else ''0''))
       (r_CertMatch r)) rs @
     map (\<lambda>r. reading ''vpnnode_initiation_sent'' r (if r_OK r then ''1'' else ''0''))
       (filter r_noLivenessClaim rs)"
proof -
  have "show_nat 0 = ''0''" "show_nat (Suc 0) = ''1''" by code_simp+
  then have verdict: "show_nat (boolToInt b) = (if b then ''1'' else ''0'')" for b
    by (simp add: boolToInt_def)
  show ?thesis
    unfolding scrape_writeProm tcp_value_def tls_value_def cert_value_def option.map_comp comp_def verdict
    by (simp add: map_filter_def up_value_def initiation_value_def verdict comp_def if_distrib [of "\<lambda>x. x \<noteq> None"]
        cong: if_cong)
qed

section \<open>Pushing and ingesting\<close>

text \<open>C27. Exactly once: when a push reports success over a network that may lose requests and answers
  but invents none, the service, which parses the posted text, has stored the run once: for each
  result with TCP and TLS verdicts, in order, one row with its timestamp to the microsecond, its
  verdicts, error, failed phase and latency, linked to the node of its address and SNI, no matter
  how many of the retried requests arrived.\<close>

theorem push_stored_once:
  assumes "db_inv d" "find_run u d = None" "py_ok P" "length u = 16"
    and "py_range startedAt" "list_all (\<lambda>r. py_range (r_Timestamp r)) results"
    and "buildPayload (format_uuid u) source startedAt results = Some payload"
    and "honest W (serve bearer api_token (read_body P fresh)) created reached h d"
    and "pushResults W url token payload h = (None, h')"
  shows "\<exists>c. h' = c @ h \<and> db_inv (db_after (serve bearer api_token (read_body P fresh)) reached c h d) \<and>
    list_all2 (row_shows (db_after (serve bearer api_token (read_body P fresh)) reached c h d))
      (filter pushable results)
      (run_results u (db_after (serve bearer api_token (read_body P fresh)) reached c h d))"
  by (rule pushResults_rows [OF assms])

theorem push_stored_once_witness:
  "\<exists>h' c. pushResults example_push_world ''u'' ''t'' example_payload [] = (None, h') \<and> h' = c @ [] \<and>
     length (posts c) = 2 \<and>
     length (run_results example_uuid (db_after example_service (\<lambda>h. True) c [] empty_db)) = 1"
proof -
  obtain h' where p: "pushResults example_push_world ''u'' ''t'' example_payload [] = (None, h')"
    "length (posts h') = 2"
    using example_push by blast
  have f: "find_run example_uuid empty_db = None" by (simp add: find_run_def empty_db_def)
  have "length (filter pushable [example_result]) = 1"
    by (simp add: pushable_def example_result_def)
  with push_stored_once [OF db_inv_empty f plain_pydantic_ok example_built(2) example_years(1)
      example_stamps example_built(1) example_honest [unfolded example_service_def] p(1)]
  show ?thesis using p unfolding example_service_def by (auto dest!: list_all2_lengthD)
qed

text \<open>C28. At most once: whatever a push reports and whatever the network does, the requests that
  arrived have changed the database as a single one of them would have, or not at all.\<close>

theorem push_at_most_once:
  assumes "db_inv d" "marshalPayload payload = Inr body"
  shows "\<exists>r c. pushResults W url token payload h = (r, c @ h) \<and>
    db_after (serve bearer api_token decode) reached c h d \<in>
      {d, snd (serve bearer api_token decode (push_request url token body) d)}"
proof -
  obtain r h' where p: "pushResults W url token payload h = (r, h')" by fastforce
  obtain c where "h' = c @ h" "set (posts c) \<subseteq> {push_request url token body}"
    using pushResults_effect [OF p assms(2)] by (auto simp: push_effect_def)
  then show ?thesis using p wire.at_most_once [OF assms(1)] by blast
qed

theorem push_at_most_once_witness:
  "\<exists>r c. pushResults example_push_world ''u'' ''t'' example_payload [] = (r, c @ []) \<and>
     db_after example_service (\<lambda>h. True) c [] empty_db \<in>
       {empty_db, snd (example_service (push_request ''u'' ''t'' example_body) empty_db)}"
  unfolding example_service_def
  using push_at_most_once [OF db_inv_empty example_marshal] by blast

text \<open>C29. A push sends the same request at most three times, after waits of nothing, one and three
  seconds; it goes on only after a transient failure and succeeds exactly if the last answer was a
  success. A payload that cannot be encoded is never sent.\<close>

theorem push_attempt_discipline:
  "\<exists>c. snd (pushResults W url token payload h) = c @ h \<and>
     (case marshalPayload payload of
        Inl e \<Rightarrow> c = [] \<and> fst (pushResults W url token payload h) \<noteq> None
      | Inr body \<Rightarrow>
          set (posts c) \<subseteq> {push_request url token body} \<and> length (posts c) \<le> 3 \<and>
          rev (waited c) = take (length (waited c)) [1000000000, 3000000000] \<and>
          list_all (\<lambda>a. \<not> success a \<and> \<not> rejected a) (tl (post_answers W c h)) \<and>
          (fst (pushResults W url token payload h) = None \<longleftrightarrow>
             post_answers W c h \<noteq> [] \<and> success (hd (post_answers W c h))))"
proof (cases "marshalPayload payload")
  case (Inl e)
  then show ?thesis by (simp add: pushResults_def)
next
  case (Inr body)
  obtain r h' where p: "pushResults W url token payload h = (r, h')" by fastforce
  from pushResults_effect [OF p Inr] show ?thesis
    by (auto simp: p Inr push_effect_def backoff_def list_all_iff)
qed

text \<open>C30. Posting a run that is not stored yet and holds no NUL answers with the number of its results, and posting it
  again, any number of times, changes nothing, answers success and reports the same number as a
  duplicate.\<close>

theorem replay_is_noop:
  assumes "db_inv d" "find_run (rn_run_id p) d = None" "storable_run p"
  shows "fst (ingest_run p d) =
      Created \<lparr>ra_run_id = rn_run_id p, ra_stored_results = length (rn_results p), ra_duplicate = False\<rparr> \<and>
    ingest_run p (((\<lambda>d. snd (ingest_run p d)) ^^ Suc k) d) =
      (Created \<lparr>ra_run_id = rn_run_id p, ra_stored_results = length (rn_results p), ra_duplicate = True\<rparr>,
       snd (ingest_run p d))"
proof -
  let ?d = "snd (ingest_run p d)"
  have "fst (ingest_run p d) =
      Created \<lparr>ra_run_id = rn_run_id p, ra_stored_results = length (rn_results p), ra_duplicate = False\<rparr>"
    by (rule ingest_new [OF assms(2,3)]) simp
  moreover obtain e where e: "find_run (rn_run_id p) ?d = Some e"
    using ingest_finds calculation by blast
  have "length (run_results (rn_run_id p) ?d) = length (rn_results p)"
    using list_all2_lengthD [OF ingest_new_results(1) [OF assms]] by simp
  then have again: "ingest_run p ?d =
      (Created \<lparr>ra_run_id = rn_run_id p, ra_stored_results = length (rn_results p), ra_duplicate = True\<rparr>, ?d)"
    by (simp add: ingest_replay [OF e] run_results_def e)
  moreover have "((\<lambda>d. snd (ingest_run p d)) ^^ Suc k) d = ?d"
    by (induction k) (simp_all add: again)
  ultimately show ?thesis by simp
qed

theorem replay_is_noop_witness:
  "ingest_run example_run (((\<lambda>d. snd (ingest_run example_run d)) ^^ Suc 2) empty_db) =
     (Created \<lparr>ra_run_id = example_uuid, ra_stored_results = 1, ra_duplicate = True\<rparr>,
      snd (ingest_run example_run empty_db))"
proof -
  have "rn_run_id example_run = example_uuid" "length (rn_results example_run) = 1"
    by (simp_all add: example_run_def run_of_payload_def example_payload_def buildPayload_def
        push_results_eq pushable_def example_result_def)
  then show ?thesis
    using replay_is_noop [OF db_inv_empty _ example_run_valid(2), of 2]
    by (simp add: find_run_def empty_db_def)
qed

text \<open>C31. A push of results none of which has TCP and TLS verdicts fails for good, although nothing is
  wrong: the payload's batch is empty, the service refuses it with 422 whatever its state, even with
  the right (ASCII) token, and the client takes the first such answer for permanent.\<close>

theorem empty_batch_rejected:
  assumes "buildPayload (format_uuid u) source startedAt results = Some payload" "\<forall>r \<in> set results. \<not> pushable r"
    and "py_ok P" "length u = 16" "py_range startedAt" "pw_bad_url W url = None"
    and "ascii tok" "token \<noteq> []" "bearer (Some (''Bearer '' @ token)) = Some tok"
    and "\<And>req. pw_do W (Post req # h) =
      Response (status_code (fst (serve bearer tok (read_body P fresh) req d))) status snippet"
  shows "\<exists>body m. marshalPayload payload = Inr body \<and>
    serve bearer tok (read_body P fresh) (push_request url token body) d = (Unprocessable, d) \<and>
    pushResults W url token payload h =
      (Some (Attempt 1 (Permanent m)), Post (push_request url token body) # h)"
proof -
  obtain body where m: "marshalPayload payload = Inr body"
    "serve bearer tok (read_body P fresh) (push_request url token body) d = (Unprocessable, d)"
    using empty_batch_served [OF assms(1-5,7), of bearer fresh d] assms(8,9) by (auto simp: push_request_def)
  have "rejected (pw_do W (Post (push_request url token body) # h))"
    by (simp add: assms(10) m(2) rejected_def status_code_def)
  then show ?thesis using pushResults_rejected [OF m(1) assms(6)] m by blast
qed

theorem empty_batch_rejected_witness:
  "\<exists>payload m c. buildPayload (format_uuid example_uuid) ''s'' 0 [] = Some payload \<and>
     pushResults (faithful_world example_service empty_db) ''u'' ''t'' payload [] =
       (Some (Attempt 1 (Permanent m)), c) \<and> length c = 1"
proof -
  obtain payload where b: "buildPayload (format_uuid example_uuid) ''s'' 0 [] = Some payload"
    by (simp add: buildPayload_def push_results_eq)
  let ?W = "faithful_world example_service empty_db"
  have t: "pw_bad_url ?W ''u'' = None" "ascii ''t''" "''t'' \<noteq> []" "example_bearer (Some (''Bearer '' @ ''t'')) = Some ''t''"
    by (simp_all add: faithful_world_def ascii_def example_bearer_def)
  have "pw_do ?W (Post req # []) = Response (status_code (fst (serve example_bearer ''t''
      (read_body plain_pydantic []) req empty_db))) [] []" for req
    by (simp add: faithful_world_def example_service_def)
  from empty_batch_rejected [OF b _ plain_pydantic_ok example_built(2) example_years(1) t this]
  obtain body m where "pushResults ?W ''u'' ''t'' payload [] =
      (Some (Attempt 1 (Permanent m)), Post (push_request ''u'' ''t'' body) # [])" by auto
  then show ?thesis using b by fastforce
qed

section \<open>Concurrent requests and queries\<close>

text \<open>C32. Requests that run at the same time, statement by statement, over tables they all write: in
  every reachable state the committed database is consistent, every reply that acknowledges a run
  tells its id and the number of rows it has, a reply to a new run has one row per result behind it,
  in order, and no run id is stored by two requests.\<close>

theorem concurrent_ingest:
  assumes "db_inv d" "ingest_reach d s"
  shows "db_inv (sv_db s) \<and> distinct (stored_ids (sv_txs s)) \<and>
    (\<forall>p a. Replied p (Created a) \<in> set (sv_txs s) \<longrightarrow>
       ra_run_id a = rn_run_id p \<and>
       ra_stored_results a = length (run_results (rn_run_id p) (sv_db s)) \<and>
       (\<not> ra_duplicate a \<longrightarrow>
          list_all2 (row_matches (sv_db s)) (rn_results p) (run_results (rn_run_id p) (sv_db s))))"
  using ingest_reach_inv [OF assms(2,1)] by (auto simp: server_inv_def list_all_iff)

theorem concurrent_ingest_witness:
  "\<exists>s :: server. sv_txs s = [Replied example_run (fst (ingest_run example_run empty_db)), Arrived example_run] \<and>
     db_inv (sv_db s) \<and> length (run_results example_uuid (sv_db s)) = 1"
proof -
  let ?first = "\<lparr>sv_db = empty_db, sv_txs = [Arrived example_run, Arrived example_run]\<rparr>"
  let ?s = "\<lparr>sv_db = snd (ingest_run example_run empty_db),
    sv_txs = [Replied example_run (fst (ingest_run example_run empty_db)), Arrived example_run]\<rparr>"
  have start: "ingest_reach empty_db ?first"
    using ingest_reach.step [OF ingest_reach.step [OF ingest_reach.start ingest_step.arrive] ingest_step.arrive]
    by simp
  have steps: "ingest_step\<^sup>*\<^sup>* ?first ?s"
    using ingest_alone [of "[]" "[Arrived example_run]" empty_db example_run] by simp
  note reach = ingest_reach_steps [OF steps start]
  obtain a where a: "fst (ingest_run example_run empty_db) = Created a" "ra_stored_results a = 1"
  proof -
    have "length (rn_results example_run) = 1"
      by (simp add: example_run_def run_of_payload_def example_payload_def buildPayload_def
          push_results_eq pushable_def example_result_def)
    moreover have "find_run (rn_run_id example_run) empty_db = None" by (simp add: find_run_def empty_db_def)
    ultimately show thesis using ingest_new [OF _ example_run_valid(2), of empty_db] that by force
  qed
  have "rn_run_id example_run = example_uuid" by (simp add: example_run_def run_of_payload_def)
  then have "db_inv (sv_db ?s)" "length (run_results example_uuid (sv_db ?s)) = 1"
    using concurrent_ingest [OF db_inv_empty reach] a by auto
  moreover have "sv_txs ?s = [Replied example_run (fst (ingest_run example_run empty_db)), Arrived example_run]"
    by simp
  ultimately show ?thesis by blast
qed

text \<open>C33. The statement-by-statement handler implements the handler as one function: a request whose
  statements run while no other transaction moves or has uncommitted rows can run to the reply and
  the database of \<open>ingest_run\<close>, and whatever it replies, in whatever way it runs, is that reply with
  that database, unless it is rolled back, when it answers 500 and leaves every row as it was.\<close>

theorem ingest_refines:
  assumes "pending_runs (xs @ ys) = []" "pending_nodes (xs @ ys) = []"
  shows "(own_step xs ys)\<^sup>*\<^sup>* (d, Arrived p) (snd (ingest_run p d), Replied p (fst (ingest_run p d))) \<and>
    (\<forall>d' q r. (own_step xs ys)\<^sup>*\<^sup>* (d, Arrived p) (d', Replied q r) \<longrightarrow>
       q = p \<and> ((r, d') = ingest_run p d \<or> r = ServerError \<and> same_rows d d'))"
  using own_run_alone [OF assms] own_run_replies by blast

theorem ingest_refines_witness:
  "(own_step [Unknown example_run] [])\<^sup>*\<^sup>* (empty_db, Arrived example_run)
     (snd (ingest_run example_run empty_db), Replied example_run (fst (ingest_run example_run empty_db)))"
  using ingest_refines [of "[Unknown example_run]" "[]"] by simp

text \<open>C34. The listing shows every node that has a result exactly once, by increasing id, with a newest
  result of that node, whatever order PostgreSQL gives rows the query leaves unordered.\<close>

theorem list_nodes_newest:
  assumes "db_inv d" "phases_known d" "planner_ok P"
  shows "\<exists>rows. list_nodes P d = Answer (map status_of rows) \<and>
    sorted_wrt (<) (map (\<lambda>row. nd_id (fst row)) rows) \<and>
    fst ` set rows = {n \<in> set (db_nodes d). \<exists>r \<in> set (db_results d). res_node_id r = nd_id n} \<and>
    (\<forall>(n, r) \<in> set rows. r \<in> set (db_results d) \<and> res_node_id r = nd_id n \<and>
       (\<forall>r' \<in> set (db_results d). res_node_id r' = nd_id n \<longrightarrow> res_ts r' \<le> res_ts r))"
  by (rule list_nodes_rows [OF assms])

theorem list_nodes_newest_witness:
  "\<exists>rows. list_nodes example_planner (snd (post_runs ''t'' (Some ''t'') example_run empty_db)) =
       Answer (map status_of rows) \<and>
     sorted_wrt (<) (map (\<lambda>row. nd_id (fst row)) rows)"
  using list_nodes_newest [OF _ post_runs_phases [OF phases_known_empty] example_planner_ok,
      of "''t''" "Some ''t''" example_run]
    runs.inv_apply [OF db_inv_empty, of "''t''" "(Some ''t'', example_run)"]
  by (auto simp: runs_endpoint_def)

text \<open>C35. From the request to the listing: after a new run is ingested, the node of each of its results
  that is the only one of the run for its address and SNI, and later than everything stored, is
  listed with that result, up exactly if both phases passed.\<close>

theorem ingested_run_listed:
  assumes "db_inv d" "phases_known d" "planner_ok P" "find_run (rn_run_id p) d = None"
    and "valid_run p" "storable_run p" "ascii tok" "q \<in> set (rn_results p)"
    and "\<forall>q' \<in> set (rn_results p). ref_key (ri_node q') = ref_key (ri_node q) \<longrightarrow> q' = q"
    and "\<forall>x \<in> set (db_results d). res_ts x < ri_ts q"
  shows "\<exists>sts. list_nodes P (snd (post_runs tok (Some tok) p d)) = Answer sts \<and>
    (\<exists>st \<in> set sts. (ns_addr st, ns_sni st) = ref_key (ri_node q) \<and> ns_ts st = ri_ts q \<and>
       ns_up st = (ri_tcp_ok q \<and> ri_tls_ok q) \<and> ns_error st = ri_error q \<and>
       ns_failed_phase st = ri_failed_phase q \<and> ns_latency_ms st = ri_latency_ms q)"
  by (rule ingested_listed [OF assms])

theorem ingested_run_listed_witness:
  "\<exists>sts. list_nodes example_planner (snd (post_runs ''t'' (Some ''t'') example_run empty_db)) = Answer sts \<and>
     (\<exists>st \<in> set sts. \<not> ns_up st \<and> ns_ts st = 1000)"
proof -
  have r: "length (rn_results example_run) = 1" "\<not> ri_tls_ok (hd (rn_results example_run))"
    "ri_ts (hd (rn_results example_run)) = 1000"
    by (simp_all add: example_run_def run_of_payload_def example_payload_def buildPayload_def result_of_push_def
        push_results_eq pushable_def push_result_def example_result_def micros_def)
  then obtain q where q: "rn_results example_run = [q]" "\<not> ri_tls_ok q" "ri_ts q = 1000"
    by (cases "rn_results example_run") auto
  have "find_run (rn_run_id example_run) empty_db = None" by (simp add: find_run_def empty_db_def)
  moreover have "\<forall>x \<in> set (db_results empty_db). res_ts x < ri_ts q" by (simp add: empty_db_def)
  ultimately show ?thesis
    using ingested_run_listed [OF db_inv_empty phases_known_empty example_planner_ok _ example_run_valid, of "''t''" q]
      q by (auto simp: ascii_def)
qed

text \<open>C36. The history of a known node holds its newest results not older than asked for, newest first,
  as many as the limit allows; an unknown name is a 404, and one with a NUL, which no statement can
  carry, fails with a 500.\<close>

theorem node_history_newest:
  assumes "planner_ok P" "phases_known d" "1 \<le> limit" "limit \<le> 5000"
  shows "if \<not> storable name then node_history P d name since limit = Broken
    else if name \<in> nd_name ` set (db_nodes d)
    then \<exists>n \<in> set (db_nodes d). \<exists>rows. nd_name n = name \<and>
      node_history P d name since limit = Answer (map result_out_of (take (nat limit) rows)) \<and>
      mset rows = mset (filter (\<lambda>r. res_node_id r = nd_id n \<and> pred_option (\<lambda>t. t \<le> res_ts r) since) (db_results d)) \<and>
      sorted_wrt (\<lambda>r s. res_ts s \<le> res_ts r) rows
    else node_history P d name since limit = Not_Found (''unknown node: '' @ name)"
  using assms
proof (cases rule: node_history_cases [where name = name and since = since])
  case (known n rows)
  then show ?thesis by auto
qed simp_all

theorem node_history_newest_witness:
  "\<exists>rows. node_history example_planner example_history ''de'' (Some 10) 1 =
     Answer (map result_out_of (take 1 rows)) \<and> length rows = 2 \<and> res_ts (rows ! 1) \<le> res_ts (rows ! 0)"
proof -
  have "storable ''de''" "''de'' \<in> nd_name ` set (db_nodes example_history)"
    by (simp_all add: storable_def example_history_def)
  then obtain n rows where n: "n \<in> set (db_nodes example_history)"
    "node_history example_planner example_history ''de'' (Some 10) 1 = Answer (map result_out_of (take 1 rows))"
    "mset rows = mset (filter (\<lambda>r. res_node_id r = nd_id n \<and> pred_option (\<lambda>t. t \<le> res_ts r) (Some 10)) (db_results example_history))"
    "sorted_wrt (\<lambda>r s. res_ts s \<le> res_ts r) rows"
    using node_history_newest [OF example_planner_ok example_history_phases, of 1 "''de''" "Some 10"] by auto
  have "length rows = 2" using n(1) arg_cong [OF n(3), of size] by (simp add: example_history_def)
  moreover from this have "res_ts (rows ! 1) \<le> res_ts (rows ! 0)" using sorted_wrt_nth_less [OF n(4), of 0 1] by simp
  ultimately show ?thesis using n(2) by blast
qed

text \<open>C37. A scraper reads out of the metrics text, for the newest result of every node, whether the node
  is up, its handshake time if it has one, and the age of the result, each under the node's name,
  address, SNI and provider, whatever characters these contain, and nothing else.\<close>

theorem metrics_scraped:
  "scrape (metrics P now d) =
     map (\<lambda>(n, r). Some (''nodecheck_node_up'', label_values n,
            if res_tcp_ok r \<and> res_tls_ok r then ''1'' else ''0'')) (latest_per_node P d) @
     List.map_filter (\<lambda>(n, r). map_option (\<lambda>ms. Some (''nodecheck_handshake_seconds'', label_values n,
            fixed_point 6 (fl (ms / 1000)))) (res_latency_ms r)) (latest_per_node P d) @
     map (\<lambda>(n, r). Some (''nodecheck_last_check_age_seconds'', label_values n,
            fixed_point 1 (age_seconds now (res_ts r)))) (latest_per_node P d)"
  by (rule scrape_metrics)

section \<open>The command\<close>

text \<open>C38. The command line: options written as flags are read back exactly, whatever their strings
  contain, and for every flag the spellings \<open>-name=value\<close>, \<open>--name=value\<close> and, unless it is boolean,
  \<open>-name value\<close> mean the same.\<close>

theorem flags_round_trip:
  assumes "int64 (op_timeout opts)" "int64 (op_conc opts)" "int64 (op_pushTimeout opts)"
    and "map_of formal_flags name = Some st"
  shows "parse_flags default_options (args_of opts) = Inr (opts, []) \<and>
    parse_flags any ((''--'' @ name @ ''='' @ v) # args) = parse_flags any ((''-'' @ name @ ''='' @ v) # args) \<and>
    (is_bool_flag st \<or>
     parse_flags any ((''-'' @ name) # v # args) = parse_flags any ((''-'' @ name @ ''='' @ v) # args))"
  using parse_args_of [OF assms(1-3), of default_options "[]"] flag_forms [OF assms(4), of any v args]
  by (auto simp del: parse_flags.simps(2))

theorem flags_round_trip_witness:
  "parse_flags default_options (args_of (default_options\<lparr>op_format := ''prom''\<rparr>)) =
     Inr (default_options\<lparr>op_format := ''prom''\<rparr>, [])"
proof -
  have "map_of formal_flags ''targets'' = Some (String_Flag (\<lambda>v opts. opts\<lparr>op_targets := v\<rparr>))"
    by (simp add: formal_flags_def)
  from flags_round_trip [OF _ _ _ this, of "default_options\<lparr>op_format := ''prom''\<rparr>"]
  show ?thesis by (simp add: default_options_def int64_def)
qed

text \<open>C39. The program from its arguments to its output: with targets that load, the JSON format and no
  push, and whatever \<open>runAll\<close> returns after whatever interleaving, standard output is one JSON text
  of the report's type with exactly one entry per target, that of its probe, and the process exits
  with 0 if every probe succeeded and with 1 otherwise.\<close>

theorem nodecheck_reports:
  assumes "parse_flags default_options args = Inr (opts, rest)"
    and "\<not> op_version opts" "op_format opts = ''json''" "op_pushURL opts = []"
    and "loadTargets (ev_world E) (op_targets opts) (ev_file E (op_targets opts)) [] = (Inr ts, h)"
    and "runAll_reach Ws ts (op_timeout opts) (op_conc opts) s"
    and "p_main s = Returned (run_all ts (op_timeout opts) (op_conc opts))"
    and "\<forall>rs. mset (ev_sort E by_name rs) = mset rs"
    and "list_all (\<lambda>r. marshalable (r_Timestamp r)) (runAll_results Ws ts (op_timeout opts))"
  shows "\<exists>p vs. nodecheck E args run_all = Some p \<and>
    exit_code p = (if list_all r_OK (runAll_results Ws ts (op_timeout opts)) then 0 else 1) \<and>
    parse_json (stdout p) = Some (JArr vs) \<and> typed report_type (JArr vs) \<and>
    mset vs = mset (map (\<lambda>r. cleaned (result_tree r)) (runAll_results Ws ts (op_timeout opts)))"
proof -
  let ?raw = "run_all ts (op_timeout opts) (op_conc opts)" and ?all = "runAll_results Ws ts (op_timeout opts)"
  let ?sorted = "ev_sort E by_name ?raw"
  have "mset ?raw = mset ?all"
    using returned_results [OF runAll_inv [OF assms(6)] assms(7)] by (simp add: runAll_results_def)
  then have perm: "mset ?sorted = mset ?all" using assms(8) by simp
  obtain text' where t: "encodeResults ?sorted = Inr text'"
    "parse_json text' = Some (cleaned (report_tree ?sorted))" "typed report_type (cleaned (report_tree ?sorted))"
    using report_permuted [OF perm assms(9)] by blast
  let ?p = "\<lparr>exit_code = (if list_all r_OK ?sorted then 0 else 1), stdout = text', stderr = []\<rparr>"
  have run: "nodecheck E args run_all = Some ?p"
    using main_cmd_json [where run_all = run_all, OF assms(2-5) t(1)] assms(1) by (simp add: nodecheck_def)
  have "list_all r_OK ?sorted = list_all r_OK ?all"
    using mset_eq_setD [OF perm] by (simp add: list_all_iff)
  moreover have "mset (map (\<lambda>r. cleaned (result_tree r)) ?sorted) = mset (map (\<lambda>r. cleaned (result_tree r)) ?all)"
    using perm by (metis mset_map)
  ultimately show ?thesis
    using t(2,3) by (intro exI [of _ ?p] exI [of _ "map (\<lambda>r. cleaned (result_tree r)) ?sorted"])
      (simp add: run report_tree_def comp_def)
qed

theorem nodecheck_reports_witness:
  "\<exists>rs p vs. nodecheck example_environment [] (\<lambda>ts timeout conc. rs) = Some p \<and>
     parse_json (stdout p) = Some (JArr vs) \<and> typed report_type (JArr vs) \<and> length vs = 1"
proof -
  let ?t = "example_target [] None" and ?Ws = "\<lambda>i::nat. example_world (\<lambda>h. 0) late_answer []"
  obtain h where load: "loadTargets (ev_world example_environment) (op_targets default_options)
      (ev_file example_environment (op_targets default_options)) [] = (Inr [?t], h)"
    using example_loaded [of "\<lambda>h. 0" late_answer "[]" "op_targets default_options"]
    by (auto simp: example_environment_def)
  obtain s rs where s: "runAll_reach ?Ws [?t] (op_timeout default_options) (op_conc default_options) s"
    "p_main s = Returned rs"
    using runAll_returns by blast
  have "parse_flags default_options [] = Inr (default_options, [])" by simp
  from nodecheck_reports [OF this _ _ _ load s(1), of "\<lambda>ts timeout conc. rs"] s(2) example_stamped
  obtain p vs where "nodecheck example_environment [] (\<lambda>ts timeout conc. rs) = Some p"
    "parse_json (stdout p) = Some (JArr vs)" "typed report_type (JArr vs)"
    "mset vs = mset (map (\<lambda>r. cleaned (result_tree r)) (runAll_results ?Ws [?t] (op_timeout default_options)))"
    by (auto simp: default_options_def example_environment_def)
  moreover have "length (runAll_results ?Ws [?t] d) = 1" for d by (simp add: runAll_results_def)
  ultimately show ?thesis by (metis length_map size_mset)
qed

text \<open>C40. The exit code of the process, whatever its arguments: 0 if help is asked for and 2 for
  arguments that are no flags of the program, before anything is loaded; 0 for the version; 1 for a
  targets file that cannot be loaded; 2 for an unknown format; then 1 if the results cannot be
  printed, 3 if they cannot be pushed, 1 if a node is down and 0 otherwise. It never panics.\<close>

theorem exit_codes:
  "\<exists>p. nodecheck E args run_all = Some p \<and>
     exit_code p =
       (case parse_flags default_options args of
          Inl e \<Rightarrow> if e = Help_Wanted then 0 else 2
        | Inr (opts, rest) \<Rightarrow>
            if op_version opts then 0
            else case loadTargets (ev_world E) (op_targets opts) (ev_file E (op_targets opts)) [] of
              (Inl e, h) \<Rightarrow> 1
            | (Inr ts, h) \<Rightarrow>
                let results = ev_sort E by_name (run_all ts (op_timeout opts) (op_conc opts));
                    (startedAt, h1) = sys_now (ev_world E) h
                in if op_format opts \<noteq> ''prom'' \<and> op_format opts \<noteq> ''json'' then 2
                   else if \<not> printable E opts results then 1
                   else if push_step E opts startedAt results h1 \<noteq> Some None then 3
                   else if list_all r_OK results then 0 else 1)"
proof (cases "parse_flags default_options args")
  case (Inl e)
  then show ?thesis by (simp add: nodecheck_def)
next
  case (Inr v)
  obtain opts rest where v: "v = (opts, rest)" by (cases v)
  show ?thesis using main_cmd_code [of E opts run_all] by (simp add: nodecheck_def Inr v)
qed

end
